(* ===== verification/Prelude.thy ===== *)
theory Prelude
  imports Complex_Main "HOL-Library.AList" "HOL-Library.Word"
begin

text \<open>
  The shared base of the development: the exceptions that cross component boundaries, the
  parts of the C++ standard library that the sources use on strings and numbers
  (\<open>std::string::find\<close>, \<open>substr\<close>, \<open>find_first_not_of\<close>, \<open>c_str\<close>, \<open>std::to_string\<close>,
  \<open>std::stoi\<close>, \<open>std::stoll\<close>, \<open>std::stoull\<close>, \<open>std::clamp\<close>), and the generic lemmas about
  them. A \<open>std::string\<close> is a \<open>string\<close>, that is a list of 8-bit characters, so \<open>length\<close>
  is \<open>size()\<close>, a number of bytes. \<open>std::string::npos\<close> is \<open>None\<close>.
\<close>

named_theorems cstr_simps \<open>evaluation of the string operations of the standard library\<close>

section \<open>Exceptions\<close>

text \<open>
  Every exception type that some function of the sources throws or catches, with the text
  its \<open>what()\<close> returns where a caller uses it. All of them derive from
  \<open>std::exception\<close>, so a \<open>catch (const std::exception &)\<close> is a branch that takes any
  \<open>Inl e\<close>. \<open>StdError\<close> stands for every other exception (of libpqxx, of the standard
  library) that no handler of the sources tells apart.
\<close>

datatype exn =
    RedisConfigError string
  | RedisCommandError string
  | DbConfigError string
  | DbPoolExhausted string
  | MigrationError string
  | JwtConfigError string
  | JwtValidationError string
  | ApiKeyConfigError string
  | ApiKeyValidationError string
  | ApiKeyBackendError string
  | ResourceValidationError string
  | InvalidCursorError string
  | ResourceNotFound string
  | ResourceAlreadyExists string
  | UniqueViolation string
  | JsonException string
  | InvalidArgument string
  | OutOfRange string
  | StdError string

fun what :: "exn \<Rightarrow> string" where
  "what (RedisConfigError m) = m"
| "what (RedisCommandError m) = m"
| "what (DbConfigError m) = m"
| "what (DbPoolExhausted m) = m"
| "what (MigrationError m) = m"
| "what (JwtConfigError m) = m"
| "what (JwtValidationError m) = m"
| "what (ApiKeyConfigError m) = m"
| "what (ApiKeyValidationError m) = m"
| "what (ApiKeyBackendError m) = m"
| "what (ResourceValidationError m) = m"
| "what (InvalidCursorError m) = m"
| "what (ResourceNotFound m) = m"
| "what (ResourceAlreadyExists m) = m"
| "what (UniqueViolation m) = m"
| "what (JsonException m) = m"
| "what (InvalidArgument m) = m"
| "what (OutOfRange m) = m"
| "what (StdError m) = m"

section \<open>Results\<close>

text \<open>A block of statements that an exception leaves: the next statement runs on \<open>Inr\<close> only.\<close>

definition sum_bind :: "'e + 'a \<Rightarrow> ('a \<Rightarrow> 'e + 'b) \<Rightarrow> 'e + 'b" where
  "sum_bind r k = (case r of Inl e \<Rightarrow> Inl e | Inr x \<Rightarrow> k x)"

lemma sum_bind_simps [simp]: "sum_bind (Inl e) k = Inl e" "sum_bind (Inr x) k = k x"
  by (simp_all add: sum_bind_def)

lemma sum_bind_Inr_iff: "sum_bind r k = Inr y \<longleftrightarrow> (\<exists>x. r = Inr x \<and> k x = Inr y)"
  by (cases r) simp_all

lemma sum_bind_Inl_iff: "sum_bind r k = Inl e \<longleftrightarrow> r = Inl e \<or> (\<exists>x. r = Inr x \<and> k x = Inl e)"
  by (cases r) simp_all

section \<open>Strings\<close>

definition find_char :: "char \<Rightarrow> string \<Rightarrow> nat option" where
  "find_char c s = (if c \<in> set s then Some (length (takeWhile (\<lambda>x. x \<noteq> c) s)) else None)"

definition find_char_from :: "char \<Rightarrow> string \<Rightarrow> nat \<Rightarrow> nat option" where
  "find_char_from c s start = map_option (\<lambda>i. start + i) (find_char c (drop start s))"

definition substr :: "string \<Rightarrow> nat \<Rightarrow> nat \<Rightarrow> string" where
  "substr s pos n = take n (drop pos s)"

definition substr_from :: "string \<Rightarrow> nat \<Rightarrow> string" where
  "substr_from s pos = drop pos s"

text \<open>\<open>s.rfind(p, 0) == 0\<close>: the only position tried is 0.\<close>

definition starts_with :: "string \<Rightarrow> string \<Rightarrow> bool" where
  "starts_with p s \<longleftrightarrow> take (length p) s = p"

definition find_first_not_of :: "char list \<Rightarrow> string \<Rightarrow> nat option" where
  "find_first_not_of cs s =
     (if \<exists>x\<in>set s. x \<notin> set cs then Some (length (takeWhile (\<lambda>x. x \<in> set cs) s)) else None)"

definition find_last_not_of :: "char list \<Rightarrow> string \<Rightarrow> nat option" where
  "find_last_not_of cs s =
     (if \<exists>x\<in>set s. x \<notin> set cs
      then Some (length s - 1 - length (takeWhile (\<lambda>x. x \<in> set cs) (rev s))) else None)"

text \<open>A C string ends at its first NUL.\<close>

definition c_str :: "string \<Rightarrow> string" where
  "c_str s = takeWhile (\<lambda>c. c \<noteq> CHR 0x00) s"

lemma starts_with_append [cstr_simps]: "starts_with p (p @ s)"
  by (simp add: starts_with_def)

lemma starts_with_iff: "starts_with p s \<longleftrightarrow> (\<exists>r. s = p @ r)"
  by (metis append_take_drop_id append_eq_conv_conj starts_with_def)

lemma find_char_None [cstr_simps]: "find_char c s = None \<longleftrightarrow> c \<notin> set s"
  by (simp add: find_char_def)

lemma find_char_append [cstr_simps]: "c \<notin> set s \<Longrightarrow> find_char c (s @ c # t) = Some (length s)"
  by (induction s) (auto simp: find_char_def)

lemma find_char_split:
  assumes "find_char c s = Some i"
  shows "s = take i s @ c # drop (Suc i) s \<and> c \<notin> set (take i s) \<and> i < length s"
proof -
  have c: "c \<in> set s" and i: "i = length (takeWhile (\<lambda>x. x \<noteq> c) s)"
    using assms by (auto simp: find_char_def split: if_splits)
  obtain ys zs where s: "s = ys @ c # zs" and ys: "c \<notin> set ys"
    using split_list_first [OF c] by blast
  have "takeWhile (\<lambda>x. x \<noteq> c) s = ys"
    using ys unfolding s by (subst takeWhile_append2) auto
  with s ys i show ?thesis by simp
qed

lemma c_str_id [cstr_simps]: "CHR 0x00 \<notin> set s \<Longrightarrow> c_str s = s"
  by (auto simp: c_str_def takeWhile_eq_all_conv)

text \<open>Lines, each ended by a line feed.\<close>

definition unlines :: "string list \<Rightarrow> string" where
  "unlines ls = concat (map (\<lambda>l. l @ [CHR 0x0A]) ls)"

section \<open>Numbers\<close>

definition clamp :: "'a::linorder \<Rightarrow> 'a \<Rightarrow> 'a \<Rightarrow> 'a" where
  "clamp v lo hi = (if v < lo then lo else if hi < v then hi else v)"

definition digit_char :: "nat \<Rightarrow> char" where
  "digit_char d = char_of (48 + d)"

fun dec_nat :: "nat \<Rightarrow> string" where
  "dec_nat n = (if n < 10 then [digit_char n] else dec_nat (n div 10) @ [digit_char (n mod 10)])"

declare dec_nat.simps [simp del]

definition dec_int :: "int \<Rightarrow> string" where
  "dec_int i = (if i < 0 then CHR ''-'' # dec_nat (nat (- i)) else dec_nat (nat i))"

definition is_space :: "char \<Rightarrow> bool" where
  "is_space c \<longleftrightarrow> c \<in> {CHR '' '', CHR 0x09, CHR 0x0A, CHR 0x0B, CHR 0x0C, CHR 0x0D}"

definition is_digit :: "char \<Rightarrow> bool" where
  "is_digit c \<longleftrightarrow> 48 \<le> (of_char c :: nat) \<and> (of_char c :: nat) \<le> 57"

definition digit_val :: "char \<Rightarrow> nat" where
  "digit_val c = of_char c - 48"

fun digits_value :: "nat \<Rightarrow> string \<Rightarrow> nat" where
  "digits_value acc [] = acc"
| "digits_value acc (c # cs) = digits_value (acc * 10 + digit_val c) cs"

text \<open>
  The common part of \<open>strtol\<close>, \<open>strtoll\<close> and \<open>strtoull\<close> in base 10: leading white space,
  an optional sign, the longest run of digits. \<open>None\<close> when there is no digit, otherwise
  the sign, the magnitude and the number of characters consumed.
\<close>

definition strto_scan :: "string \<Rightarrow> (bool \<times> nat \<times> nat) option" where
  "strto_scan s =
     (let ws = takeWhile is_space s;
          r = drop (length ws) s;
          (neg, r', k) = (case r of
             [] \<Rightarrow> (False, r, 0)
           | c # t \<Rightarrow> if c = CHR ''-'' then (True, t, 1)
                      else if c = CHR ''+'' then (False, t, 1) else (False, r, 0));
          ds = takeWhile is_digit r'
      in if ds = [] then None
         else Some (neg, digits_value 0 ds, length ws + k + length ds))"

definition signed_value :: "bool \<Rightarrow> nat \<Rightarrow> int" where
  "signed_value neg m = (if neg then - int m else int m)"

definition stoi :: "string \<Rightarrow> exn + int \<times> nat" where
  "stoi s = (case strto_scan s of
      None \<Rightarrow> Inl (InvalidArgument ''stoi'')
    | Some (neg, m, k) \<Rightarrow>
        (let v = signed_value neg m
         in if v < - (2 ^ 31) \<or> 2 ^ 31 - 1 < v then Inl (OutOfRange ''stoi'') else Inr (v, k)))"

definition stoll :: "string \<Rightarrow> exn + int \<times> nat" where
  "stoll s = (case strto_scan s of
      None \<Rightarrow> Inl (InvalidArgument ''stoll'')
    | Some (neg, m, k) \<Rightarrow>
        (let v = signed_value neg m
         in if v < - (2 ^ 63) \<or> 2 ^ 63 - 1 < v then Inl (OutOfRange ''stoll'') else Inr (v, k)))"

text \<open>\<open>strtoull\<close> accepts a sign and negates in the unsigned type.\<close>

definition stoull :: "string \<Rightarrow> exn + 64 word \<times> nat" where
  "stoull s = (case strto_scan s of
      None \<Rightarrow> Inl (InvalidArgument ''stoull'')
    | Some (neg, m, k) \<Rightarrow>
        if 2 ^ 64 - 1 < m then Inl (OutOfRange ''stoull'')
        else Inr (if neg then - of_nat m else of_nat m, k))"

lemma clamp_bounds: "lo \<le> hi \<Longrightarrow> lo \<le> clamp v lo hi \<and> clamp v lo hi \<le> hi"
  by (auto simp: clamp_def)

lemma of_char_digit_char [simp]: "d < 10 \<Longrightarrow> (of_char (digit_char d) :: nat) = 48 + d"
  by (simp add: digit_char_def)

lemma digit_val_digit_char [simp]: "d < 10 \<Longrightarrow> digit_val (digit_char d) = d"
  by (simp add: digit_val_def)

lemma is_digit_digit_char [simp]: "d < 10 \<Longrightarrow> is_digit (digit_char d)"
  by (simp add: is_digit_def)

lemma digits_value_append: "digits_value acc (xs @ ys) = digits_value (digits_value acc xs) ys"
  by (induction xs arbitrary: acc) auto

lemma dec_nat_not_Nil [simp]: "dec_nat n \<noteq> []"
  by (subst dec_nat.simps) simp

lemma dec_nat_digits: "c \<in> set (dec_nat n) \<Longrightarrow> is_digit c"
proof (induction n arbitrary: c rule: dec_nat.induct)
  case (1 n)
  show ?case
    using 1 by (subst (asm) dec_nat.simps) (auto split: if_splits)
qed

lemma digits_value_dec_nat: "digits_value 0 (dec_nat n) = n"
proof (induction n rule: dec_nat.induct)
  case (1 n)
  show ?case
    using 1 by (subst dec_nat.simps) (auto simp: digits_value_append)
qed

lemma dec_nat_inject [simp]: "dec_nat m = dec_nat n \<longleftrightarrow> m = n"
  by (metis digits_value_dec_nat)

lemma is_digit_not_space: "is_digit c \<Longrightarrow> \<not> is_space c"
  by (auto simp: is_digit_def is_space_def)

lemma is_digit_not_sign: "is_digit c \<Longrightarrow> c \<noteq> CHR ''-'' \<and> c \<noteq> CHR ''+''"
  by (auto simp: is_digit_def)

text \<open>Scanning a string of digits, alone or before a character that is no digit.\<close>

lemma strto_scan_digits:
  assumes "ds \<noteq> []" "\<forall>c\<in>set ds. is_digit c" "rest = [] \<or> \<not> is_digit (hd rest)"
  shows "strto_scan (ds @ rest) = Some (False, digits_value 0 ds, length ds)"
proof -
  obtain d ds' where ds: "ds = d # ds'" using assms(1) by (cases ds) auto
  have d: "is_digit d" using assms(2) ds by simp
  have ws: "takeWhile is_space (ds @ rest) = []"
    using is_digit_not_space [OF d] ds by simp
  have tw: "takeWhile is_digit (ds @ rest) = ds"
    using assms(2,3) by (cases rest) (auto simp: takeWhile_append2)
  show ?thesis
    using ws tw is_digit_not_sign [OF d] assms(1) ds by (simp add: strto_scan_def Let_def)
qed

lemma strto_scan_dec_nat: "strto_scan (dec_nat n) = Some (False, n, length (dec_nat n))"
  using strto_scan_digits [of "dec_nat n" "[]"] dec_nat_digits
  by (simp add: digits_value_dec_nat)

lemma strto_scan_neg_dec_nat:
  "strto_scan (CHR ''-'' # dec_nat n) = Some (True, n, Suc (length (dec_nat n)))"
proof -
  have tw: "takeWhile is_digit (dec_nat n) = dec_nat n"
    using dec_nat_digits by (simp add: takeWhile_eq_all_conv)
  show ?thesis
    by (simp add: strto_scan_def is_space_def digits_value_dec_nat Let_def tw)
qed

lemma dec_int_not_Nil [simp]: "dec_int i \<noteq> []"
  by (simp add: dec_int_def)

lemma stoi_dec_int:
  assumes "- (2 ^ 31) \<le> i" "i < 2 ^ 31"
  shows "stoi (dec_int i) = Inr (i, length (dec_int i))"
  using assms
  by (cases "i < 0")
     (simp_all add: stoi_def dec_int_def strto_scan_dec_nat strto_scan_neg_dec_nat
        signed_value_def Let_def)

lemma stoll_dec_int:
  assumes "- (2 ^ 63) \<le> i" "i < 2 ^ 63"
  shows "stoll (dec_int i) = Inr (i, length (dec_int i))"
  using assms
  by (cases "i < 0")
     (simp_all add: stoll_def dec_int_def strto_scan_dec_nat strto_scan_neg_dec_nat
        signed_value_def Let_def)

lemma stoll_dec_int_large: "2 ^ 63 \<le> i \<Longrightarrow> \<exists>e. stoll (dec_int i) = Inl e"
  by (simp add: stoll_def dec_int_def strto_scan_dec_nat signed_value_def Let_def)

section \<open>Optional values and association lists\<close>

lemma map_of_AList_update [simp]: "map_of (AList.update k v xs) = (map_of xs)(k \<mapsto> v)"
  by (rule update_conv')

lemma map_of_AList_delete [simp]: "map_of (AList.delete k xs) = (map_of xs)(k := None)"
  by (rule delete_conv')

lemma set_AList_update: "set (AList.update k v xs) \<subseteq> insert (k, v) (set xs)"
  by (induction xs) auto

lemma distinct_keys_filter: "distinct (map fst xs) \<Longrightarrow> distinct (map fst (filter P xs))"
  by (induction xs) auto

lemma map_of_filter_distinct:
  assumes "distinct (map fst xs)"
  shows "map_of (filter (\<lambda>(k, b). P b) xs) k =
    (case map_of xs k of None \<Rightarrow> None | Some b \<Rightarrow> if P b then Some b else None)"
  using assms
proof (induction xs)
  case (Cons x xs)
  obtain a b where x: "x = (a, b)" by (cases x)
  have "map_of xs a = None" using Cons.prems by (simp add: x map_of_eq_None_iff)
  with Cons show ?case by (cases "k = a") (auto simp: x)
qed simp

end
