(* ===== verification/Resource.thy ===== *)
theory Resource
  imports Prelude
begin

text \<open>
  Resources and their requests, \<open>include/corvus/resources/resource.h\<close> and
  \<open>src/resources/resource.cpp\<close>. A value of nlohmann::json is the datatype \<open>json\<close>: an object is an
  ordered map, here the association list of its members by increasing key. Parsing and
  printing a value are the library's and the parameter \<open>json_lib\<close>; printing throws on strings
  that are not UTF-8.
\<close>

datatype json =
    JsNull
  | JsBool bool
  | JsInteger int
  | JsFloat rat
  | JsString string
  | JsArray "json list"
  | JsObject "(string \<times> json) list"

record json_lib =
  json_parse :: "string \<Rightarrow> exn + json"
  json_dump :: "json \<Rightarrow> exn + string"

fun js_contains :: "json \<Rightarrow> string \<Rightarrow> bool" where
  "js_contains (JsObject ms) k \<longleftrightarrow> map_of ms k \<noteq> None"
| "js_contains _ k \<longleftrightarrow> False"

text \<open>\<open>operator[]\<close> on a member that exists, and \<open>at\<close>, which throws when there is none.\<close>

fun js_member :: "json \<Rightarrow> string \<Rightarrow> json" where
  "js_member (JsObject ms) k = (case map_of ms k of Some v \<Rightarrow> v | None \<Rightarrow> JsNull)"
| "js_member _ k = JsNull"

fun js_at :: "json \<Rightarrow> string \<Rightarrow> exn + json" where
  "js_at (JsObject ms) k = (case map_of ms k of
      Some v \<Rightarrow> Inr v
    | None \<Rightarrow> Inl (JsonException (''key '' @ k @ '' not found'')))"
| "js_at _ k = Inl (JsonException ''cannot use at() with this type'')"

fun js_string :: "json \<Rightarrow> exn + string" where
  "js_string (JsString s) = Inr s"
| "js_string _ = Inl (JsonException ''type must be string'')"

fun is_js_string :: "json \<Rightarrow> bool" where
  "is_js_string (JsString _) = True"
| "is_js_string _ = False"

fun is_js_object :: "json \<Rightarrow> bool" where
  "is_js_object (JsObject _) = True"
| "is_js_object _ = False"

section \<open>Data\<close>

definition kNameMaxLen :: nat where "kNameMaxLen = 256"
definition kKindMaxLen :: nat where "kKindMaxLen = 64"
definition kStatusMaxLen :: nat where "kStatusMaxLen = 32"
definition kMetadataMaxBytes :: nat where "kMetadataMaxBytes = 16 * 1024"

record resource =
  rs_id :: string
  rs_client_id :: string
  rs_kind :: string
  rs_name :: string
  rs_state :: string
  rs_metadata :: json
  rs_created_at :: string
  rs_updated_at :: string

record create_request =
  cq_kind :: string
  cq_name :: string
  cq_status :: "string option"
  cq_metadata :: "json option"

record update_request =
  uq_name :: "string option"
  uq_status :: "string option"
  uq_metadata :: "json option"

section \<open>Validation\<close>

definition require_non_empty :: "string \<Rightarrow> string \<Rightarrow> exn + unit" where
  "require_non_empty field v =
     (if v = [] then Inl (ResourceValidationError (field @ '' must not be empty'')) else Inr ())"

definition require_max_length :: "string \<Rightarrow> string \<Rightarrow> nat \<Rightarrow> exn + unit" where
  "require_max_length field v mx =
     (if mx < length v
      then Inl (ResourceValidationError (field @ '' exceeds maximum length of '' @ dec_nat mx @ '' characters''))
      else Inr ())"

definition validate_kind :: "string \<Rightarrow> exn + unit" where
  "validate_kind kind =
     sum_bind (require_non_empty ''kind'' kind) (\<lambda>_. require_max_length ''kind'' kind kKindMaxLen)"

definition validate_name :: "string \<Rightarrow> exn + unit" where
  "validate_name name =
     sum_bind (require_non_empty ''name'' name) (\<lambda>_. require_max_length ''name'' name kNameMaxLen)"

definition validate_status :: "string \<Rightarrow> exn + unit" where
  "validate_status status =
     sum_bind (require_non_empty ''status'' status) (\<lambda>_. require_max_length ''status'' status kStatusMaxLen)"

definition validate_metadata :: "json_lib \<Rightarrow> json \<Rightarrow> exn + unit" where
  "validate_metadata lib metadata =
     (if \<not> is_js_object metadata
      then Inl (ResourceValidationError ''metadata must be a JSON object'')
      else sum_bind (json_dump lib metadata) (\<lambda>serialized.
        if kMetadataMaxBytes < length serialized
        then Inl (ResourceValidationError
               (''metadata exceeds maximum size of '' @ dec_nat kMetadataMaxBytes @ '' bytes''))
        else Inr ()))"

text \<open>\<open>if (x) validate(*x)\<close>\<close>

definition validate_opt :: "('a \<Rightarrow> exn + unit) \<Rightarrow> 'a option \<Rightarrow> exn + unit" where
  "validate_opt f x = (case x of None \<Rightarrow> Inr () | Some v \<Rightarrow> f v)"

definition require_string :: "json \<Rightarrow> string \<Rightarrow> exn + string" where
  "require_string body field =
     (if \<not> js_contains body field then Inl (ResourceValidationError (field @ '' is required''))
      else if \<not> is_js_string (js_member body field)
      then Inl (ResourceValidationError (field @ '' must be a string''))
      else js_string (js_member body field))"

definition optional_string :: "json \<Rightarrow> string \<Rightarrow> exn + string option" where
  "optional_string body field =
     (if \<not> js_contains body field \<or> js_member body field = JsNull then Inr None
      else if \<not> is_js_string (js_member body field)
      then Inl (ResourceValidationError (field @ '' must be a string''))
      else sum_bind (js_string (js_member body field)) (\<lambda>s. Inr (Some s)))"

definition optional_object :: "json \<Rightarrow> string \<Rightarrow> exn + json option" where
  "optional_object body field =
     (if \<not> js_contains body field \<or> js_member body field = JsNull then Inr None
      else if \<not> is_js_object (js_member body field)
      then Inl (ResourceValidationError (field @ '' must be a JSON object''))
      else Inr (Some (js_member body field)))"

definition parse_create_request :: "json_lib \<Rightarrow> json \<Rightarrow> exn + create_request" where
  "parse_create_request lib body =
     (if \<not> is_js_object body
      then Inl (ResourceValidationError ''request body must be a JSON object'')
      else
        sum_bind (require_string body ''kind'') (\<lambda>kind.
        sum_bind (require_string body ''name'') (\<lambda>name.
        sum_bind (optional_string body ''status'') (\<lambda>status.
        sum_bind (optional_object body ''metadata'') (\<lambda>metadata.
        sum_bind (validate_kind kind) (\<lambda>_.
        sum_bind (validate_name name) (\<lambda>_.
        sum_bind (validate_opt validate_status status) (\<lambda>_.
        sum_bind (validate_opt (validate_metadata lib) metadata) (\<lambda>_.
          Inr \<lparr>cq_kind = kind, cq_name = name, cq_status = status, cq_metadata = metadata\<rparr>)))))))))"

definition parse_update_request :: "json_lib \<Rightarrow> json \<Rightarrow> exn + update_request" where
  "parse_update_request lib body =
     (if \<not> is_js_object body
      then Inl (ResourceValidationError ''request body must be a JSON object'')
      else
        sum_bind (optional_string body ''name'') (\<lambda>name.
        sum_bind (optional_string body ''status'') (\<lambda>status.
        sum_bind (optional_object body ''metadata'') (\<lambda>metadata.
          if name = None \<and> status = None \<and> metadata = None
          then Inl (ResourceValidationError
                 (''request body must contain at least one of: '' @ ''name, status, metadata''))
          else
            sum_bind (validate_opt validate_name name) (\<lambda>_.
            sum_bind (validate_opt validate_status status) (\<lambda>_.
            sum_bind (validate_opt (validate_metadata lib) metadata) (\<lambda>_.
              Inr \<lparr>uq_name = name, uq_status = status, uq_metadata = metadata\<rparr>)))))))"

section \<open>Conversion\<close>

definition resource_to_json :: "resource \<Rightarrow> json" where
  "resource_to_json r = JsObject
     [(''client_id'', JsString (rs_client_id r)),
      (''created_at'', JsString (rs_created_at r)),
      (''id'', JsString (rs_id r)),
      (''kind'', JsString (rs_kind r)),
      (''metadata'', rs_metadata r),
      (''name'', JsString (rs_name r)),
      (''status'', JsString (rs_state r)),
      (''updated_at'', JsString (rs_updated_at r))]"

text \<open>\<open>j.at(k).get<std::string>()\<close>\<close>

definition at_string :: "json \<Rightarrow> string \<Rightarrow> exn + string" where
  "at_string j k = sum_bind (js_at j k) js_string"

definition resource_from_json :: "json \<Rightarrow> exn + resource" where
  "resource_from_json j =
     sum_bind (at_string j ''id'') (\<lambda>i.
     sum_bind (at_string j ''client_id'') (\<lambda>c.
     sum_bind (at_string j ''kind'') (\<lambda>k.
     sum_bind (at_string j ''name'') (\<lambda>n.
     sum_bind (at_string j ''status'') (\<lambda>s.
     sum_bind (js_at j ''metadata'') (\<lambda>m.
     sum_bind (at_string j ''created_at'') (\<lambda>ca.
     sum_bind (at_string j ''updated_at'') (\<lambda>ua.
       Inr \<lparr>rs_id = i, rs_client_id = c, rs_kind = k, rs_name = n, rs_state = s,
            rs_metadata = m, rs_created_at = ca, rs_updated_at = ua\<rparr>))))))))"

section \<open>Lemmas\<close>

lemma resource_round_trip: "resource_from_json (resource_to_json r) = Inr r"
  by (simp add: resource_from_json_def resource_to_json_def at_string_def)

definition short_text :: "nat \<Rightarrow> string \<Rightarrow> bool" where
  "short_text n s \<longleftrightarrow> s \<noteq> [] \<and> length s \<le> n"

lemma validate_text_Inr [simp]:
  "validate_kind s = Inr () \<longleftrightarrow> short_text 64 s"
  "validate_name s = Inr () \<longleftrightarrow> short_text 256 s"
  "validate_status s = Inr () \<longleftrightarrow> short_text 32 s"
  by (auto simp: validate_kind_def validate_name_def validate_status_def require_non_empty_def
      require_max_length_def short_text_def kKindMaxLen_def kNameMaxLen_def kStatusMaxLen_def)

lemma validate_metadata_Inr [simp]:
  "validate_metadata lib m = Inr () \<longleftrightarrow>
     is_js_object m \<and> (\<exists>s. json_dump lib m = Inr s \<and> length s \<le> 16384)"
  by (auto simp: validate_metadata_def kMetadataMaxBytes_def sum_bind_Inr_iff not_less)

lemma validate_opt_Inr: "validate_opt f x = Inr () \<longleftrightarrow> (\<forall>v. x = Some v \<longrightarrow> f v = Inr ())"
  by (auto simp: validate_opt_def split: option.split)

lemma js_string_Inr: "js_string v = Inr s \<longleftrightarrow> v = JsString s"
  by (cases v) auto

lemma is_js_string_iff: "is_js_string v \<longleftrightarrow> (\<exists>s. v = JsString s)"
  by (cases v) auto

lemma require_string_Inr:
  "require_string (JsObject ms) k = Inr s \<longleftrightarrow> map_of ms k = Some (JsString s)"
  by (auto simp: require_string_def is_js_string_iff split: option.splits)

lemma optional_string_Inr:
  "optional_string (JsObject ms) k = Inr x \<longleftrightarrow>
     (case map_of ms k of None \<Rightarrow> x = None | Some JsNull \<Rightarrow> x = None
      | Some (JsString s) \<Rightarrow> x = Some s | Some _ \<Rightarrow> False)"
  by (auto simp: optional_string_def split: option.split json.split)

lemma optional_object_Inr:
  "optional_object (JsObject ms) k = Inr x \<longleftrightarrow>
     (case map_of ms k of None \<Rightarrow> x = None | Some JsNull \<Rightarrow> x = None
      | Some (JsObject os) \<Rightarrow> x = Some (JsObject os) | Some _ \<Rightarrow> False)"
  by (auto simp: optional_object_def split: option.split json.split)

lemma unit_bind_Inr: "sum_bind (r :: exn + unit) k = Inr y \<longleftrightarrow> r = Inr () \<and> k () = Inr y"
  by (simp add: sum_bind_Inr_iff)

lemma if_Inl_Inr: "(if b then Inl e else r) = Inr y \<longleftrightarrow> \<not> b \<and> r = Inr y"
  by simp

section \<open>Properties\<close>


text \<open>
  Exactly the valid update requests are accepted: an object with at least one of name,
  status and metadata, each under the same rules; absent and null members are left alone.
\<close>

theorem parse_update_exact:
  "parse_update_request lib body = Inr req \<longleftrightarrow>
     (\<exists>ms. body = JsObject ms
       \<and> \<not> (uq_name req = None \<and> uq_status req = None \<and> uq_metadata req = None)
       \<and> (case uq_name req of
            None \<Rightarrow> map_of ms ''name'' \<in> {None, Some JsNull}
          | Some s \<Rightarrow> map_of ms ''name'' = Some (JsString s) \<and> short_text 256 s)
       \<and> (case uq_status req of
            None \<Rightarrow> map_of ms ''status'' \<in> {None, Some JsNull}
          | Some s \<Rightarrow> map_of ms ''status'' = Some (JsString s) \<and> short_text 32 s)
       \<and> (case uq_metadata req of
            None \<Rightarrow> map_of ms ''metadata'' \<in> {None, Some JsNull}
          | Some m \<Rightarrow> map_of ms ''metadata'' = Some m \<and> is_js_object m
              \<and> (\<exists>s. json_dump lib m = Inr s \<and> length s \<le> 16384)))"
proof (cases "\<exists>ms. body = JsObject ms")
  case False
  then have "\<not> is_js_object body" by (cases body) auto
  with False show ?thesis by (auto simp: parse_update_request_def)
next
  case True
  then obtain ms where b: "body = JsObject ms" by blast
  have na: "optional_string (JsObject ms) ''name'' = Inr x \<and> validate_opt validate_name x = Inr () \<longleftrightarrow>
      (case x of None \<Rightarrow> map_of ms ''name'' \<in> {None, Some JsNull}
       | Some s \<Rightarrow> map_of ms ''name'' = Some (JsString s) \<and> short_text 256 s)" for x
    by (auto simp: optional_string_Inr validate_opt_Inr split: option.splits json.splits)
  have st: "optional_string (JsObject ms) ''status'' = Inr x \<and> validate_opt validate_status x = Inr () \<longleftrightarrow>
      (case x of None \<Rightarrow> map_of ms ''status'' \<in> {None, Some JsNull}
       | Some s \<Rightarrow> map_of ms ''status'' = Some (JsString s) \<and> short_text 32 s)" for x
    by (auto simp: optional_string_Inr validate_opt_Inr split: option.splits json.splits)
  have me: "optional_object (JsObject ms) ''metadata'' = Inr x \<and> validate_opt (validate_metadata lib) x = Inr () \<longleftrightarrow>
      (case x of None \<Rightarrow> map_of ms ''metadata'' \<in> {None, Some JsNull}
       | Some m \<Rightarrow> map_of ms ''metadata'' = Some m \<and> is_js_object m
              \<and> (\<exists>s. json_dump lib m = Inr s \<and> length s \<le> 16384))" for x
    by (auto simp: optional_object_Inr validate_opt_Inr split: option.splits json.splits)
  have "parse_update_request lib body = Inr req \<longleftrightarrow>
      \<not> (uq_name req = None \<and> uq_status req = None \<and> uq_metadata req = None)
      \<and> (optional_string body ''name'' = Inr (uq_name req) \<and> validate_opt validate_name (uq_name req) = Inr ())
      \<and> (optional_string body ''status'' = Inr (uq_status req) \<and> validate_opt validate_status (uq_status req) = Inr ())
      \<and> (optional_object body ''metadata'' = Inr (uq_metadata req)
          \<and> validate_opt (validate_metadata lib) (uq_metadata req) = Inr ())"
    unfolding parse_update_request_def
    by (cases req) (simp add: b sum_bind_Inr_iff unit_bind_Inr if_Inl_Inr, rule iffI, simp_all)
  then show ?thesis unfolding b na st me by auto
qed

end
