(* ===== verification/Cursor.thy ===== *)
theory Cursor
  imports Prelude
begin

text \<open>
  The opaque pagination cursor of \<open>src/resources/resource_repository.cpp\<close>: base64 over
  32-bit integers (\<open>base64_encode\<close>, \<open>base64_decode\<close>), \<open>encode_cursor\<close> and
  \<open>decode_cursor\<close>. The accumulator \<open>val\<close> is an \<open>int\<close> of 32 bits that the code shifts left
  for ever, so its high bits are lost; the lemmas show that only the low bits matter and
  that decoding inverts encoding on every byte string. The locale \<open>byte_codec\<close> is the
  interface by which the cursor uses base64.
\<close>

unbundle bit_operations_syntax

type_synonym i32 = "32 word"

section \<open>The loops of base64\<close>

definition kBase64Chars :: string where
  "kBase64Chars = ''ABCDEFGHIJKLMNOPQRSTUVWXYZ'' @ ''abcdefghijklmnopqrstuvwxyz'' @ ''0123456789+/''"

text \<open>\<open>static_cast<int>(to_uchar(c))\<close>.\<close>

definition to_uchar :: "char \<Rightarrow> i32" where
  "to_uchar c = word_of_nat (of_char c)"

text \<open>\<open>kBase64Chars[static_cast<std::size_t>((val >> bits) & 0x3F)]\<close>: \<open>>>\<close> on an \<open>int\<close> is arithmetic.\<close>

definition b64_char :: "i32 \<Rightarrow> char" where
  "b64_char v = kBase64Chars ! unat (v AND 0x3F)"

text \<open>The inner loop \<open>while (bits >= 0)\<close>.\<close>

function b64_emit :: "i32 \<Rightarrow> int \<Rightarrow> string \<Rightarrow> int \<times> string" where
  "b64_emit val bits out =
     (if 0 \<le> bits
      then b64_emit val (bits - 6) (out @ [b64_char (signed_drop_bit (nat bits) val)])
      else (bits, out))"
  by pat_completeness auto
termination
  by (relation "measure (\<lambda>(val, bits, out). nat (bits + 6))") auto

declare b64_emit.simps [simp del]

fun b64_enc_loop :: "string \<Rightarrow> i32 \<Rightarrow> int \<Rightarrow> string \<Rightarrow> i32 \<times> int \<times> string" where
  "b64_enc_loop [] val bits out = (val, bits, out)"
| "b64_enc_loop (c # cs) val bits out =
     (let val' = push_bit 8 val + to_uchar c;
          (bits', out') = b64_emit val' (bits + 8) out
      in b64_enc_loop cs val' bits' out')"

text \<open>\<open>while (out.size() % 4 != 0) out.push_back('=')\<close>.\<close>

function b64_pad :: "string \<Rightarrow> string" where
  "b64_pad out = (if length out mod 4 \<noteq> 0 then b64_pad (out @ ''='') else out)"
  by pat_completeness auto
termination
  by (relation "measure (\<lambda>out. (4 - length out mod 4) mod 4)") (auto simp: mod_Suc)

declare b64_pad.simps [simp del]

definition base64_encode :: "string \<Rightarrow> string" where
  "base64_encode s =
     (let (val, bits, out) = b64_enc_loop s 0 (- 6) [];
          out' = (if - 6 < bits
                  then out @ [b64_char (signed_drop_bit (nat (bits + 8)) (push_bit 8 val))]
                  else out)
      in b64_pad out')"

text \<open>
  \<open>table[c]\<close>: the index of \<open>c\<close> in the alphabet, \<open>None\<close> for the entries the loop leaves at -1.
\<close>

definition b64_table :: "char \<Rightarrow> i32 option" where
  "b64_table c = map_option word_of_nat (find_char c kBase64Chars)"

text \<open>\<open>static_cast<char>((val >> bits) & 0xFF)\<close>.\<close>

definition b64_byte :: "i32 \<Rightarrow> char" where
  "b64_byte v = char_of (unat (v AND 0xFF))"

fun b64_dec_loop :: "string \<Rightarrow> i32 \<Rightarrow> int \<Rightarrow> string \<Rightarrow> string" where
  "b64_dec_loop [] val bits out = out"
| "b64_dec_loop (c # cs) val bits out =
     (if c = CHR ''='' then b64_dec_loop cs val bits out
      else case b64_table c of
        None \<Rightarrow> b64_dec_loop cs val bits out
      | Some d \<Rightarrow>
          (let val' = push_bit 6 val + d; bits' = bits + 6
           in if 0 \<le> bits'
              then b64_dec_loop cs val' (bits' - 8)
                     (out @ [b64_byte (signed_drop_bit (nat bits') val')])
              else b64_dec_loop cs val' bits' out))"

definition base64_decode :: "string \<Rightarrow> string" where
  "base64_decode s = b64_dec_loop s 0 (- 8) []"

section \<open>Only the low bits of the accumulator matter\<close>

lemma shift_in:
  fixes v u :: i32
  assumes "take_bit k u = u"
  shows "push_bit k v + u = push_bit k v OR u"
proof -
  have "push_bit k v AND u = 0"
    by (subst assms [symmetric]) (auto intro!: bit_eqI simp: bit_simps)
  then show ?thesis by (simp add: disjunctive_add_eq_or)
qed

lemma bit_shift_in:
  fixes v u :: i32
  assumes "take_bit k u = u"
  shows "bit (push_bit k v + u) n \<longleftrightarrow> n < 32 \<and> (if n < k then bit u n else bit v (n - k))"
proof -
  have "bit u n \<longleftrightarrow> bit u n \<and> n < k"
    by (subst (1 2) assms [symmetric]) (auto simp: bit_simps)
  then show ?thesis
    unfolding shift_in [OF assms] using bit_imp_le_length [of u n] by (auto simp: bit_simps)
qed

lemma take_bit_to_uchar [simp]: "take_bit 8 (to_uchar c) = to_uchar c"
  by (simp add: to_uchar_def take_bit_of_nat take_bit_nat_eq_self)

lemma and_63: "v AND 0x3F = take_bit 6 (v :: i32)"
  by (simp add: take_bit_eq_mask mask_eq_exp_minus_1)

lemma and_255: "v AND 0xFF = take_bit 8 (v :: i32)"
  by (simp add: take_bit_eq_mask mask_eq_exp_minus_1)

text \<open>
  Three bytes shifted into any accumulator give four 6-bit digits, and four such digits
  shifted into any accumulator give the three bytes back; the same for the one and two
  bytes of an incomplete last group.
\<close>

definition digit1 :: "i32 \<Rightarrow> i32 \<Rightarrow> i32" where
  "digit1 v a = take_bit 6 (signed_drop_bit 2 (push_bit 8 v + a))"

definition digit2 :: "i32 \<Rightarrow> i32 \<Rightarrow> i32 \<Rightarrow> i32" where
  "digit2 v a b = take_bit 6 (signed_drop_bit 4 (push_bit 8 (push_bit 8 v + a) + b))"

definition digit3 :: "i32 \<Rightarrow> i32 \<Rightarrow> i32 \<Rightarrow> i32 \<Rightarrow> i32" where
  "digit3 v a b c =
     take_bit 6 (signed_drop_bit 6 (push_bit 8 (push_bit 8 (push_bit 8 v + a) + b) + c))"

definition digit4 :: "i32 \<Rightarrow> i32 \<Rightarrow> i32 \<Rightarrow> i32 \<Rightarrow> i32" where
  "digit4 v a b c =
     take_bit 6 (signed_drop_bit 0 (push_bit 8 (push_bit 8 (push_bit 8 v + a) + b) + c))"

lemmas digit_defs = digit1_def digit2_def digit3_def digit4_def

lemmas group_bits = bit_take_bit_iff bit_signed_drop_bit_iff bit_shift_in

lemma bits8_eqI:
  fixes x a :: i32
  assumes "take_bit 8 a = a" "\<And>n. n \<in> {0, 1, 2, 3, 4, 5, 6, 7} \<Longrightarrow> bit x n = bit a n"
  shows "take_bit 8 x = a"
proof (rule bit_eqI)
  fix n
  have "bit a n \<Longrightarrow> n < 8" by (metis assms(1) bit_take_bit_iff)
  moreover have "n < 8 \<Longrightarrow> bit x n = bit a n" by (rule assms(2)) auto
  ultimately show "bit (take_bit 8 x) n = bit a n" by (auto simp: bit_take_bit_iff)
qed

lemma group_byte1:
  assumes "take_bit 8 a = a" "take_bit 8 b = b"
  shows "take_bit 8 (signed_drop_bit 4 (push_bit 6 (push_bit 6 w + digit1 v a) + digit2 v a b)) = a"
  by (rule bits8_eqI [OF assms(1)]) (auto simp: assms digit_defs group_bits simp del: add_2_eq_Suc add_2_eq_Suc')

lemma group_byte2:
  assumes "take_bit 8 a = a" "take_bit 8 b = b" "take_bit 8 c = c"
  shows "take_bit 8 (signed_drop_bit 2 (push_bit 6 (push_bit 6 w + digit2 v a b) + digit3 v a b c)) = b"
  by (rule bits8_eqI [OF assms(2)]) (auto simp: assms digit_defs group_bits simp del: add_2_eq_Suc add_2_eq_Suc')

lemma group_byte3:
  assumes "take_bit 8 a = a" "take_bit 8 b = b" "take_bit 8 c = c"
  shows "take_bit 8 (signed_drop_bit 0 (push_bit 6 (push_bit 6 w + digit3 v a b c) + digit4 v a b c)) = c"
  by (rule bits8_eqI [OF assms(3)]) (auto simp: assms digit_defs group_bits simp del: add_2_eq_Suc add_2_eq_Suc')

section \<open>The alphabet\<close>

lemma b64_alphabet:
  "\<forall>i\<in>set [0..<64]. b64_table (kBase64Chars ! i) = Some (word_of_nat i) \<and> kBase64Chars ! i \<noteq> CHR ''=''"
  by code_simp

lemma b64_char_digit:
  "b64_table (b64_char v) = Some (take_bit 6 v)" "b64_char v \<noteq> CHR ''=''"
proof -
  have "unat (take_bit 6 v) < 64"
    using take_bit_nat_less_exp [of 6 "unat v"] by (simp add: unsigned_take_bit_eq)
  then have "unat (take_bit 6 v) \<in> set [0..<64]" by simp
  from bspec [OF b64_alphabet this] 
  show "b64_table (b64_char v) = Some (take_bit 6 v)" "b64_char v \<noteq> CHR ''=''"
    by (simp_all add: b64_char_def and_63)
qed

lemma b64_byte_char: "take_bit 8 v = to_uchar c \<Longrightarrow> b64_byte v = c"
proof -
  have "(of_char c :: nat) mod 4294967296 = of_char c"
    by (rule mod_less) (use nat_of_char_less_256 [of c] in linarith)
  then show "take_bit 8 v = to_uchar c \<Longrightarrow> b64_byte v = c"
    by (simp add: b64_byte_def and_255 to_uchar_def unat_of_nat)
qed

section \<open>Decoding inverts encoding\<close>

text \<open>The output of the encoder, three bytes at a time.\<close>

fun enc_groups :: "i32 \<Rightarrow> string \<Rightarrow> string" where
  "enc_groups v [] = []"
| "enc_groups v [x] = [b64_char (digit1 v (to_uchar x)), b64_char (digit2 v (to_uchar x) 0)]"
| "enc_groups v [x, y] =
     [b64_char (digit1 v (to_uchar x)), b64_char (digit2 v (to_uchar x) (to_uchar y)),
      b64_char (digit3 v (to_uchar x) (to_uchar y) 0)]"
| "enc_groups v (x # y # z # cs) =
     b64_char (digit1 v (to_uchar x)) # b64_char (digit2 v (to_uchar x) (to_uchar y))
     # b64_char (digit3 v (to_uchar x) (to_uchar y) (to_uchar z))
     # b64_char (digit4 v (to_uchar x) (to_uchar y) (to_uchar z))
     # enc_groups (push_bit 8 (push_bit 8 (push_bit 8 v + to_uchar x) + to_uchar y) + to_uchar z) cs"

lemma b64_char_take_bit: "b64_char (take_bit 6 v) = b64_char v"
  by (simp add: b64_char_def and_63)

lemmas b64_char_digits =
  b64_char_take_bit [of "signed_drop_bit 2 (push_bit 8 v + a)" for v a, folded digit1_def]
  b64_char_take_bit [of "signed_drop_bit 4 (push_bit 8 (push_bit 8 v + a) + b)" for v a b,
    folded digit2_def]
  b64_char_take_bit [of "signed_drop_bit 6 (push_bit 8 (push_bit 8 (push_bit 8 v + a) + b) + c)"
    for v a b c, folded digit3_def]
  b64_char_take_bit [of "signed_drop_bit 0 (push_bit 8 (push_bit 8 (push_bit 8 v + a) + b) + c)"
    for v a b c, folded digit4_def]

definition b64_finish :: "i32 \<times> int \<times> string \<Rightarrow> string" where
  "b64_finish r = (case r of (val, bits, out) \<Rightarrow>
     if - 6 < bits
     then out @ [b64_char (signed_drop_bit (nat (bits + 8)) (push_bit 8 val))] else out)"

lemma base64_encode_finish: "base64_encode s = b64_pad (b64_finish (b64_enc_loop s 0 (- 6) []))"
  by (simp add: base64_encode_def b64_finish_def Let_def split: prod.splits)

lemma b64_finish_loop: "b64_finish (b64_enc_loop s v (- 6) out) = out @ enc_groups v s"
proof (induction v s arbitrary: out rule: enc_groups.induct)
  case (1 v)
  then show ?case by (simp add: b64_finish_def)
next
  case (2 v x)
  then show ?case
    by (simp add: b64_finish_def Let_def b64_emit.simps b64_char_digits
        b64_char_digits(2) [of v "to_uchar x" 0, simplified])
next
  case (3 v x y)
  then show ?case
    by (simp add: b64_finish_def Let_def b64_emit.simps b64_char_digits
        b64_char_digits(3) [of v "to_uchar x" "to_uchar y" 0, simplified])
next
  case (4 v x y z cs)
  then show ?case by (simp add: Let_def b64_emit.simps b64_char_digits)
qed

lemma b64_pad_replicate: "\<exists>k. b64_pad out = out @ replicate k CHR ''=''"
proof (induction out rule: b64_pad.induct)
  case (1 out)
  show ?case
  proof (cases "length out mod 4 = 0")
    case True
    then show ?thesis by (subst b64_pad.simps) (auto intro: exI [of _ 0])
  next
    case False
    with 1 obtain k where "b64_pad (out @ ''='') = (out @ ''='') @ replicate k CHR ''=''" by auto
    with False have "b64_pad out = out @ replicate (Suc k) CHR ''=''"
      by (subst b64_pad.simps) simp
    then show ?thesis by blast
  qed
qed

lemma length_b64_pad: "length (b64_pad out) mod 4 = 0"
proof (induction out rule: b64_pad.induct)
  case (1 out)
  then show ?case by (subst b64_pad.simps) auto
qed

lemma take_bit_digits [simp]:
  "take_bit 6 (digit1 v a) = digit1 v a" "take_bit 6 (digit2 v a b) = digit2 v a b"
  "take_bit 6 (digit3 v a b c) = digit3 v a b c" "take_bit 6 (digit4 v a b c) = digit4 v a b c"
  by (simp_all add: digit_defs)

lemma b64_dec_pad: "b64_dec_loop (replicate k CHR ''='') w bits out = out"
  by (induction k) auto

lemma b64_dec_groups:
  "b64_dec_loop (enc_groups v s @ replicate k CHR ''='') w (- 8) out = out @ s"
proof (induction v s arbitrary: w out rule: enc_groups.induct)
  case (1 v)
  then show ?case by (simp add: b64_dec_pad)
next
  case (2 v x)
  then show ?case
    by (simp add: Let_def b64_char_digit b64_dec_pad b64_byte_char [OF group_byte1])
next
  case (3 v x y)
  then show ?case
    by (simp add: Let_def b64_char_digit b64_dec_pad b64_byte_char [OF group_byte1]
        b64_byte_char [OF group_byte2])
next
  case (4 v x y z cs)
  then show ?case
    by (simp add: Let_def b64_char_digit b64_dec_pad b64_byte_char [OF group_byte1]
        b64_byte_char [OF group_byte2]
        b64_byte_char [OF group_byte3, simplified signed_drop_bit_0])
qed

lemma base64_decode_encode: "base64_decode (base64_encode s) = s"
proof -
  obtain k where "b64_pad (enc_groups 0 s) = enc_groups 0 s @ replicate k CHR ''=''"
    using b64_pad_replicate by blast
  then show ?thesis
    by (simp add: base64_decode_def base64_encode_finish b64_finish_loop b64_dec_groups)
qed

lemma length_enc_groups: "length (enc_groups v s) = (4 * length s + 2) div 3"
  by (induction v s rule: enc_groups.induct) auto

lemma set_enc_groups: "set (enc_groups v s) \<subseteq> range b64_char"
  by (induction v s rule: enc_groups.induct) auto

lemma range_b64_char: "range b64_char \<subseteq> set kBase64Chars"
proof
  fix c assume "c \<in> range b64_char"
  then obtain v where c: "c = b64_char v" by blast
  have "find_char c kBase64Chars \<noteq> None"
    using b64_char_digit(1) [of v] by (auto simp: b64_table_def c)
  then show "c \<in> set kBase64Chars" by (simp add: find_char_None)
qed

lemma b64_pad_length: "length (b64_pad out) = 4 * ((length out + 3) div 4)"
proof -
  have grow: "length (b64_pad out) < length out + 4" for out
  proof (induction out rule: b64_pad.induct)
    case (1 out)
    show ?case
    proof (cases "length out mod 4 = 0")
      case True
      then show ?thesis by (subst b64_pad.simps) simp
    next
      case False
      then have eq: "b64_pad out = b64_pad (out @ ''='')" by (subst b64_pad.simps) simp
      have len: "\<exists>k. length (b64_pad out) = length out + k"
        using b64_pad_replicate [of out] by auto
      show ?thesis
      proof (cases "length (out @ ''='') mod 4 = 0")
        case True
        then have "b64_pad (out @ ''='') = out @ ''=''" by (subst b64_pad.simps) simp
        with eq show ?thesis by simp
      next
        case F2: False
        have "length (b64_pad out) < length out + 5" using 1 False eq by simp
        moreover have "length (b64_pad out) mod 4 = 0" by (rule length_b64_pad)
        ultimately show ?thesis using False len by presburger
      qed
    qed
  qed
  obtain k where "length (b64_pad out) = length out + k"
    using b64_pad_replicate [of out] by auto
  then show ?thesis using grow [of out] length_b64_pad [of out] by presburger
qed

section \<open>Cursors\<close>

record cursor_position =
  cp_updated_at :: string
  cp_id :: string

definition encode_cursor :: "string \<Rightarrow> string \<Rightarrow> string" where
  "encode_cursor updated_at rid = base64_encode (updated_at @ ''|'' @ rid)"

text \<open>The part of \<open>decode_cursor\<close> after the call of \<open>base64_decode\<close>.\<close>

definition split_position :: "string \<Rightarrow> exn + cursor_position" where
  "split_position decoded =
     (case find_char CHR ''|'' decoded of
        None \<Rightarrow> Inl (InvalidCursorError ''cursor is malformed'')
      | Some sep \<Rightarrow>
          if sep = 0 \<or> sep = length decoded - 1
          then Inl (InvalidCursorError ''cursor is malformed'')
          else Inr \<lparr>cp_updated_at = substr decoded 0 sep, cp_id = substr_from decoded (sep + 1)\<rparr>)"

definition decode_cursor :: "string \<Rightarrow> exn + cursor_position" where
  "decode_cursor cursor = split_position (base64_decode cursor)"

lemma split_position_join:
  assumes "u \<noteq> []" "CHR ''|'' \<notin> set u" "i \<noteq> []"
  shows "split_position (u @ ''|'' @ i) = Inr \<lparr>cp_updated_at = u, cp_id = i\<rparr>"
proof -
  have "find_char CHR ''|'' (u @ ''|'' @ i) = Some (length u)"
    using assms(2) find_char_append by simp
  with assms show ?thesis
    by (simp add: split_position_def substr_def substr_from_def)
qed

lemma split_position_Inr:
  assumes "split_position d = Inr p"
  shows "d = cp_updated_at p @ ''|'' @ cp_id p \<and> cp_updated_at p \<noteq> [] \<and> cp_id p \<noteq> []
    \<and> CHR ''|'' \<notin> set (cp_updated_at p)"
proof -
  obtain sep where f: "find_char CHR ''|'' d = Some sep" and ne: "sep \<noteq> 0" "sep \<noteq> length d - 1"
    and p: "p = \<lparr>cp_updated_at = take sep d, cp_id = drop (Suc sep) d\<rparr>"
    using assms by (auto simp: split_position_def substr_def substr_from_def
        split: option.splits if_splits)
  have d: "take sep d @ CHR ''|'' # drop (Suc sep) d = d" and nin: "CHR ''|'' \<notin> set (take sep d)"
    and lt: "sep < length d"
    using find_char_split [OF f] by simp_all
  have "take sep d \<noteq> []" using ne lt by auto
  moreover have "drop (Suc sep) d \<noteq> []" using ne lt by simp
  ultimately show ?thesis using d nin p by simp
qed

lemma split_position_Inl: "split_position d = Inl e \<Longrightarrow> e = InvalidCursorError ''cursor is malformed''"
  by (auto simp: split_position_def split: option.splits if_splits)

text \<open>
  What the cursor needs of the encoding of bytes: that decoding inverts encoding. The lemmas
  hold for every such encoding, base64 is the one the code uses.
\<close>

locale byte_codec =
  fixes enc :: "string \<Rightarrow> string" and dec :: "string \<Rightarrow> string"
  assumes dec_enc: "dec (enc s) = s"
begin

lemma enc_inject: "enc s = enc t \<longleftrightarrow> s = t"
  by (metis dec_enc)

lemma position_roundtrip:
  "u \<noteq> [] \<Longrightarrow> CHR ''|'' \<notin> set u \<Longrightarrow> i \<noteq> [] \<Longrightarrow>
   split_position (dec (enc (u @ ''|'' @ i))) = Inr \<lparr>cp_updated_at = u, cp_id = i\<rparr>"
  by (simp add: dec_enc split_position_join [simplified])

lemma position_rejects_empty:
  "u = [] \<or> i = [] \<and> CHR ''|'' \<notin> set u \<Longrightarrow>
   split_position (dec (enc (u @ ''|'' @ i))) = Inl (InvalidCursorError ''cursor is malformed'')"
  unfolding dec_enc
  by (cases "u = []") (auto simp: split_position_def find_char_append find_char_append [of _ "[]", simplified])

end

interpretation base64: byte_codec base64_encode base64_decode
  by unfold_locales (rule base64_decode_encode)

lemma decode_cursor_Inl: "decode_cursor c = Inl e \<Longrightarrow> e = InvalidCursorError ''cursor is malformed''"
  using split_position_Inl [of "base64_decode c" e] by (simp add: decode_cursor_def)

lemma decode_cursor_Nil: "\<exists>e. decode_cursor [] = Inl e"
  using split_position_Inr [of "[]"] by (cases "decode_cursor []") (auto simp: decode_cursor_def base64_decode_def)

section \<open>Properties\<close>

lemma groups_length: "4 * (((4 * n + 2) div 3 + 3) div 4) = 4 * ((n + 2) div 3)" for n :: nat
proof -
  obtain q r where n: "n = 3 * q + r" and r: "r = 0 \<or> r = 1 \<or> r = 2"
    using div_mult_mod_eq [of n 3] by (metis mult.commute mod_less_divisor less_Suc_eq
        numeral_3_eq_3 less_one zero_less_Suc One_nat_def numeral_2_eq_2)
  have "(4 * n + 2) div 3 = 4 * q + (4 * r + 2) div 3" by (simp add: n)
  with r show ?thesis by (auto simp: n)
qed

text \<open>
  C32. base64 round trip: decoding inverts encoding for every byte string, although the 32-bit
  accumulators overflow on strings longer than four bytes; the encoding has the length that
  base64 prescribes (four characters for each three bytes begun) and consists of characters
  of the alphabet and the padding character only.
\<close>

theorem base64_roundtrip:
  "base64_decode (base64_encode s) = s
   \<and> length (base64_encode s) = 4 * ((length s + 2) div 3)
   \<and> set (base64_encode s) \<subseteq> insert CHR ''='' (set kBase64Chars)"
proof -
  have enc: "base64_encode s = b64_pad (enc_groups 0 s)"
    by (simp add: base64_encode_finish b64_finish_loop)
  obtain k where pad: "b64_pad (enc_groups 0 s) = enc_groups 0 s @ replicate k CHR ''=''"
    using b64_pad_replicate by blast
  have "length (base64_encode s) = 4 * (((4 * length s + 2) div 3 + 3) div 4)"
    by (simp add: enc b64_pad_length length_enc_groups)
  then have "length (base64_encode s) = 4 * ((length s + 2) div 3)" by (simp only: groups_length)
  moreover have "set (base64_encode s) \<subseteq> insert CHR ''='' (set kBase64Chars)"
    using set_enc_groups [of 0 s] range_b64_char by (auto simp: enc pad)
  ultimately show ?thesis by (simp add: base64_decode_encode)
qed

text \<open>
  Cursor round trip: a cursor made from a timestamp without a bar and an id, neither
  empty, decodes to exactly that position, so the next page starts where the last one ended.
\<close>

theorem cursor_roundtrip:
  assumes "u \<noteq> []" "CHR ''|'' \<notin> set u" "i \<noteq> []"
  shows "decode_cursor (encode_cursor u i) = Inr \<lparr>cp_updated_at = u, cp_id = i\<rparr>"
  unfolding decode_cursor_def encode_cursor_def by (rule base64.position_roundtrip [OF assms])

theorem cursor_roundtrip_witness:
  "decode_cursor (encode_cursor ''2026-01-02T03:04:05.000006Z'' ''6f1e'')
   = Inr \<lparr>cp_updated_at = ''2026-01-02T03:04:05.000006Z'', cp_id = ''6f1e''\<rparr>"
  by (rule cursor_roundtrip) simp_all

text \<open>
  Decoding a cursor sent by a client has exactly two outcomes: \<open>InvalidCursorError\<close>, or a
  position with two parts, neither empty, that the decoded bytes hold on the two sides of
  their first bar. It accepts exactly the strings whose decoded bytes have that shape.
\<close>

theorem decode_cursor_outcomes:
  "case decode_cursor c of
     Inl e \<Rightarrow> e = InvalidCursorError ''cursor is malformed''
       \<and> (\<nexists>u i. base64_decode c = u @ ''|'' @ i \<and> u \<noteq> [] \<and> i \<noteq> [] \<and> CHR ''|'' \<notin> set u)
   | Inr p \<Rightarrow> base64_decode c = cp_updated_at p @ ''|'' @ cp_id p
       \<and> cp_updated_at p \<noteq> [] \<and> cp_id p \<noteq> [] \<and> CHR ''|'' \<notin> set (cp_updated_at p)"
proof (cases "decode_cursor c")
  case (Inl e)
  then show ?thesis
    using split_position_Inl [of "base64_decode c" e] split_position_join
    by (fastforce simp: decode_cursor_def)
next
  case (Inr p)
  then show ?thesis
    using split_position_Inr [of "base64_decode c" p] by (simp add: decode_cursor_def)
qed

end
