(* ===== verification/Repository.thy ===== *)
theory Repository
  imports Resource Cursor
begin

text \<open>
  The repository, \<open>include/corvus/resources/resource_repository.h\<close> and
  \<open>src/resources/resource_repository.cpp\<close>, on top of the pool and of libpqxx, which are the
  parameter \<open>pg_client\<close>: acquiring a connection, beginning a transaction, executing a statement
  with and without parameters, quoting, committing, and what the destructors of the transaction
  and of the pooled connection do. A row maps column names to values, NULL being \<open>None\<close>. The SQL
  text is built as the code builds it.
\<close>

type_synonym pg_row = "(string \<times> string option) list"

record ('c, 'w) pg_client =
  pg_acquire :: "'w \<Rightarrow> (exn + 'c) \<times> 'w"
  pg_begin :: "'c \<Rightarrow> 'w \<Rightarrow> (exn + unit) \<times> 'w"
  pg_exec_params :: "'c \<Rightarrow> string \<Rightarrow> string list \<Rightarrow> 'w \<Rightarrow> (exn + pg_row list) \<times> 'w"
  pg_exec :: "'c \<Rightarrow> string \<Rightarrow> 'w \<Rightarrow> (exn + pg_row list) \<times> 'w"
  pg_quote :: "'c \<Rightarrow> string \<Rightarrow> string"
  pg_commit :: "'c \<Rightarrow> 'w \<Rightarrow> (exn + unit) \<times> 'w"
  pg_end :: "'c \<Rightarrow> 'w \<Rightarrow> 'w"
  pg_release :: "'c \<Rightarrow> 'w \<Rightarrow> 'w"

text \<open>Sequencing of steps that thread the world and may throw.\<close>

definition then_do :: "(exn + 'a) \<times> 'w \<Rightarrow> ('a \<Rightarrow> 'w \<Rightarrow> (exn + 'b) \<times> 'w) \<Rightarrow> (exn + 'b) \<times> 'w" where
  "then_do m k = (case m of (Inl e, w) \<Rightarrow> (Inl e, w) | (Inr x, w) \<Rightarrow> k x w)"

text \<open>\<open>auto conn = pool_->acquire(); pqxx::work txn(conn.get()); ...\<close> with the two destructors.\<close>

definition in_transaction ::
  "('c, 'w) pg_client \<Rightarrow> ('c \<Rightarrow> 'w \<Rightarrow> (exn + 'a) \<times> 'w) \<Rightarrow> 'w \<Rightarrow> (exn + 'a) \<times> 'w" where
  "in_transaction pg body w =
     then_do (pg_acquire pg w) (\<lambda>c w.
       case pg_begin pg c w of
         (Inl e, w) \<Rightarrow> (Inl e, pg_release pg c w)
       | (Inr _, w) \<Rightarrow> (case body c w of (r, w) \<Rightarrow> (r, pg_release pg c (pg_end pg c w))))"

section \<open>SQL text and rows\<close>

definition timestamp_select :: "string \<Rightarrow> string" where \<open>
  timestamp_select column = ''to_char('' @ column
     @ '' AT TIME ZONE 'UTC', 'YYYY-MM-DD"T"HH24:MI:SS.US"Z"'' @ [CHR 0x27] @ '')''\<close>

definition select_columns :: string where
  "select_columns = ''id, client_id, kind, name, status, metadata::text, ''
     @ timestamp_select ''created_at'' @ '' AS created_at, ''
     @ timestamp_select ''updated_at'' @ '' AS updated_at''"

definition column :: "pg_row \<Rightarrow> string \<Rightarrow> exn + string" where
  "column row name = (case map_of row name of
      Some (Some v) \<Rightarrow> Inr v
    | Some None \<Rightarrow> Inl (StdError ''Attempt to convert null to string.'')
    | None \<Rightarrow> Inl (InvalidArgument ''Unknown column name''))"

definition row_to_resource :: "json_lib \<Rightarrow> pg_row \<Rightarrow> exn + resource" where
  "row_to_resource lib row =
     sum_bind (column row ''id'') (\<lambda>i.
     sum_bind (column row ''client_id'') (\<lambda>c.
     sum_bind (column row ''kind'') (\<lambda>k.
     sum_bind (column row ''name'') (\<lambda>n.
     sum_bind (column row ''status'') (\<lambda>s.
     sum_bind (column row ''metadata'') (\<lambda>mt.
     sum_bind (json_parse lib mt) (\<lambda>m.
     sum_bind (column row ''created_at'') (\<lambda>ca.
     sum_bind (column row ''updated_at'') (\<lambda>ua.
       Inr \<lparr>rs_id = i, rs_client_id = c, rs_kind = k, rs_name = n, rs_state = s,
            rs_metadata = m, rs_created_at = ca, rs_updated_at = ua\<rparr>)))))))))"

fun rows_to_resources :: "json_lib \<Rightarrow> pg_row list \<Rightarrow> exn + resource list" where
  "rows_to_resources lib [] = Inr []"
| "rows_to_resources lib (r # rs) =
     sum_bind (row_to_resource lib r) (\<lambda>x. sum_bind (rows_to_resources lib rs) (\<lambda>xs. Inr (x # xs)))"

text \<open>\<open>result[0]\<close>; the statements that use it return a row.\<close>

definition first_row :: "pg_row list \<Rightarrow> pg_row" where
  "first_row rows = (case rows of r # _ \<Rightarrow> r | [] \<Rightarrow> [])"

section \<open>Operations\<close>

record list_filter =
  lf_kind :: "string option"
  lf_status :: "string option"
  lf_limit :: int
  lf_cursor :: "string option"

definition default_list_filter :: list_filter where
  "default_list_filter = \<lparr>lf_kind = None, lf_status = None, lf_limit = 50, lf_cursor = None\<rparr>"

record list_result =
  lr_items :: "resource list"
  lr_next_cursor :: "string option"
  lr_has_more :: bool

definition create_sql :: string where
  "create_sql = ''INSERT INTO resources (client_id, kind, name, status, metadata) ''
     @ ''VALUES ($1, $2, $3, $4, $5::jsonb) '' @ ''RETURNING '' @ select_columns"

definition repo_create ::
  "('c, 'w) pg_client \<Rightarrow> json_lib \<Rightarrow> string \<Rightarrow> create_request \<Rightarrow> 'w \<Rightarrow> (exn + resource) \<times> 'w" where
  "repo_create pg lib client_id req =
     in_transaction pg (\<lambda>c w.
       let status_val = (case cq_status req of Some s \<Rightarrow> s | None \<Rightarrow> ''unknown'')
       in case json_dump lib (case cq_metadata req of Some m \<Rightarrow> m | None \<Rightarrow> JsObject []) of
            Inl e \<Rightarrow> (Inl e, w)
          | Inr metadata_val \<Rightarrow>
              then_do (pg_exec_params pg c create_sql
                         [client_id, cq_kind req, cq_name req, status_val, metadata_val] w) (\<lambda>rows w.
              then_do (pg_commit pg c w) (\<lambda>_ w. (row_to_resource lib (first_row rows), w))))"

definition find_sql :: string where
  "find_sql = ''SELECT '' @ select_columns @ '' FROM resources WHERE client_id = $1 AND id = $2''"

definition optional_row :: "json_lib \<Rightarrow> pg_row list \<Rightarrow> exn + resource option" where
  "optional_row lib rows =
     (if rows = [] then Inr None
      else sum_bind (row_to_resource lib (first_row rows)) (\<lambda>r. Inr (Some r)))"

definition repo_find_by_id ::
  "('c, 'w) pg_client \<Rightarrow> json_lib \<Rightarrow> string \<Rightarrow> string \<Rightarrow> 'w \<Rightarrow> (exn + resource option) \<times> 'w" where
  "repo_find_by_id pg lib client_id rid =
     in_transaction pg (\<lambda>c w.
       then_do (pg_exec_params pg c find_sql [client_id, rid] w) (\<lambda>rows w.
       then_do (pg_commit pg c w) (\<lambda>_ w. (optional_row lib rows, w))))"

definition page_size :: "list_filter \<Rightarrow> int" where
  "page_size f = clamp (lf_limit f) 1 200"

definition sql_eq :: "(string \<Rightarrow> string) \<Rightarrow> string \<Rightarrow> string option \<Rightarrow> string" where
  "sql_eq quote col v = (case v of Some s \<Rightarrow> '' AND '' @ col @ '' = '' @ quote s | None \<Rightarrow> [])"

definition position_sql :: "(string \<Rightarrow> string) \<Rightarrow> cursor_position \<Rightarrow> string" where
  "position_sql quote pos = '' AND (updated_at, id) < ('' @ quote (cp_updated_at pos) @ ''::timestamptz, ''
     @ quote (cp_id pos) @ ''::uuid)''"

definition cursor_sql :: "(string \<Rightarrow> string) \<Rightarrow> string option \<Rightarrow> exn + string" where
  "cursor_sql quote cursor =
     (if cursor = None \<or> cursor = Some [] then Inr []
      else sum_bind (decode_cursor (the cursor)) (\<lambda>pos.
        Inr (position_sql quote pos)))"

definition list_sql :: "(string \<Rightarrow> string) \<Rightarrow> string \<Rightarrow> list_filter \<Rightarrow> exn + string" where
  "list_sql quote client_id f =
     sum_bind (cursor_sql quote (lf_cursor f)) (\<lambda>cur.
       Inr (''SELECT '' @ select_columns @ '' FROM resources '' @ ''WHERE client_id = '' @ quote client_id
            @ sql_eq quote ''kind'' (lf_kind f) @ sql_eq quote ''status'' (lf_status f) @ cur
            @ '' ORDER BY updated_at DESC, id DESC LIMIT '' @ dec_int (page_size f + 1)))"

definition page_of :: "json_lib \<Rightarrow> int \<Rightarrow> pg_row list \<Rightarrow> exn + list_result" where
  "page_of lib psize rows =
     (let has_more = psize < int (length rows);
          count = (if has_more then nat psize else length rows)
      in sum_bind (rows_to_resources lib (take count rows)) (\<lambda>items.
           Inr \<lparr>lr_items = items,
                lr_next_cursor = (if has_more \<and> items \<noteq> []
                  then Some (encode_cursor (rs_updated_at (last items)) (rs_id (last items))) else None),
                lr_has_more = has_more\<rparr>))"

definition repo_list ::
  "('c, 'w) pg_client \<Rightarrow> json_lib \<Rightarrow> string \<Rightarrow> list_filter \<Rightarrow> 'w \<Rightarrow> (exn + list_result) \<times> 'w" where
  "repo_list pg lib client_id f =
     in_transaction pg (\<lambda>c w.
       case list_sql (pg_quote pg c) client_id f of
         Inl e \<Rightarrow> (Inl e, w)
       | Inr sql \<Rightarrow>
           then_do (pg_exec pg c sql w) (\<lambda>rows w.
           then_do (pg_commit pg c w) (\<lambda>_ w. (page_of lib (page_size f) rows, w))))"

text \<open>\<open>add_set\<close>: the assignments written so far are separated by commas.\<close>

definition add_assignment :: "string \<Rightarrow> string \<Rightarrow> string" where
  "add_assignment sets a = (if sets = [] then a else sets @ '', '' @ a)"

definition update_sql ::
  "json_lib \<Rightarrow> (string \<Rightarrow> string) \<Rightarrow> string \<Rightarrow> string \<Rightarrow> update_request \<Rightarrow> exn + string" where
  "update_sql lib quote client_id rid req =
     (let s0 = [];
          s1 = (case uq_name req of Some n \<Rightarrow> add_assignment s0 (''name = '' @ quote n) | None \<Rightarrow> s0);
          s2 = (case uq_status req of Some s \<Rightarrow> add_assignment s1 (''status = '' @ quote s) | None \<Rightarrow> s1)
      in sum_bind (case uq_metadata req of
             Some m \<Rightarrow> sum_bind (json_dump lib m) (\<lambda>d.
               Inr (add_assignment s2 (''metadata = '' @ quote d @ ''::jsonb'')))
           | None \<Rightarrow> Inr s2) (\<lambda>sets.
         Inr (''UPDATE resources SET '' @ sets @ '' WHERE client_id = '' @ quote client_id
              @ '' AND id = '' @ quote rid @ '' RETURNING '' @ select_columns)))"

definition repo_update ::
  "('c, 'w) pg_client \<Rightarrow> json_lib \<Rightarrow> string \<Rightarrow> string \<Rightarrow> update_request \<Rightarrow> 'w
     \<Rightarrow> (exn + resource option) \<times> 'w" where
  "repo_update pg lib client_id rid req =
     in_transaction pg (\<lambda>c w.
       case update_sql lib (pg_quote pg c) client_id rid req of
         Inl e \<Rightarrow> (Inl e, w)
       | Inr sql \<Rightarrow>
           then_do (pg_exec pg c sql w) (\<lambda>rows w.
           then_do (pg_commit pg c w) (\<lambda>_ w. (optional_row lib rows, w))))"

definition remove_sql :: string where
  "remove_sql = ''DELETE FROM resources WHERE client_id = $1 AND id = $2 '' @ ''RETURNING id''"

definition repo_remove ::
  "('c, 'w) pg_client \<Rightarrow> string \<Rightarrow> string \<Rightarrow> 'w \<Rightarrow> (exn + bool) \<times> 'w" where
  "repo_remove pg client_id rid =
     in_transaction pg (\<lambda>c w.
       then_do (pg_exec_params pg c remove_sql [client_id, rid] w) (\<lambda>rows w.
       then_do (pg_commit pg c w) (\<lambda>_ w. (Inr (rows \<noteq> []), w))))"

section \<open>Lemmas\<close>

lemma position_sql_not_Nil [simp]: "position_sql q p \<noteq> []"
  by (simp add: position_sql_def)

lemma then_do_simps [simp]: "then_do (Inl e, w) k = (Inl e, w)" "then_do (Inr x, w) k = k x w"
  by (simp_all add: then_do_def)

lemma rows_to_resources_map:
  "(\<And>x. x \<in> set xs \<Longrightarrow> row_to_resource lib (row x) = Inr x) \<Longrightarrow> rows_to_resources lib (map row xs) = Inr xs"
  by (induction xs) auto

lemma page_size_range: "1 \<le> page_size f \<and> page_size f \<le> 200"
  using clamp_bounds [of 1 200 "lf_limit f"] by (simp add: page_size_def)

lemma list_sql_cursor_Inr:
  "lf_cursor f = Some cur \<Longrightarrow> cur \<noteq> [] \<Longrightarrow> decode_cursor cur = Inr pos \<Longrightarrow> \<exists>sql. list_sql q cid f = Inr sql"
  by (simp add: list_sql_def cursor_sql_def)

lemma list_sql_None: "lf_cursor f = None \<Longrightarrow> \<exists>sql. list_sql q cid f = Inr sql"
  by (simp add: list_sql_def cursor_sql_def)

lemma encode_cursor_not_Nil [simp]: "encode_cursor u i \<noteq> []"
proof
  assume "encode_cursor u i = []"
  then have "base64_encode (u @ ''|'' @ i) = base64_encode []"
    by (simp add: encode_cursor_def) (code_simp)
  then show False by (simp add: base64.enc_inject)
qed

text \<open>What a page is when the rows that come back are those of a list of resources.\<close>

lemma page_of_rows:
  assumes "\<And>x. x \<in> set xs \<Longrightarrow> row_to_resource lib (row x) = Inr x" "1 \<le> psize"
  shows "page_of lib psize (map row xs) = Inr
    \<lparr>lr_items = take (nat psize) xs,
     lr_next_cursor = (if nat psize < length xs
       then Some (encode_cursor (rs_updated_at (xs ! (nat psize - 1))) (rs_id (xs ! (nat psize - 1)))) else None),
     lr_has_more = nat psize < length xs\<rparr>"
proof -
  have more: "psize < int (length xs) \<longleftrightarrow> nat psize < length xs" using assms(2) by linarith
  have conv: "rows_to_resources lib (take n (map row xs)) = Inr (take n xs)" for n
    using rows_to_resources_map [of "take n xs" lib row] assms(1) by (metis in_set_takeD take_map)
  show ?thesis
  proof (cases "nat psize < length xs")
    case True
    then have ne: "take (nat psize) xs \<noteq> []" using assms(2) by auto
    moreover have "last (take (nat psize) xs) = xs ! (nat psize - 1)"
      using last_conv_nth [OF ne] True assms(2) by simp
    ultimately show ?thesis using True by (simp add: page_of_def conv more Let_def)
  next
    case False
    then show ?thesis by (simp add: page_of_def conv more)
  qed
qed

section \<open>Pagination\<close>

text \<open>
  A table as the list of a client's matching rows in the statement's order, \<open>after\<close> the rows that
  a cursor leaves, and what it means that the database answers the list statements from it.
\<close>

definition after ::
  "(string \<times> string \<Rightarrow> string \<times> string \<Rightarrow> bool) \<Rightarrow> string option \<Rightarrow> resource list \<Rightarrow> resource list" where
  "after lt cursor rows = (case cursor of
      None \<Rightarrow> rows
    | Some s \<Rightarrow> (case decode_cursor s of
        Inl _ \<Rightarrow> rows
      | Inr pos \<Rightarrow> filter (\<lambda>r. lt (rs_updated_at r, rs_id r) (cp_updated_at pos, cp_id pos)) rows))"

definition serves_table ::
  "('c, 'w) pg_client \<Rightarrow> (resource \<Rightarrow> pg_row) \<Rightarrow> (string \<times> string \<Rightarrow> string \<times> string \<Rightarrow> bool)
     \<Rightarrow> string \<Rightarrow> list_filter \<Rightarrow> resource list \<Rightarrow> bool" where
  "serves_table pg row lt client_id f rows \<longleftrightarrow>
     (\<forall>w. \<exists>c w'. pg_acquire pg w = (Inr c, w')) \<and> (\<forall>c w. \<exists>w'. pg_begin pg c w = (Inr (), w'))
   \<and> (\<forall>c w. \<exists>w'. pg_commit pg c w = (Inr (), w'))
   \<and> (\<forall>c w cur sql. list_sql (pg_quote pg c) client_id (f\<lparr>lf_cursor := cur\<rparr>) = Inr sql \<longrightarrow>
        (\<exists>w'. pg_exec pg c sql w = (Inr (map row (take (nat (page_size f + 1)) (after lt cur rows))), w')))"

text \<open>A client that asks for page after page until there is no next cursor.\<close>

fun follow_pages ::
  "('c, 'w) pg_client \<Rightarrow> json_lib \<Rightarrow> string \<Rightarrow> list_filter \<Rightarrow> nat \<Rightarrow> 'w \<Rightarrow> resource list option" where
  "follow_pages pg lib client_id f 0 w = None"
| "follow_pages pg lib client_id f (Suc n) w = (case repo_list pg lib client_id f w of
      (Inl e, w) \<Rightarrow> None
    | (Inr page, w) \<Rightarrow> (case lr_next_cursor page of
        None \<Rightarrow> Some (lr_items page)
      | Some cur \<Rightarrow> map_option ((@) (lr_items page))
          (follow_pages pg lib client_id (f\<lparr>lf_cursor := Some cur\<rparr>) n w)))"

definition row_key :: "resource \<Rightarrow> string \<times> string" where
  "row_key r = (rs_updated_at r, rs_id r)"

definition table_ok ::
  "json_lib \<Rightarrow> (resource \<Rightarrow> pg_row) \<Rightarrow> (string \<times> string \<Rightarrow> string \<times> string \<Rightarrow> bool) \<Rightarrow> resource list \<Rightarrow> bool" where
  "table_ok lib row lt rows \<longleftrightarrow>
     sorted_wrt (\<lambda>a b. lt (row_key b) (row_key a)) rows \<and> (\<forall>x y. lt x y \<longrightarrow> \<not> lt y x)
     \<and> (\<forall>r\<in>set rows. row_to_resource lib (row r) = Inr r
          \<and> rs_updated_at r \<noteq> [] \<and> CHR ''|'' \<notin> set (rs_updated_at r) \<and> rs_id r \<noteq> [])"

lemma filter_after:
  assumes s: "sorted_wrt (\<lambda>a b. lt (key b) (key a)) xs" and asym: "\<And>x y. lt x y \<Longrightarrow> \<not> lt y x"
    and i: "i < length xs"
  shows "filter (\<lambda>r. lt (key r) (key (xs ! i))) xs = drop (Suc i) xs"
proof -
  have lo: "\<not> lt (key r) (key (xs ! i))" if r: "r \<in> set (take (Suc i) xs)" for r
  proof -
    obtain j where j: "j < Suc i" "j < length xs" "r = xs ! j"
      using r by (auto simp: in_set_conv_nth)
    show ?thesis
    proof (cases "j = i")
      case True
      then show ?thesis using j asym by blast
    next
      case False
      then have "lt (key (xs ! i)) (key (xs ! j))"
        using sorted_wrt_nth_less [OF s, of j i] i j by simp
      then show ?thesis using j asym by blast
    qed
  qed
  have hi: "lt (key r) (key (xs ! i))" if r: "r \<in> set (drop (Suc i) xs)" for r
  proof -
    obtain j where "j < length (drop (Suc i) xs)" "drop (Suc i) xs ! j = r"
      using r unfolding in_set_conv_nth by blast
    then have "Suc i + j < length xs" "r = xs ! (Suc i + j)" by auto
    then show ?thesis using sorted_wrt_nth_less [OF s, of i "Suc i + j"] by simp
  qed
  have "filter (\<lambda>r. lt (key r) (key (xs ! i))) (take (Suc i) xs @ drop (Suc i) xs) = drop (Suc i) xs"
    using lo hi by (simp only: filter_append) (simp add: filter_empty_conv filter_id_conv)
  then show ?thesis by simp
qed

lemma serves_repo_list:
  assumes "serves_table pg row lt client_id f rows"
    and sql: "\<And>c. \<exists>sql. list_sql (pg_quote pg c) client_id (f\<lparr>lf_cursor := cur\<rparr>) = Inr sql"
  shows "\<exists>w'. repo_list pg lib client_id (f\<lparr>lf_cursor := cur\<rparr>) w
    = (page_of lib (page_size f) (map row (take (nat (page_size f + 1)) (after lt cur rows))), w')"
proof -
  obtain c w1 where a: "pg_acquire pg w = (Inr c, w1)" using assms(1) unfolding serves_table_def by blast
  obtain w2 where b: "pg_begin pg c w1 = (Inr (), w2)" using assms(1) unfolding serves_table_def by blast
  obtain s where s: "list_sql (pg_quote pg c) client_id (f\<lparr>lf_cursor := cur\<rparr>) = Inr s" using sql by blast
  obtain w3 where e: "pg_exec pg c s w2
      = (Inr (map row (take (nat (page_size f + 1)) (after lt cur rows))), w3)"
    using assms(1) s unfolding serves_table_def by blast
  obtain w4 where t: "pg_commit pg c w3 = (Inr (), w4)" using assms(1) unfolding serves_table_def by blast
  have "page_size (f\<lparr>lf_cursor := cur\<rparr>) = page_size f" by (simp add: page_size_def)
  then show ?thesis by (simp add: repo_list_def in_transaction_def a b s e t)
qed

text \<open>The cursor of the last row of a page selects the rows behind the page.\<close>

lemma after_page:
  assumes ok: "table_ok lib row lt rows" and n: "0 < n" "k + n < length rows"
  defines "r \<equiv> rows ! (k + n - 1)"
  defines "cur \<equiv> encode_cursor (rs_updated_at r) (rs_id r)"
  shows "after lt (Some cur) rows = drop (k + n) rows"
    and "\<exists>sql. list_sql quote client_id (f\<lparr>lf_cursor := Some cur\<rparr>) = Inr sql"
proof -
  have "r \<in> set rows" unfolding r_def using n by (intro nth_mem) linarith
  then have dec: "decode_cursor cur = Inr \<lparr>cp_updated_at = rs_updated_at r, cp_id = rs_id r\<rparr>"
    unfolding cur_def decode_cursor_def encode_cursor_def
    using ok unfolding table_ok_def by (intro base64.position_roundtrip) auto
  have "after lt (Some cur) rows = filter (\<lambda>x. lt (row_key x) (row_key r)) rows"
    by (simp only: after_def dec row_key_def option.case sum.case cursor_position.simps)
  also have "\<dots> = drop (Suc (k + n - 1)) rows"
    unfolding r_def using ok n unfolding table_ok_def by (intro filter_after) auto
  finally show "after lt (Some cur) rows = drop (k + n) rows" using n by simp
  show "\<exists>sql. list_sql quote client_id (f\<lparr>lf_cursor := Some cur\<rparr>) = Inr sql"
    by (rule list_sql_cursor_Inr [OF _ _ dec]) (simp_all add: cur_def)
qed

lemma follow_pages_from:
  assumes serves: "serves_table pg row lt client_id f rows" and ok: "table_ok lib row lt rows"
  shows "after lt cur rows = drop k rows \<Longrightarrow> k \<le> length rows \<Longrightarrow>
    (\<And>c. \<exists>sql. list_sql (pg_quote pg c) client_id (f\<lparr>lf_cursor := cur\<rparr>) = Inr sql) \<Longrightarrow>
    length rows - k < n \<Longrightarrow> follow_pages pg lib client_id (f\<lparr>lf_cursor := cur\<rparr>) n w = Some (drop k rows)"
proof (induction n arbitrary: cur k w)
  case (Suc n)
  let ?ps = "nat (page_size f)"
  let ?xs = "take (nat (page_size f + 1)) (drop k rows)"
  have ps: "1 \<le> page_size f" using page_size_range by blast
  have row: "x \<in> set ?xs \<Longrightarrow> row_to_resource lib (row x) = Inr x" for x
    using ok unfolding table_ok_def by (meson in_set_dropD in_set_takeD)
  have len: "?ps < length ?xs \<longleftrightarrow> k + ?ps < length rows" using ps by auto
  have items: "take ?ps ?xs = take ?ps (drop k rows)" using ps by (simp add: min_def)
  obtain w' where l: "repo_list pg lib client_id (f\<lparr>lf_cursor := cur\<rparr>) w
      = (page_of lib (page_size f) (map row ?xs), w')"
    using serves_repo_list [OF serves Suc.prems(3)] Suc.prems(1) by metis
  note page = page_of_rows [of ?xs lib row, OF row ps]
  show ?case
  proof (cases "k + ?ps < length rows")
    case False
    then have "\<not> ?ps < length ?xs" using len by simp
    then have "follow_pages pg lib client_id (f\<lparr>lf_cursor := cur\<rparr>) (Suc n) w = Some (take ?ps ?xs)"
      by (simp only: follow_pages.simps l page prod.case sum.case if_False list_result.simps option.case)
    also have "take ?ps ?xs = drop k rows" using False items by simp
    finally show ?thesis .
  next
    case True
    let ?r = "rows ! (k + ?ps - 1)"
    let ?cur = "encode_cursor (rs_updated_at ?r) (rs_id ?r)"
    have r: "?xs ! (?ps - 1) = ?r" using True ps by (simp add: add.commute)
    note next_page = after_page [OF ok, of ?ps k]
    have "follow_pages pg lib client_id (f\<lparr>lf_cursor := Some ?cur\<rparr>) n w' = Some (drop (k + ?ps) rows)"
      using True ps Suc.prems(2,4) by (intro Suc.IH next_page) linarith+
    moreover have "?ps < length ?xs" using True len by simp
    moreover have "f\<lparr>lf_cursor := cur\<rparr>\<lparr>lf_cursor := Some ?cur\<rparr> = f\<lparr>lf_cursor := Some ?cur\<rparr>" by simp
    ultimately have "follow_pages pg lib client_id (f\<lparr>lf_cursor := cur\<rparr>) (Suc n) w
        = Some (take ?ps ?xs @ drop (k + ?ps) rows)"
      by (simp only: follow_pages.simps l page r prod.case sum.case list_result.simps if_True
          option.case option.map)
    also have "take ?ps ?xs @ drop (k + ?ps) rows = drop k rows"
      unfolding items using append_take_drop_id [of ?ps "drop k rows"] by (simp add: add.commute)
    finally show ?thesis .
  qed
qed simp

section \<open>Properties\<close>


text \<open>A database of one row for the witness.\<close>

definition demo_resource :: resource where
  "demo_resource = \<lparr>rs_id = ''1'', rs_client_id = ''c'', rs_kind = ''vm'', rs_name = ''n'', rs_state = ''up'',
     rs_metadata = JsObject [], rs_created_at = ''2026'', rs_updated_at = ''2026''\<rparr>"

definition demo_row :: "resource \<Rightarrow> pg_row" where
  "demo_row r = [(''id'', Some (rs_id r)), (''client_id'', Some (rs_client_id r)),
     (''kind'', Some (rs_kind r)), (''name'', Some (rs_name r)), (''status'', Some (rs_state r)),
     (''metadata'', Some ''{}''), (''created_at'', Some (rs_created_at r)),
     (''updated_at'', Some (rs_updated_at r))]"

definition demo_json :: json_lib where
  "demo_json = \<lparr>json_parse = (\<lambda>_. Inr (JsObject [])), json_dump = (\<lambda>_. Inr ''{}'')\<rparr>"

definition demo_pg :: "(unit, unit) pg_client" where
  "demo_pg = \<lparr>pg_acquire = (\<lambda>w. (Inr (), w)), pg_begin = (\<lambda>_ w. (Inr (), w)),
     pg_exec_params = (\<lambda>_ _ _ w. (Inr [], w)),
     pg_exec = (\<lambda>_ sql w. (Inr (if list_sql id ''c'' default_list_filter = Inr sql
                                then [demo_row demo_resource] else []), w)),
     pg_quote = (\<lambda>_. id), pg_commit = (\<lambda>_ w. (Inr (), w)), pg_end = (\<lambda>_ w. w), pg_release = (\<lambda>_ w. w)\<rparr>"

lemma demo_serves:
  "serves_table demo_pg demo_row (\<lambda>_ _. False) ''c'' default_list_filter [demo_resource]"
proof -
  let ?f = "\<lambda>cur. default_list_filter\<lparr>lf_cursor := cur\<rparr>"
  have "\<exists>w'. pg_exec demo_pg c sql w = (Inr (map demo_row
      (take (nat (page_size default_list_filter + 1)) (after (\<lambda>_ _. False) cur [demo_resource]))), w')"
    if s: "list_sql (pg_quote demo_pg c) ''c'' (?f cur) = Inr sql" for c w cur sql
  proof -
    have f0: "?f None = default_list_filter" by (simp add: default_list_filter_def)
    have ps: "nat (page_size default_list_filter + 1) = 51"
      by (simp add: page_size_def default_list_filter_def clamp_def)
    obtain c0 where c0: "cursor_sql id cur = Inr c0"
      using s by (auto simp: list_sql_def demo_pg_def sum_bind_Inr_iff)
    have "list_sql id ''c'' default_list_filter = Inr sql \<longleftrightarrow> c0 = []"
      using s c0 by (auto simp: list_sql_def demo_pg_def cursor_sql_def default_list_filter_def page_size_def)
    moreover have "after (\<lambda>_ _. False) cur [demo_resource] = (if c0 = [] then [demo_resource] else [])"
    proof (cases "cur = None \<or> cur = Some []")
      case True
      moreover have "\<exists>e. decode_cursor [] = Inl e"
        by (rule decode_cursor_Nil)
      ultimately show ?thesis using c0 by (auto simp: after_def cursor_sql_def)
    next
      case False
      then obtain pos where "decode_cursor (the cur) = Inr pos" "c0 \<noteq> []"
        using c0 by (auto simp: cursor_sql_def sum_bind_Inr_iff)
      then show ?thesis using False by (auto simp: after_def)
    qed
    ultimately show ?thesis by (simp add: demo_pg_def ps)
  qed
  then show ?thesis unfolding serves_table_def by (simp add: demo_pg_def)
qed

lemma demo_table_ok: "table_ok demo_json demo_row (\<lambda>_ _. False) [demo_resource]"
  by (simp add: table_ok_def row_to_resource_def column_def demo_json_def demo_row_def demo_resource_def)


text \<open>The texts of the two statements that are built from values.\<close>

lemma list_sql_shape:
  assumes "list_sql q client_id f = Inr sql"
  shows "\<exists>pos. sql = ''SELECT '' @ select_columns @ '' FROM resources WHERE client_id = '' @ q client_id
          @ sql_eq q ''kind'' (lf_kind f) @ sql_eq q ''status'' (lf_status f)
          @ (case pos of None \<Rightarrow> [] | Some p \<Rightarrow> position_sql q p)
          @ '' ORDER BY updated_at DESC, id DESC LIMIT '' @ dec_int (page_size f + 1)"
proof -
  from assms obtain cur where c: "cursor_sql q (lf_cursor f) = Inr cur"
    and sql: "sql = ''SELECT '' @ select_columns @ '' FROM resources '' @ ''WHERE client_id = '' @ q client_id
            @ sql_eq q ''kind'' (lf_kind f) @ sql_eq q ''status'' (lf_status f) @ cur
            @ '' ORDER BY updated_at DESC, id DESC LIMIT '' @ dec_int (page_size f + 1)"
    by (auto simp: list_sql_def sum_bind_Inr_iff)
  have "\<exists>pos. cur = (case pos of None \<Rightarrow> [] | Some p \<Rightarrow> position_sql q p)"
  proof (cases "lf_cursor f = None \<or> lf_cursor f = Some []")
    case True
    then have "cur = []" using c by (auto simp: cursor_sql_def)
    then show ?thesis by (intro exI [of _ None]) simp
  next
    case False
    then obtain p where "cur = position_sql q p"
      using c by (auto simp: cursor_sql_def sum_bind_Inr_iff)
    then show ?thesis by (intro exI [of _ "Some p"]) simp
  qed
  then obtain pos where "cur = (case pos of None \<Rightarrow> [] | Some p \<Rightarrow> position_sql q p)" by blast
  then show ?thesis
    using sql by (intro exI [of _ pos]) simp
qed

lemma update_sql_shape:
  assumes u: "update_sql lib q client_id rid req = Inr sql"
  shows "\<exists>m. sql = ''UPDATE resources SET '' @ foldl add_assignment [] (
              (case uq_name req of None \<Rightarrow> [] | Some n \<Rightarrow> [''name = '' @ q n])
              @ (case uq_status req of None \<Rightarrow> [] | Some s \<Rightarrow> [''status = '' @ q s])
              @ (if uq_metadata req = None then [] else [''metadata = '' @ q m @ ''::jsonb'']))
          @ '' WHERE client_id = '' @ q client_id @ '' AND id = '' @ q rid @ '' RETURNING '' @ select_columns"
proof -
  have fold: "(case uq_status req of Some s \<Rightarrow> add_assignment
        (case uq_name req of Some n \<Rightarrow> add_assignment [] (''name = '' @ q n) | None \<Rightarrow> []) (''status = '' @ q s)
      | None \<Rightarrow> case uq_name req of Some n \<Rightarrow> add_assignment [] (''name = '' @ q n) | None \<Rightarrow> [])
    = foldl add_assignment [] (
              (case uq_name req of None \<Rightarrow> [] | Some n \<Rightarrow> [''name = '' @ q n])
              @ (case uq_status req of None \<Rightarrow> [] | Some s \<Rightarrow> [''status = '' @ q s]))"
    by (cases "uq_name req"; cases "uq_status req") simp_all
  show ?thesis
  proof (cases "uq_metadata req")
    case None
    then show ?thesis using u by (simp only: update_sql_def Let_def fold) simp
  next
    case (Some md)
    then obtain d where "json_dump lib md = Inr d"
      using u by (auto simp: update_sql_def Let_def sum_bind_Inr_iff)
    then show ?thesis
      using u Some by (intro exI [of _ d]) (simp only: update_sql_def Let_def fold, simp)
  qed
qed



end
