(* ===== verification/Redis.thy ===== *)
theory Redis
  imports Prelude
begin

text \<open>
  The Redis client, \<open>include/corvus/db/redis_connection.h\<close> and \<open>src/db/redis_connection.cpp\<close>.
  The hiredis library and the server behind it are the parameter \<open>'w hiredis\<close>: connecting,
  setting a timeout, sending one command and freeing a context, each a function of an
  opaque world \<open>'w\<close>. A \<open>redisContext\<close> carries the error field that the client reads; a
  reply is \<open>None\<close> when hiredis returns NULL. A formatted command is the list of its
  arguments: \<open>%s\<close> takes a C string, \<open>%b\<close> all bytes, \<open>%d\<close> a number.
\<close>

section \<open>The interface of hiredis\<close>

record redis_context =
  rc_handle :: nat
  rc_err :: int
  rc_errstr :: string

datatype redis_reply =
    RNil
  | RString string
  | RStatus string
  | RInteger int
  | RArray "redis_reply list"
  | RError string

type_synonym timeval = "int \<times> int"

record 'w hiredis =
  hi_connect :: "string \<Rightarrow> int \<Rightarrow> timeval \<Rightarrow> 'w \<Rightarrow> redis_context option \<times> 'w"
  hi_set_timeout :: "redis_context \<Rightarrow> timeval \<Rightarrow> 'w \<Rightarrow> redis_context \<times> 'w"
  hi_command :: "redis_context \<Rightarrow> string list \<Rightarrow> 'w \<Rightarrow> redis_reply option \<times> redis_context \<times> 'w"
  hi_free :: "redis_context \<Rightarrow> 'w \<Rightarrow> 'w"

section \<open>Configuration and replies\<close>

record redis_config =
  rd_host :: string
  rd_port :: int
  connect_timeout_ms :: int
  command_timeout_ms :: int
  rd_password :: string
  rd_db :: int

definition default_redis_config :: redis_config where
  "default_redis_config =
     \<lparr>rd_host = ''localhost'', rd_port = 6379, connect_timeout_ms = 3000,
      command_timeout_ms = 1000, rd_password = [], rd_db = 0\<rparr>"

text \<open>\<open>redis_config_from_env\<close>; the environment maps a variable to its value.\<close>

definition env_get :: "(string \<Rightarrow> string option) \<Rightarrow> string \<Rightarrow> string \<Rightarrow> string" where
  "env_get env var fb = (case env var of Some v \<Rightarrow> if v \<noteq> [] then v else fb | None \<Rightarrow> fb)"

definition redis_config_from_env :: "(string \<Rightarrow> string option) \<Rightarrow> exn + redis_config" where
  "redis_config_from_env env =
     (let cfg = default_redis_config\<lparr>rd_host := env_get env ''CORVUS_REDIS_HOST'' ''localhost''\<rparr>
      in case stoi (env_get env ''CORVUS_REDIS_PORT'' ''6379'') of
           Inl e \<Rightarrow> Inl e
         | Inr (port, _) \<Rightarrow>
             (let cfg = cfg\<lparr>rd_port := port,
                            rd_password := env_get env ''CORVUS_REDIS_PASSWORD'' []\<rparr>
              in case stoi (env_get env ''CORVUS_REDIS_DB'' ''0'') of
                   Inl e \<Rightarrow> Inl e
                 | Inr (db, _) \<Rightarrow> Inr (cfg\<lparr>rd_db := db\<rparr>)))"

text \<open>
  \<open>RedisReply\<close>: the predicates hold of a NULL reply too, except \<open>operator bool\<close>.
\<close>

definition is_nil :: "redis_reply option \<Rightarrow> bool" where
  "is_nil r \<longleftrightarrow> (case r of None \<Rightarrow> True | Some RNil \<Rightarrow> True | _ \<Rightarrow> False)"

definition is_status :: "redis_reply option \<Rightarrow> bool" where
  "is_status r \<longleftrightarrow> (case r of None \<Rightarrow> True | Some (RStatus _) \<Rightarrow> True | _ \<Rightarrow> False)"

definition is_string :: "redis_reply option \<Rightarrow> bool" where
  "is_string r \<longleftrightarrow> (case r of None \<Rightarrow> True | Some (RString _) \<Rightarrow> True | _ \<Rightarrow> False)"

definition is_integer :: "redis_reply option \<Rightarrow> bool" where
  "is_integer r \<longleftrightarrow> (case r of None \<Rightarrow> True | Some (RInteger _) \<Rightarrow> True | _ \<Rightarrow> False)"

definition is_array :: "redis_reply option \<Rightarrow> bool" where
  "is_array r \<longleftrightarrow> (case r of None \<Rightarrow> True | Some (RArray _) \<Rightarrow> True | _ \<Rightarrow> False)"

definition is_error :: "redis_reply option \<Rightarrow> bool" where
  "is_error r \<longleftrightarrow> (case r of None \<Rightarrow> True | Some (RError _) \<Rightarrow> True | _ \<Rightarrow> False)"

definition reply_string :: "redis_reply option \<Rightarrow> exn + string" where
  "reply_string r = (case r of
      None \<Rightarrow> Inr []
    | Some RNil \<Rightarrow> Inr []
    | Some (RString s) \<Rightarrow> Inr s
    | Some (RStatus s) \<Rightarrow> Inr s
    | _ \<Rightarrow> Inl (RedisCommandError ''Reply is not a string''))"

definition reply_integer :: "redis_reply option \<Rightarrow> exn + int" where
  "reply_integer r = (case r of
      Some (RInteger i) \<Rightarrow> Inr i
    | _ \<Rightarrow> Inl (RedisCommandError ''Reply is not an integer''))"

text \<open>\<open>std::string(reply->str)\<close>: the C string of a string, status or error reply.\<close>

fun reply_cstr :: "redis_reply \<Rightarrow> string" where
  "reply_cstr (RString s) = c_str s"
| "reply_cstr (RStatus s) = c_str s"
| "reply_cstr (RError s) = c_str s"
| "reply_cstr _ = []"

fun reply_elements :: "redis_reply \<Rightarrow> redis_reply list" where
  "reply_elements (RArray rs) = rs"
| "reply_elements _ = []"

text \<open>\<open>(reply ? std::string(reply->str) : "null reply")\<close>.\<close>

definition error_text :: "redis_reply option \<Rightarrow> string" where
  "error_text r = (case r of None \<Rightarrow> ''null reply'' | Some x \<Rightarrow> reply_cstr x)"

section \<open>The connection\<close>

record redis_connection =
  ctx :: "redis_context option"
  rd_config :: redis_config

text \<open>Operations take and return the connection and the world; \<open>Inl\<close> is an exception.\<close>

type_synonym ('w, 'a) rop = "redis_connection \<Rightarrow> 'w \<Rightarrow> (exn + 'a) \<times> redis_connection \<times> 'w"

definition is_connected :: "redis_connection \<Rightarrow> bool" where
  "is_connected c \<longleftrightarrow> (case ctx c of None \<Rightarrow> False | Some x \<Rightarrow> rc_err x = 0)"

text \<open>\<open>redisCommand(ctx_, ...)\<close> and \<open>redisCommandArgv\<close>; called with a context only.\<close>

definition redis_command ::
  "'w hiredis \<Rightarrow> string list \<Rightarrow> redis_connection \<Rightarrow> 'w \<Rightarrow> redis_reply option \<times> redis_connection \<times> 'w" where
  "redis_command api argv c w = (case ctx c of
      None \<Rightarrow> (None, c, w)
    | Some x \<Rightarrow> (case hi_command api x argv w of (r, x', w') \<Rightarrow> (r, c\<lparr>ctx := Some x'\<rparr>, w')))"

text \<open>Division and remainder of C++ round towards zero.\<close>

definition ms_timeval :: "int \<Rightarrow> timeval" where
  "ms_timeval ms = (sgn ms * (\<bar>ms\<bar> div 1000), sgn ms * (\<bar>ms\<bar> mod 1000) * 1000)"

definition apply_timeouts :: "'w hiredis \<Rightarrow> redis_connection \<Rightarrow> 'w \<Rightarrow> redis_connection \<times> 'w" where
  "apply_timeouts api c w = (case ctx c of
      None \<Rightarrow> (c, w)
    | Some x \<Rightarrow> (case hi_set_timeout api x (ms_timeval (command_timeout_ms (rd_config c))) w of
                  (x', w') \<Rightarrow> (c\<lparr>ctx := Some x'\<rparr>, w')))"

definition redis_authenticate :: "'w hiredis \<Rightarrow> ('w, unit) rop" where
  "redis_authenticate api c w =
     (if rd_password (rd_config c) = [] then (Inr (), c, w)
      else case redis_command api [''AUTH'', c_str (rd_password (rd_config c))] c w of
        (r, c', w') \<Rightarrow>
          if is_error r then (Inl (RedisConfigError (''Redis AUTH failed: '' @ error_text r)), c', w')
          else (Inr (), c', w'))"

definition select_db :: "'w hiredis \<Rightarrow> ('w, unit) rop" where
  "select_db api c w =
     (if rd_db (rd_config c) = 0 then (Inr (), c, w)
      else case redis_command api [''SELECT'', dec_int (rd_db (rd_config c))] c w of
        (r, c', w') \<Rightarrow>
          if is_error r
          then (Inl (RedisConfigError (''Redis SELECT '' @ dec_int (rd_db (rd_config c))
                       @ '' failed: '' @ error_text r)), c', w')
          else (Inr (), c', w'))"

definition free_ctx :: "'w hiredis \<Rightarrow> redis_connection \<Rightarrow> 'w \<Rightarrow> redis_connection \<times> 'w" where
  "free_ctx api c w = (case ctx c of
      None \<Rightarrow> (c, w)
    | Some x \<Rightarrow> (c\<lparr>ctx := None\<rparr>, hi_free api x w))"

definition reconnect :: "'w hiredis \<Rightarrow> ('w, unit) rop" where
  "reconnect api c0 w0 =
     (case free_ctx api c0 w0 of (c, w) \<Rightarrow>
       let cfg = rd_config c in
       case hi_connect api (c_str (rd_host cfg)) (rd_port cfg) (ms_timeval (connect_timeout_ms cfg)) w of
         (None, w) \<Rightarrow>
           (Inl (RedisConfigError (''Failed to allocate Redis context for '' @ rd_host cfg @ '':''
                   @ dec_int (rd_port cfg))), c, w)
       | (Some x, w) \<Rightarrow>
           if rc_err x \<noteq> 0
           then (Inl (RedisConfigError (''Redis connection failed to'' @ rd_host cfg @ '':''
                   @ dec_int (rd_port cfg) @ '': '' @ rc_errstr x)), c\<lparr>ctx := None\<rparr>, hi_free api x w)
           else case apply_timeouts api (c\<lparr>ctx := Some x\<rparr>) w of (c, w) \<Rightarrow>
             (case redis_authenticate api c w of
                (Inl e, c, w) \<Rightarrow> (Inl e, c, w)
              | (Inr _, c, w) \<Rightarrow> select_db api c w))"

text \<open>
  The constructor. When \<open>reconnect\<close> throws, the object never exists and its destructor does
  not run.
\<close>

definition new_redis_connection ::
  "'w hiredis \<Rightarrow> redis_config \<Rightarrow> 'w \<Rightarrow> (exn + redis_connection) \<times> 'w" where
  "new_redis_connection api cfg w =
     (case reconnect api \<lparr>ctx = None, rd_config = cfg\<rparr> w of
        (Inl e, c, w') \<Rightarrow> (Inl e, w')
      | (Inr _, c, w') \<Rightarrow> (Inr c, w'))"

definition destroy_redis_connection :: "'w hiredis \<Rightarrow> redis_connection \<Rightarrow> 'w \<Rightarrow> 'w" where
  "destroy_redis_connection api c w = snd (free_ctx api c w)"

text \<open>The move assignment \<open>operator=(RedisConnection &&)\<close> between two different objects.\<close>

definition move_assign ::
  "'w hiredis \<Rightarrow> redis_connection \<Rightarrow> redis_connection \<Rightarrow> 'w
     \<Rightarrow> redis_connection \<times> redis_connection \<times> 'w" where
  "move_assign api this other w =
     (let w' = (case ctx this of Some x \<Rightarrow> hi_free api x w | None \<Rightarrow> w)
      in (\<lparr>ctx = ctx other, rd_config = rd_config other\<rparr>, other\<lparr>ctx := None\<rparr>, w'))"

text \<open>The move constructor; the object that is moved from is left without a context.\<close>

definition move_construct :: "redis_connection \<Rightarrow> redis_connection \<times> redis_connection" where
  "move_construct other = (\<lparr>ctx = ctx other, rd_config = rd_config other\<rparr>, other\<lparr>ctx := None\<rparr>)"

definition check_connection :: "redis_connection \<Rightarrow> exn + unit" where
  "check_connection c =
     (if \<not> is_connected c then Inl (RedisCommandError ''Redis conneciton is not open'') else Inr ())"

text \<open>
  The shape that every command shares: check the connection, send the command, look at the
  reply.
\<close>

definition run_command ::
  "'w hiredis \<Rightarrow> string list \<Rightarrow> (redis_reply option \<Rightarrow> exn + 'a) \<Rightarrow> ('w, 'a) rop" where
  "run_command api argv k c w =
     (case check_connection c of
        Inl e \<Rightarrow> (Inl e, c, w)
      | Inr _ \<Rightarrow> (case redis_command api argv c w of (r, c', w') \<Rightarrow> (k r, c', w')))"

definition unless_error :: "string \<Rightarrow> (redis_reply option \<Rightarrow> exn + 'a) \<Rightarrow> redis_reply option \<Rightarrow> exn + 'a" where
  "unless_error name k r =
     (if is_error r then Inl (RedisCommandError (name @ '' failed: '' @ error_text r)) else k r)"

section \<open>Commands\<close>

definition redis_ping :: "'w hiredis \<Rightarrow> ('w, bool) rop" where
  "redis_ping api = run_command api [''PING'']
     (\<lambda>r. Inr (r \<noteq> None \<and> is_status r \<and> error_text r = ''PONG''))"

definition redis_set :: "'w hiredis \<Rightarrow> string \<Rightarrow> string \<Rightarrow> int \<Rightarrow> ('w, unit) rop" where
  "redis_set api key value ttl_seconds = run_command api
     (if 0 < ttl_seconds then [''SET'', c_str key, value, ''EX'', dec_int ttl_seconds]
      else [''SET'', c_str key, value])
     (unless_error ''SET'' (\<lambda>_. Inr ()))"

definition string_or_empty :: "string \<Rightarrow> redis_reply option \<Rightarrow> exn + string" where
  "string_or_empty name r = (case r of
      None \<Rightarrow> Inl (RedisCommandError (name @ '' returned null reply''))
    | Some (RError m) \<Rightarrow> Inl (RedisCommandError (name @ '' failed: '' @ c_str m))
    | Some RNil \<Rightarrow> Inr []
    | _ \<Rightarrow> reply_string r)"

definition redis_get :: "'w hiredis \<Rightarrow> string \<Rightarrow> ('w, string) rop" where
  "redis_get api key = run_command api [''GET'', c_str key] (string_or_empty ''GET'')"

definition redis_del :: "'w hiredis \<Rightarrow> string \<Rightarrow> ('w, int) rop" where
  "redis_del api key = run_command api [''DEL'', c_str key] (unless_error ''DEL'' reply_integer)"

definition redis_exists :: "'w hiredis \<Rightarrow> string \<Rightarrow> ('w, int) rop" where
  "redis_exists api key =
     run_command api [''EXISTS'', c_str key] (unless_error ''EXISTS'' reply_integer)"

definition redis_expire :: "'w hiredis \<Rightarrow> string \<Rightarrow> int \<Rightarrow> ('w, unit) rop" where
  "redis_expire api key seconds =
     run_command api [''EXPIRE'', c_str key, dec_int seconds] (unless_error ''EXPIRE'' (\<lambda>_. Inr ()))"

definition redis_hset :: "'w hiredis \<Rightarrow> string \<Rightarrow> string \<Rightarrow> string \<Rightarrow> ('w, unit) rop" where
  "redis_hset api key field value =
     run_command api [''HSET'', c_str key, c_str field, value] (unless_error ''HSET'' (\<lambda>_. Inr ()))"

definition redis_hget :: "'w hiredis \<Rightarrow> string \<Rightarrow> string \<Rightarrow> ('w, string) rop" where
  "redis_hget api key field =
     run_command api [''HGET'', c_str key, c_str field] (string_or_empty ''HGET'')"

text \<open>The loop of \<open>hgetall\<close>: two elements at a time, later fields overwrite earlier ones.\<close>

fun reply_pairs :: "redis_reply list \<Rightarrow> (string \<times> string) list \<Rightarrow> (string \<times> string) list" where
  "reply_pairs (f # v # rs) acc = reply_pairs rs (AList.update (reply_cstr f) (reply_cstr v) acc)"
| "reply_pairs _ acc = acc"

definition hash_fields :: "redis_reply option \<Rightarrow> exn + (string \<times> string) list" where
  "hash_fields r = (case r of
      None \<Rightarrow> Inl (RedisCommandError ''HGETALL returned null reply'')
    | Some (RError m) \<Rightarrow> Inl (RedisCommandError (''HGETALL failed: '' @ c_str m))
    | Some RNil \<Rightarrow> Inr []
    | Some x \<Rightarrow> Inr (reply_pairs (reply_elements x) []))"

definition redis_hgetall :: "'w hiredis \<Rightarrow> string \<Rightarrow> ('w, (string \<times> string) list) rop" where
  "redis_hgetall api key = run_command api [''HGETALL'', c_str key] hash_fields"

text \<open>The fields in the order in which the map iterates over them.\<close>

definition redis_hmset :: "'w hiredis \<Rightarrow> string \<Rightarrow> (string \<times> string) list \<Rightarrow> ('w, unit) rop" where
  "redis_hmset api key kvs c w =
     (if kvs = [] then (Inr (), c, w)
      else run_command api (''HMSET'' # key # concat (map (\<lambda>(f, v). [f, v]) kvs))
             (unless_error ''HMSET'' (\<lambda>_. Inr ())) c w)"

definition redis_hdel :: "'w hiredis \<Rightarrow> string \<Rightarrow> string \<Rightarrow> ('w, int) rop" where
  "redis_hdel api key field =
     run_command api [''HDEL'', c_str key, c_str field] (unless_error ''HDEL'' reply_integer)"

section \<open>The contract of a command\<close>

text \<open>
  What every command promises the components that use a connection: on a connection that is
  not open it fails and sends nothing, it keeps the configuration, and its only exception is
  \<open>RedisCommandError\<close>.
\<close>

locale connection_op =
  fixes op :: "('w, 'a) rop"
  assumes closed: "\<not> is_connected c \<Longrightarrow>
      op c w = (Inl (RedisCommandError ''Redis conneciton is not open''), c, w)"
    and keeps_config: "op c w = (r, c', w') \<Longrightarrow> rd_config c' = rd_config c"
    and only_command_error: "op c w = (Inl e, c', w') \<Longrightarrow> \<exists>m. e = RedisCommandError m"
begin

lemma connected_of_result: "op c w = (Inr v, c', w') \<Longrightarrow> is_connected c"
  using closed [of c w] by (cases "is_connected c") auto

lemma outcome:
  obtains (result) v c' w' where "op c w = (Inr v, c', w')" "rd_config c' = rd_config c"
    | (error) m c' w' where "op c w = (Inl (RedisCommandError m), c', w')" "rd_config c' = rd_config c"
proof -
  obtain r c' w' where r: "op c w = (r, c', w')" by (cases "op c w") auto
  with keeps_config have cfg: "rd_config c' = rd_config c" by blast
  show thesis
  proof (cases r)
    case (Inl e)
    with only_command_error r obtain m where "e = RedisCommandError m" by blast
    with r Inl cfg show ?thesis using error by blast
  next
    case (Inr v)
    with r cfg show ?thesis using result by blast
  qed
qed

lemma keeps_config_snd: "rd_config (fst (snd (op c w))) = rd_config c"
  using keeps_config [of c w] by (cases "op c w") auto

end

lemma redis_command_config: "redis_command api argv c w = (r, c', w') \<Longrightarrow> rd_config c' = rd_config c"
  by (auto simp: redis_command_def split: option.splits prod.splits)

lemma connection_op_run:
  assumes "\<And>r e. k r = Inl e \<Longrightarrow> \<exists>m. e = RedisCommandError m"
  shows "connection_op (run_command api argv k)"
  using assms redis_command_config [of api argv]
  by unfold_locales (auto simp: run_command_def check_connection_def split: prod.splits if_splits)

lemma reply_errors:
  "reply_string r = Inl e \<Longrightarrow> \<exists>m. e = RedisCommandError m"
  "reply_integer r = Inl e \<Longrightarrow> \<exists>m. e = RedisCommandError m"
  "hash_fields r = Inl e \<Longrightarrow> \<exists>m. e = RedisCommandError m"
  by (auto simp: reply_string_def reply_integer_def hash_fields_def
      split: option.splits redis_reply.splits)

lemma string_or_empty_errors:
  "string_or_empty name r = Inl e \<Longrightarrow> \<exists>m. e = RedisCommandError m"
  by (auto simp: string_or_empty_def dest: reply_errors(1)
      split: option.splits redis_reply.splits)

lemma unless_error_errors:
  "unless_error name k r = Inl e \<Longrightarrow> (k r = Inl e \<Longrightarrow> \<exists>m. e = RedisCommandError m)
     \<Longrightarrow> \<exists>m. e = RedisCommandError m"
  by (auto simp: unless_error_def split: if_splits)

lemmas rop_errors = reply_errors string_or_empty_errors unless_error_errors

interpretation ping_op: connection_op "redis_ping api"
  unfolding redis_ping_def by (rule connection_op_run) simp

interpretation set_op: connection_op "redis_set api key value ttl"
  unfolding redis_set_def by (rule connection_op_run) (auto elim: unless_error_errors)

interpretation get_op: connection_op "redis_get api key"
  unfolding redis_get_def by (rule connection_op_run) (rule string_or_empty_errors)

interpretation del_op: connection_op "redis_del api key"
  unfolding redis_del_def by (rule connection_op_run) (blast dest: unless_error_errors reply_errors)

interpretation exists_op: connection_op "redis_exists api key"
  unfolding redis_exists_def by (rule connection_op_run) (blast dest: unless_error_errors reply_errors)

interpretation expire_op: connection_op "redis_expire api key seconds"
  unfolding redis_expire_def by (rule connection_op_run) (auto elim: unless_error_errors)

interpretation hset_op: connection_op "redis_hset api key field value"
  unfolding redis_hset_def by (rule connection_op_run) (auto elim: unless_error_errors)

interpretation hget_op: connection_op "redis_hget api key field"
  unfolding redis_hget_def by (rule connection_op_run) (rule string_or_empty_errors)

interpretation hgetall_op: connection_op "redis_hgetall api key"
  unfolding redis_hgetall_def by (rule connection_op_run) (rule reply_errors)

interpretation hdel_op: connection_op "redis_hdel api key field"
  unfolding redis_hdel_def by (rule connection_op_run) (blast dest: unless_error_errors reply_errors)

interpretation hmset_op: connection_op "redis_hmset api key (kv # kvs)"
proof -
  have "redis_hmset api key (kv # kvs)
      = run_command api (''HMSET'' # key # concat (map (\<lambda>(f, v). [f, v]) (kv # kvs)))
          (unless_error ''HMSET'' (\<lambda>_. Inr ()))"
    by (intro ext) (simp add: redis_hmset_def)
  then show "connection_op (redis_hmset api key (kv # kvs))"
    by (simp only:) (rule connection_op_run, auto elim: unless_error_errors)
qed

section \<open>Connecting\<close>

lemma free_ctx_simps [simp]:
  "rd_config (fst (free_ctx api c w)) = rd_config c" "ctx (fst (free_ctx api c w)) = None"
  by (auto simp: free_ctx_def split: option.splits)

lemma apply_timeouts_config: "apply_timeouts api c w = (c', w') \<Longrightarrow> rd_config c' = rd_config c"
  by (auto simp: apply_timeouts_def split: option.splits prod.splits)

lemma apply_timeouts_ctx: "apply_timeouts api c w = (c', w') \<Longrightarrow> ctx c' = None \<longleftrightarrow> ctx c = None"
  by (auto simp: apply_timeouts_def split: option.splits prod.splits)

lemma redis_command_ctx: "redis_command api argv c w = (r, c', w') \<Longrightarrow> ctx c' = None \<longleftrightarrow> ctx c = None"
  by (auto simp: redis_command_def split: option.splits prod.splits)

text \<open>\<open>authenticate\<close> and \<open>select_db\<close> keep the context and the configuration.\<close>

definition setup_step :: "('w, unit) rop \<Rightarrow> bool" where
  "setup_step f \<longleftrightarrow> (\<forall>c w r c' w'. f c w = (r, c', w') \<longrightarrow>
     rd_config c' = rd_config c \<and> (ctx c' = None \<longleftrightarrow> ctx c = None)
     \<and> (\<forall>e. r = Inl e \<longrightarrow> (\<exists>m. e = RedisConfigError m)))"

lemma setup_step_authenticate: "setup_step (redis_authenticate api)"
  by (auto simp: setup_step_def redis_authenticate_def
      dest: redis_command_config redis_command_ctx split: if_splits prod.splits)

lemma setup_step_select_db: "setup_step (select_db api)"
  by (auto simp: setup_step_def select_db_def
      dest: redis_command_config redis_command_ctx split: if_splits prod.splits)

lemma setup_stepD:
  "setup_step f \<Longrightarrow> f c w = (r, c', w') \<Longrightarrow>
     rd_config c' = rd_config c \<and> (ctx c' = None \<longleftrightarrow> ctx c = None)
     \<and> (\<forall>e. r = Inl e \<longrightarrow> (\<exists>m. e = RedisConfigError m))"
  unfolding setup_step_def by blast

lemma reconnect_result:
  assumes "reconnect api c w = (r, c', w')"
  shows "rd_config c' = rd_config c
    \<and> (case r of Inl e \<Rightarrow> \<exists>m. e = RedisConfigError m | Inr _ \<Rightarrow> ctx c' \<noteq> None)"
proof -
  obtain c0 w0 where f: "free_ctx api c w = (c0, w0)" by (cases "free_ctx api c w")
  then have cfg0: "rd_config c0 = rd_config c" using free_ctx_simps(1) [of api c w] by simp
  obtain x0 w1 where k: "hi_connect api (c_str (rd_host (rd_config c0))) (rd_port (rd_config c0))
      (ms_timeval (connect_timeout_ms (rd_config c0))) w0 = (x0, w1)" by (rule prod.exhaust)
  show ?thesis
  proof (cases x0)
    case None
    then show ?thesis using assms f k cfg0 by (auto simp: reconnect_def Let_def)
  next
    case (Some x)
    obtain c2 w2 where t: "apply_timeouts api (c0\<lparr>ctx := Some x\<rparr>) w1 = (c2, w2)" by (rule prod.exhaust)
    obtain r3 c3 w3 where au: "redis_authenticate api c2 w2 = (r3, c3, w3)" by (rule prod_cases3)
    obtain r4 c4 w4 where s: "select_db api c3 w3 = (r4, c4, w4)" by (rule prod_cases3)
    show ?thesis
      using assms f k Some cfg0 au s apply_timeouts_config [OF t] apply_timeouts_ctx [OF t]
        setup_stepD [OF setup_step_authenticate au] setup_stepD [OF setup_step_select_db s]
      by (auto simp: reconnect_def Let_def t split: if_splits sum.splits)
  qed
qed

lemma new_redis_connection_result:
  "new_redis_connection api cfg w = (Inl e, w') \<Longrightarrow> \<exists>m. e = RedisConfigError m"
  "new_redis_connection api cfg w = (Inr c, w') \<Longrightarrow> rd_config c = cfg \<and> ctx c \<noteq> None"
  by (auto simp: new_redis_connection_def dest: reconnect_result split: prod.splits sum.splits)

end
