(* ===== verification/CacheAside.thy ===== *)
theory CacheAside
  imports Redis
begin

text \<open>
  The cache, \<open>include/corvus/db/cache_aside.h\<close> and \<open>src/db/cache_aside.cpp\<close>: a Redis connection with
  reconnection at most once a second, plain and versioned entries. Every operation runs under
  the mutex, so it is one function of the cache and the world; none of them throws, except that
  \<open>get_or_fetch\<close> lets the exceptions of \<open>fetch\<close> through. The steady clock (nanoseconds) and
  hiredis are the parameter \<open>cache_env\<close>. The two Lua scripts are constants here, as the code has
  them, and functions of Redis' command interface below.
\<close>

record cache_config =
  default_ttl_seconds :: int
  key_prefix :: string
  version_ttl_seconds :: int

definition default_cache_config :: cache_config where
  "default_cache_config =
     \<lparr>default_ttl_seconds = 300, key_prefix = ''corvus:'', version_ttl_seconds = 600\<rparr>"

record cache_aside =
  ca_redis :: redis_connection
  ca_config :: cache_config
  next_reconnect :: int

record 'w cache_env =
  ce_redis :: "'w hiredis"
  ce_now :: "'w \<Rightarrow> int"

text \<open>The clock's epoch is the initial value of \<open>next_reconnect_\<close>.\<close>

definition new_cache_aside :: "redis_connection \<Rightarrow> cache_config \<Rightarrow> cache_aside" where
  "new_cache_aside redis config = \<lparr>ca_redis = redis, ca_config = config, next_reconnect = 0\<rparr>"

definition make_key :: "cache_aside \<Rightarrow> string \<Rightarrow> string" where
  "make_key ca key = key_prefix (ca_config ca) @ key"

definition version_key :: "cache_aside \<Rightarrow> string \<Rightarrow> string" where
  "version_key ca key = key_prefix (ca_config ca) @ ''ver:'' @ key"

definition effective_ttl :: "cache_aside \<Rightarrow> int \<Rightarrow> int" where
  "effective_ttl ca ttl_seconds =
     (if ttl_seconds < 0 then default_ttl_seconds (ca_config ca) else ttl_seconds)"

definition kReconnectBackoff :: int where
  "kReconnectBackoff = 1000000000"

section \<open>Scripts\<close>

definition kPutIfVersion :: string where
  "kPutIfVersion = CHR 0x0A # unlines
     [''local current = redis.call('GET', KEYS[2]) or '0'' @ [CHR 0x27],
      ''if current ~= ARGV[1] then return 0 end'',
      ''if tonumber(ARGV[3]) > 0 then'',
      ''  redis.call('SET', KEYS[1], ARGV[2], 'EX', ARGV[3])'',
      ''else'',
      ''  redis.call('SET', KEYS[1], ARGV[2])'',
      ''end'',
      ''return 1'']"

definition kInvalidateVersioned :: string where
  "kInvalidateVersioned = CHR 0x0A # unlines
     [''redis.call('INCR', KEYS[2])'',
      ''redis.call('EXPIRE', KEYS[2], ARGV[1])'',
      ''redis.call('DEL', KEYS[1])'',
      ''return 1'']"

text \<open>
  What the scripts do, with \<open>redis.call\<close> as a function of the database; a command that fails
  aborts the script with its error. A nil reply is false in Lua, so \<open>or\<close> takes its default.
\<close>

type_synonym 'd redis_call = "string list \<Rightarrow> 'd \<Rightarrow> redis_reply \<times> 'd"

definition lua_or_zero :: "redis_reply \<Rightarrow> redis_reply" where
  "lua_or_zero r = (case r of RNil \<Rightarrow> RString ''0'' | _ \<Rightarrow> r)"

definition put_if_version_script ::
  "'d redis_call \<Rightarrow> string \<Rightarrow> string \<Rightarrow> string \<Rightarrow> string \<Rightarrow> string \<Rightarrow> 'd \<Rightarrow> redis_reply \<times> 'd" where
  "put_if_version_script rc key vkey expected value ttl d =
     (case rc [''GET'', vkey] d of
        (RError m, d) \<Rightarrow> (RError m, d)
      | (r, d) \<Rightarrow>
          if lua_or_zero r \<noteq> RString expected then (RInteger 0, d)
          else case stoi ttl of
            Inl _ \<Rightarrow> (RError ''attempt to compare nil with number'', d)
          | Inr (n, _) \<Rightarrow>
              (case rc (if 0 < n then [''SET'', key, value, ''EX'', ttl] else [''SET'', key, value]) d of
                 (RError m, d) \<Rightarrow> (RError m, d)
               | (_, d) \<Rightarrow> (RInteger 1, d)))"

definition invalidate_script ::
  "'d redis_call \<Rightarrow> string \<Rightarrow> string \<Rightarrow> string \<Rightarrow> 'd \<Rightarrow> redis_reply \<times> 'd" where
  "invalidate_script rc key vkey ttl d =
     (case rc [''INCR'', vkey] d of
        (RError m, d) \<Rightarrow> (RError m, d)
      | (_, d) \<Rightarrow> (case rc [''EXPIRE'', vkey, ttl] d of
          (RError m, d) \<Rightarrow> (RError m, d)
        | (_, d) \<Rightarrow> (case rc [''DEL'', key] d of
            (RError m, d) \<Rightarrow> (RError m, d)
          | (_, d) \<Rightarrow> (RInteger 1, d))))"

section \<open>Operations\<close>

definition ensure_connected_locked ::
  "'w cache_env \<Rightarrow> cache_aside \<Rightarrow> 'w \<Rightarrow> bool \<times> cache_aside \<times> 'w" where
  "ensure_connected_locked env ca w =
     (if is_connected (ca_redis ca) then (True, ca, w)
      else let now = ce_now env w
           in if now < next_reconnect ca then (False, ca, w)
              else case reconnect (ce_redis env) (ca_redis ca) w of
                (Inr _, c, w) \<Rightarrow> (True, ca\<lparr>ca_redis := c\<rparr>, w)
              | (Inl _, c, w) \<Rightarrow>
                  (False, ca\<lparr>ca_redis := c, next_reconnect := now + kReconnectBackoff\<rparr>, w))"

text \<open>A command on the cache's connection.\<close>

definition on_redis :: "('w, 'a) rop \<Rightarrow> cache_aside \<Rightarrow> 'w \<Rightarrow> (exn + 'a) \<times> cache_aside \<times> 'w" where
  "on_redis op ca w = (case op (ca_redis ca) w of (r, c, w) \<Rightarrow> (r, ca\<lparr>ca_redis := c\<rparr>, w))"

text \<open>The shape of the operations: \<open>dflt\<close> when Redis is unreachable or the body throws.\<close>

definition guarded ::
  "'w cache_env \<Rightarrow> 'a \<Rightarrow> (cache_aside \<Rightarrow> 'w \<Rightarrow> (exn + 'a) \<times> cache_aside \<times> 'w)
     \<Rightarrow> cache_aside \<Rightarrow> 'w \<Rightarrow> 'a \<times> cache_aside \<times> 'w" where
  "guarded env dflt body ca w =
     (case ensure_connected_locked env ca w of
        (False, ca, w) \<Rightarrow> (dflt, ca, w)
      | (True, ca, w) \<Rightarrow> (case body ca w of
          (Inl _, ca, w) \<Rightarrow> (dflt, ca, w)
        | (Inr x, ca, w) \<Rightarrow> (x, ca, w)))"

definition cache_get ::
  "'w cache_env \<Rightarrow> string \<Rightarrow> cache_aside \<Rightarrow> 'w \<Rightarrow> string option \<times> cache_aside \<times> 'w" where
  "cache_get env key ca w =
     (let full_key = make_key ca key in
      guarded env None (\<lambda>ca w.
        case on_redis (redis_get (ce_redis env) full_key) ca w of
          (Inl e, ca, w) \<Rightarrow> (Inl e, ca, w)
        | (Inr value, ca, w) \<Rightarrow>
            if value = []
            then (case on_redis (redis_exists (ce_redis env) full_key) ca w of
                    (Inl e, ca, w) \<Rightarrow> (Inl e, ca, w)
                  | (Inr n, ca, w) \<Rightarrow> (Inr (if n = 0 then None else Some value), ca, w))
            else (Inr (Some value), ca, w)) ca w)"

definition cache_put ::
  "'w cache_env \<Rightarrow> string \<Rightarrow> string \<Rightarrow> int \<Rightarrow> cache_aside \<Rightarrow> 'w \<Rightarrow> bool \<times> cache_aside \<times> 'w" where
  "cache_put env key value ttl_seconds ca w =
     (let full_key = make_key ca key in
      guarded env False (\<lambda>ca w.
        case on_redis (redis_set (ce_redis env) full_key value (effective_ttl ca ttl_seconds)) ca w of
          (Inl e, ca, w) \<Rightarrow> (Inl e, ca, w)
        | (Inr _, ca, w) \<Rightarrow> (Inr True, ca, w)) ca w)"

definition get_or_fetch ::
  "'w cache_env \<Rightarrow> string \<Rightarrow> ('w \<Rightarrow> (exn + string option) \<times> 'w) \<Rightarrow> int \<Rightarrow> cache_aside \<Rightarrow> 'w
     \<Rightarrow> (exn + string option) \<times> cache_aside \<times> 'w" where
  "get_or_fetch env key fetch ttl_seconds ca w =
     (case cache_get env key ca w of
        (Some cached, ca, w) \<Rightarrow> (Inr (Some cached), ca, w)
      | (None, ca, w) \<Rightarrow> (case fetch w of
          (Inl e, w) \<Rightarrow> (Inl e, ca, w)
        | (Inr None, w) \<Rightarrow> (Inr None, ca, w)
        | (Inr (Some value), w) \<Rightarrow>
            (case cache_put env key value ttl_seconds ca w of
               (_, ca, w) \<Rightarrow> (Inr (Some value), ca, w))))"

definition invalidate ::
  "'w cache_env \<Rightarrow> string \<Rightarrow> cache_aside \<Rightarrow> 'w \<Rightarrow> bool \<times> cache_aside \<times> 'w" where
  "invalidate env key ca w =
     (let full_key = make_key ca key in
      guarded env False (\<lambda>ca w.
        case on_redis (redis_del (ce_redis env) full_key) ca w of
          (Inl e, ca, w) \<Rightarrow> (Inl e, ca, w)
        | (Inr _, ca, w) \<Rightarrow> (Inr True, ca, w)) ca w)"

definition cache_exists ::
  "'w cache_env \<Rightarrow> string \<Rightarrow> cache_aside \<Rightarrow> 'w \<Rightarrow> bool \<times> cache_aside \<times> 'w" where
  "cache_exists env key ca w =
     (let full_key = make_key ca key in
      guarded env False (\<lambda>ca w.
        case on_redis (redis_exists (ce_redis env) full_key) ca w of
          (Inl e, ca, w) \<Rightarrow> (Inl e, ca, w)
        | (Inr n, ca, w) \<Rightarrow> (Inr (n = 1), ca, w)) ca w)"

definition cache_version ::
  "'w cache_env \<Rightarrow> string \<Rightarrow> cache_aside \<Rightarrow> 'w \<Rightarrow> string option \<times> cache_aside \<times> 'w" where
  "cache_version env key ca w =
     (let vkey = version_key ca key in
      guarded env None (\<lambda>ca w.
        case on_redis (redis_get (ce_redis env) vkey) ca w of
          (Inl e, ca, w) \<Rightarrow> (Inl e, ca, w)
        | (Inr v, ca, w) \<Rightarrow> (Inr (Some (if v = [] then ''0'' else v)), ca, w)) ca w)"

text \<open>Commands sent on \<open>redis_.ctx()\<close> without the check of the connection's own commands.\<close>

definition raw_command ::
  "'w cache_env \<Rightarrow> string list \<Rightarrow> cache_aside \<Rightarrow> 'w \<Rightarrow> redis_reply option \<times> cache_aside \<times> 'w" where
  "raw_command env argv ca w =
     (case redis_command (ce_redis env) argv (ca_redis ca) w of
        (r, c, w) \<Rightarrow> (r, ca\<lparr>ca_redis := c\<rparr>, w))"

definition put_if_version ::
  "'w cache_env \<Rightarrow> string \<Rightarrow> string \<Rightarrow> string \<Rightarrow> int \<Rightarrow> cache_aside \<Rightarrow> 'w \<Rightarrow> bool \<times> cache_aside \<times> 'w" where
  "put_if_version env key expected_version value ttl_seconds ca w =
     (let full_key = make_key ca key;
          vkey = version_key ca key;
          ttl = dec_int (effective_ttl ca ttl_seconds)
      in case ensure_connected_locked env ca w of
           (False, ca, w) \<Rightarrow> (False, ca, w)
         | (True, ca, w) \<Rightarrow>
             (case raw_command env [''EVAL'', kPutIfVersion, ''2'', full_key, vkey,
                                    expected_version, value, ttl] ca w of
                (reply, ca, w) \<Rightarrow>
                  if is_error reply then (False, ca, w)
                  else if reply = Some (RInteger 0) then (False, ca, w)
                  else (True, ca, w)))"

definition invalidate_versioned ::
  "'w cache_env \<Rightarrow> string \<Rightarrow> cache_aside \<Rightarrow> 'w \<Rightarrow> bool \<times> cache_aside \<times> 'w" where
  "invalidate_versioned env key ca w =
     (let full_key = make_key ca key;
          vkey = version_key ca key;
          ttl = dec_int (version_ttl_seconds (ca_config ca))
      in case ensure_connected_locked env ca w of
           (False, ca, w) \<Rightarrow> (False, ca, w)
         | (True, ca, w) \<Rightarrow>
             (case raw_command env [''EVAL'', kInvalidateVersioned, ''2'', full_key, vkey, ttl] ca w of
                (reply, ca, w) \<Rightarrow> if is_error reply then (False, ca, w) else (True, ca, w)))"

subsection \<open>Scanning\<close>

text \<open>A reply's \<open>str\<close> is NULL unless it is a string, a status or an error.\<close>

definition reply_str :: "redis_reply \<Rightarrow> string option" where
  "reply_str r = (case r of RString s \<Rightarrow> Some (c_str s) | RStatus s \<Rightarrow> Some (c_str s)
     | RError s \<Rightarrow> Some (c_str s) | _ \<Rightarrow> None)"

fun delete_keys ::
  "'w cache_env \<Rightarrow> redis_reply list \<Rightarrow> cache_aside \<Rightarrow> 'w \<Rightarrow> (exn + unit) \<times> cache_aside \<times> 'w" where
  "delete_keys env [] ca w = (Inr (), ca, w)"
| "delete_keys env (k # ks) ca w = (case reply_str k of
      None \<Rightarrow> delete_keys env ks ca w
    | Some s \<Rightarrow> (case on_redis (redis_del (ce_redis env) s) ca w of
        (Inl e, ca, w) \<Rightarrow> (Inl e, ca, w)
      | (Inr _, ca, w) \<Rightarrow> delete_keys env ks ca w))"

text \<open>
  One iteration of the \<open>do\<close> loop: the next cursor, or \<open>None\<close> when the loop is left by its
  \<open>break\<close> or by an exception, which the function catches.
\<close>

definition scan_step ::
  "'w cache_env \<Rightarrow> string \<Rightarrow> int \<Rightarrow> cache_aside \<Rightarrow> 'w \<Rightarrow> int option \<times> cache_aside \<times> 'w" where
  "scan_step env pattern cursor ca w =
     (case raw_command env [''SCAN'', dec_int cursor, ''MATCH'', c_str pattern, ''COUNT'', ''100''] ca w of
        (Some (RArray (c # keys # _)), ca, w) \<Rightarrow>
          (case stoll (reply_cstr c) of
             Inl _ \<Rightarrow> (None, ca, w)
           | Inr (cursor', _) \<Rightarrow>
               (case delete_keys env (reply_elements keys) ca w of
                  (Inl _, ca, w) \<Rightarrow> (None, ca, w)
                | (Inr _, ca, w) \<Rightarrow> (Some cursor', ca, w)))
      | (_, ca, w) \<Rightarrow> (None, ca, w))"

text \<open>The loop ends when the server says so; \<open>None\<close> is a scan that never ends.\<close>

partial_function (option) scan_loop ::
  "'w cache_env \<Rightarrow> string \<Rightarrow> int \<Rightarrow> cache_aside \<Rightarrow> 'w \<Rightarrow> (cache_aside \<times> 'w) option" where
  "scan_loop env pattern cursor ca w =
     (case scan_step env pattern cursor ca w of
        (None, ca, w) \<Rightarrow> Some (ca, w)
      | (Some cursor', ca, w) \<Rightarrow>
          if cursor' = 0 then Some (ca, w) else scan_loop env pattern cursor' ca w)"

definition invalidate_prefix ::
  "'w cache_env \<Rightarrow> string \<Rightarrow> cache_aside \<Rightarrow> 'w \<Rightarrow> (cache_aside \<times> 'w) option" where
  "invalidate_prefix env prefix ca w =
     (let pattern = make_key ca prefix @ ''*''
      in case ensure_connected_locked env ca w of
           (False, ca, w) \<Rightarrow> Some (ca, w)
         | (True, ca, w) \<Rightarrow> scan_loop env pattern 0 ca w)"

section \<open>Lemmas\<close>

lemma on_redis_config:
  assumes "connection_op op"
  shows "on_redis op ca w = (r, ca', w') \<Longrightarrow> ca_config ca' = ca_config ca \<and> next_reconnect ca' = next_reconnect ca"
  by (auto simp: on_redis_def split: prod.splits)

lemma ensure_connected_config:
  "ensure_connected_locked env ca w = (b, ca', w') \<Longrightarrow> ca_config ca' = ca_config ca"
  by (auto simp: ensure_connected_locked_def Let_def split: if_splits prod.splits sum.splits)

text \<open>During the back-off after a failed reconnection nothing is sent.\<close>

lemma ensure_backoff:
  "\<not> is_connected (ca_redis ca) \<Longrightarrow> ce_now env w < next_reconnect ca \<Longrightarrow>
     ensure_connected_locked env ca w = (False, ca, w)"
  by (simp add: ensure_connected_locked_def)

lemma guarded_backoff:
  "\<not> is_connected (ca_redis ca) \<Longrightarrow> ce_now env w < next_reconnect ca \<Longrightarrow>
     guarded env dflt body ca w = (dflt, ca, w)"
  by (simp add: guarded_def ensure_backoff)

lemma reconnect_select_rejected:
  assumes "ctx c = None" "rd_password (rd_config c) = []" "rd_db (rd_config c) \<noteq> 0"
    and "hi_connect api (c_str (rd_host (rd_config c))) (rd_port (rd_config c))
           (ms_timeval (connect_timeout_ms (rd_config c))) w = (Some x, w1)" "rc_err x = 0"
    and "hi_set_timeout api x (ms_timeval (command_timeout_ms (rd_config c))) w1 = (x2, w2)"
    and "hi_command api x2 [''SELECT'', dec_int (rd_db (rd_config c))] w2 = (Some (RError m), x3, w3)"
  shows "\<exists>e. reconnect api c w = (Inl e, c\<lparr>ctx := Some x3\<rparr>, w3)"
  using assms
  by (simp add: reconnect_def free_ctx_def apply_timeouts_def redis_authenticate_def select_db_def
      redis_command_def is_error_def Let_def)

section \<open>Properties\<close>

text \<open>
  Back-off: a reconnection that fails leaves the cache in a state in which, as long as its
  connection is closed and for a whole second of the clock, every operation answers at once with its default
  (a miss, no version, nothing stored or invalidated), sends nothing and changes nothing.
\<close>

theorem reconnect_backoff:
  assumes "ensure_connected_locked env ca0 w0 = (False, ca, w1)"
    and "next_reconnect ca0 \<le> ce_now env w0"
    and "\<not> is_connected (ca_redis ca)" "ce_now env w < ce_now env w0 + 1000000000"
  shows "cache_get env key ca w = (None, ca, w) \<and> cache_version env key ca w = (None, ca, w)
    \<and> cache_put env key val ttl ca w = (False, ca, w) \<and> invalidate env key ca w = (False, ca, w)
    \<and> cache_exists env key ca w = (False, ca, w)
    \<and> put_if_version env key v val ttl ca w = (False, ca, w)
    \<and> invalidate_versioned env key ca w = (False, ca, w)
    \<and> invalidate_prefix env key ca w = Some (ca, w)"
proof -
  have "next_reconnect ca = ce_now env w0 + 1000000000"
    using assms(1,2)
    by (auto simp: ensure_connected_locked_def kReconnectBackoff_def Let_def
        split: if_splits prod.splits sum.splits)
  then have b: "ce_now env w < next_reconnect ca" using assms(4) by simp
  note e = ensure_backoff [OF assms(3) b] and g = guarded_backoff [OF assms(3) b]
  show ?thesis
    by (simp add: cache_get_def cache_version_def cache_put_def invalidate_def cache_exists_def
        put_if_version_def invalidate_versioned_def invalidate_prefix_def e g Let_def)
qed

text \<open>A hiredis that cannot connect, and one whose server has no database but 0.\<close>

definition unreachable_env :: "int cache_env" where
  "unreachable_env = \<lparr>
     ce_redis = \<lparr>hi_connect = (\<lambda>_ _ _ w. (None, w)), hi_set_timeout = (\<lambda>x _ w. (x, w)),
                 hi_command = (\<lambda>x _ w. (None, x\<lparr>rc_err := 1\<rparr>, w)), hi_free = (\<lambda>_ w. w)\<rparr>,
     ce_now = (\<lambda>w. w)\<rparr>"

definition open_context :: redis_context where
  "open_context = \<lparr>rc_handle = 1, rc_err = 0, rc_errstr = []\<rparr>"

definition one_db_env :: "int cache_env" where
  "one_db_env = \<lparr>
     ce_redis = \<lparr>hi_connect = (\<lambda>_ _ _ w. (Some open_context, w)), hi_set_timeout = (\<lambda>x _ w. (x, w)),
                 hi_command = (\<lambda>x argv w. (Some (if hd argv = ''SELECT'' then RError ''ERR DB index is out of range''
                                                 else RNil), x, w)),
                 hi_free = (\<lambda>_ w. w)\<rparr>,
     ce_now = (\<lambda>w. w)\<rparr>"

definition closed_cache :: "int \<Rightarrow> cache_aside" where
  "closed_cache db = new_cache_aside \<lparr>ctx = None, rd_config = default_redis_config\<lparr>rd_db := db\<rparr>\<rparr>
     default_cache_config"

lemma unreachable_ensure:
  "\<exists>ca. ensure_connected_locked unreachable_env (closed_cache 0) 0 = (False, ca, 0)
     \<and> \<not> is_connected (ca_redis ca)"
  by (simp add: ensure_connected_locked_def unreachable_env_def closed_cache_def new_cache_aside_def
      is_connected_def reconnect_def free_ctx_def Let_def)

theorem reconnect_backoff_witness:
  "\<exists>ca. cache_get unreachable_env ''k'' ca 999999999 = (None, ca, 999999999)"
proof -
  obtain ca where "ensure_connected_locked unreachable_env (closed_cache 0) 0 = (False, ca, 0)"
      "\<not> is_connected (ca_redis ca)"
    using unreachable_ensure by blast
  then show ?thesis
    using reconnect_backoff [of unreachable_env "closed_cache 0" 0 ca 0 999999999 "''k''"]
    by (auto simp: closed_cache_def new_cache_aside_def unreachable_env_def)
qed

text \<open>
  C35. A half-open connection: when the server accepts the connection but rejects the \<open>SELECT\<close> of the
  configured database, the operation reports failure, but the connection stays open, and every
  later operation takes it for usable without any further set-up and works on the server's
  database 0. The same happens with a rejected \<open>AUTH\<close>: the reconnection is never tried again.
\<close>

theorem rejected_select_stays_open:
  assumes "ctx (ca_redis ca) = None" "next_reconnect ca \<le> ce_now env w"
    and "rd_password (rd_config (ca_redis ca)) = []" "rd_db (rd_config (ca_redis ca)) \<noteq> 0"
    and "hi_connect (ce_redis env) (c_str (rd_host (rd_config (ca_redis ca)))) (rd_port (rd_config (ca_redis ca)))
           (ms_timeval (connect_timeout_ms (rd_config (ca_redis ca)))) w = (Some x, w1)" "rc_err x = 0"
    and "hi_set_timeout (ce_redis env) x (ms_timeval (command_timeout_ms (rd_config (ca_redis ca)))) w1 = (x2, w2)"
    and "hi_command (ce_redis env) x2 [''SELECT'', dec_int (rd_db (rd_config (ca_redis ca)))] w2
           = (Some (RError m), x3, w3)" "rc_err x3 = 0"
  shows "\<exists>ca'. ensure_connected_locked env ca w = (False, ca', w3)
    \<and> (\<forall>w. ensure_connected_locked env ca' w = (True, ca', w))
    \<and> (\<forall>key w ch cs x4 w4.
         hi_command (ce_redis env) x3 [''GET'', c_str (make_key ca key)] w
           = (Some (RString (ch # cs)), x4, w4)
         \<longrightarrow> fst (cache_get env key ca' w) = Some (ch # cs))"
proof -
  have nc: "\<not> is_connected (ca_redis ca)" using assms(1) by (simp add: is_connected_def)
  obtain e where r: "reconnect (ce_redis env) (ca_redis ca) w
      = (Inl e, (ca_redis ca)\<lparr>ctx := Some x3\<rparr>, w3)"
    using reconnect_select_rejected [OF assms(1,3-8)] by blast
  let ?ca = "ca\<lparr>ca_redis := (ca_redis ca)\<lparr>ctx := Some x3\<rparr>,
    next_reconnect := ce_now env w + kReconnectBackoff\<rparr>"
  have one: "ensure_connected_locked env ca w = (False, ?ca, w3)"
    using nc assms(2) r by (simp add: ensure_connected_locked_def Let_def)
  have conn: "is_connected (ca_redis ?ca)" using assms(9) by (simp add: is_connected_def)
  then have two: "ensure_connected_locked env ?ca w = (True, ?ca, w)" for w
    by (simp add: ensure_connected_locked_def)
  have three: "cache_get env key ?ca w
      = (Some (ch # cs), ?ca\<lparr>ca_redis := (ca_redis ?ca)\<lparr>ctx := Some x4\<rparr>\<rparr>, w4)"
    if "hi_command (ce_redis env) x3 [''GET'', c_str (make_key ca key)] w = (Some (RString (ch # cs)), x4, w4)"
    for key w ch cs x4 w4
    using that two [of w] conn
    by (simp add: cache_get_def guarded_def on_redis_def redis_get_def run_command_def make_key_def
        check_connection_def redis_command_def string_or_empty_def reply_string_def Let_def)
  show ?thesis
    by (intro exI [of _ ?ca] conjI allI impI one two) (simp add: three)
qed

theorem rejected_select_stays_open_witness:
  "\<exists>ca'. ensure_connected_locked one_db_env (closed_cache 3) 0 = (False, ca', 0)
     \<and> ensure_connected_locked one_db_env ca' 5 = (True, ca', 5)"
  using rejected_select_stays_open [of "closed_cache 3" one_db_env 0 open_context 0 open_context 0
      "''ERR DB index is out of range''" open_context 0]
  by (auto simp: closed_cache_def new_cache_aside_def one_db_env_def open_context_def default_redis_config_def)

end
