(* ===== verification/Service.thy ===== *)
theory Service
  imports Repository CacheAside
begin

text \<open>
  The service, \<open>include/corvus/resources/resource_service.h\<close> and
  \<open>src/resources/resource_service.cpp\<close>: the repository behind the cache. The service keeps no state
  of its own; the cache is threaded through, and repository and cache act on one world. A
  \<open>pqxx::unique_violation\<close> is the exception \<open>UniqueViolation\<close>.
\<close>

record ('c, 'w) service_env =
  se_pg :: "('c, 'w) pg_client"
  se_json :: json_lib
  se_cache :: "'w cache_env"

type_synonym ('w, 'a) sop = "cache_aside \<Rightarrow> 'w \<Rightarrow> (exn + 'a) \<times> cache_aside \<times> 'w"

definition kResourceCacheTtlSeconds :: int where
  "kResourceCacheTtlSeconds = 60"

definition cache_key :: "string \<Rightarrow> string \<Rightarrow> string" where
  "cache_key client_id rid = ''resource:'' @ client_id @ '':'' @ rid"

definition already_exists :: "string \<Rightarrow> exn" where
  "already_exists name = ResourceAlreadyExists (''A resource named '' @ [CHR 0x27] @ name @ [CHR 0x27] @ '' already exists'')"

definition not_found :: "string \<Rightarrow> exn" where
  "not_found rid = ResourceNotFound (''Resource not found: '' @ rid)"

definition service_create ::
  "('c, 'w) service_env \<Rightarrow> string \<Rightarrow> create_request \<Rightarrow> ('w, resource) sop" where
  "service_create env client_id req ca w =
     (case repo_create (se_pg env) (se_json env) client_id req w of
        (Inl (UniqueViolation _), w) \<Rightarrow> (Inl (already_exists (cq_name req)), ca, w)
      | (r, w) \<Rightarrow> (r, ca, w))"

definition service_get ::
  "('c, 'w) service_env \<Rightarrow> string \<Rightarrow> string \<Rightarrow> ('w, resource) sop" where
  "service_get env client_id rid ca w =
     (let key = cache_key client_id rid in
      case cache_get (se_cache env) key ca w of
        (Some cached, ca, w) \<Rightarrow> (sum_bind (json_parse (se_json env) cached) resource_from_json, ca, w)
      | (None, ca, w) \<Rightarrow>
          (case cache_version (se_cache env) key ca w of (version, ca, w) \<Rightarrow>
            (case repo_find_by_id (se_pg env) (se_json env) client_id rid w of
               (Inl e, w) \<Rightarrow> (Inl e, ca, w)
             | (Inr None, w) \<Rightarrow> (Inl (not_found rid), ca, w)
             | (Inr (Some found), w) \<Rightarrow>
                 (case version of
                    None \<Rightarrow> (Inr found, ca, w)
                  | Some v \<Rightarrow> (case json_dump (se_json env) (resource_to_json found) of
                      Inl e \<Rightarrow> (Inl e, ca, w)
                    | Inr text \<Rightarrow>
                        (case put_if_version (se_cache env) key v text kResourceCacheTtlSeconds ca w of
                           (_, ca, w) \<Rightarrow> (Inr found, ca, w)))))))"

definition service_list ::
  "('c, 'w) service_env \<Rightarrow> string \<Rightarrow> list_filter \<Rightarrow> ('w, list_result) sop" where
  "service_list env client_id f ca w =
     (case repo_list (se_pg env) (se_json env) client_id f w of (r, w) \<Rightarrow> (r, ca, w))"

definition service_update ::
  "('c, 'w) service_env \<Rightarrow> string \<Rightarrow> string \<Rightarrow> update_request \<Rightarrow> ('w, resource) sop" where
  "service_update env client_id rid req ca w =
     (case repo_update (se_pg env) (se_json env) client_id rid req w of
        (Inl (UniqueViolation _), w) \<Rightarrow>
          (Inl (case uq_name req of
              Some n \<Rightarrow> already_exists n
            | None \<Rightarrow> ResourceAlreadyExists ''Update would violate a uniqueness constraint''), ca, w)
      | (Inl e, w) \<Rightarrow> (Inl e, ca, w)
      | (Inr None, w) \<Rightarrow> (Inl (not_found rid), ca, w)
      | (Inr (Some updated), w) \<Rightarrow>
          (case invalidate_versioned (se_cache env) (cache_key client_id rid) ca w of
             (_, ca, w) \<Rightarrow> (Inr updated, ca, w)))"

definition service_remove ::
  "('c, 'w) service_env \<Rightarrow> string \<Rightarrow> string \<Rightarrow> ('w, unit) sop" where
  "service_remove env client_id rid ca w =
     (case repo_remove (se_pg env) client_id rid w of
        (Inl e, w) \<Rightarrow> (Inl e, ca, w)
      | (Inr deleted, w) \<Rightarrow>
          if \<not> deleted then (Inl (not_found rid), ca, w)
          else (case invalidate_versioned (se_cache env) (cache_key client_id rid) ca w of
                  (_, ca, w) \<Rightarrow> (Inr (), ca, w)))"

section \<open>Properties\<close>

text \<open>
  Redis is optional: while the cache is in its back-off, every operation of the service answers
  exactly what the repository answers (a missing row being \<open>ResourceNotFound\<close>), committed updates and
  deletions succeed, and nothing but the repository touches the world.
\<close>

theorem service_degrades:
  assumes "\<not> is_connected (ca_redis ca)" "ce_now (se_cache env) w < next_reconnect ca"
    and "ce_now (se_cache env) (snd (repo_update (se_pg env) (se_json env) client_id rid req w)) < next_reconnect ca"
    and "ce_now (se_cache env) (snd (repo_remove (se_pg env) client_id rid w)) < next_reconnect ca"
  shows "service_get env client_id rid ca w =
      (case repo_find_by_id (se_pg env) (se_json env) client_id rid w of
         (Inl e, w) \<Rightarrow> (Inl e, ca, w)
       | (Inr None, w) \<Rightarrow> (Inl (not_found rid), ca, w)
       | (Inr (Some r), w) \<Rightarrow> (Inr r, ca, w))
    \<and> (case repo_update (se_pg env) (se_json env) client_id rid req w of
         (Inr (Some r), w') \<Rightarrow> service_update env client_id rid req ca w = (Inr r, ca, w')
       | (Inr None, w') \<Rightarrow> service_update env client_id rid req ca w = (Inl (not_found rid), ca, w')
       | (Inl e, w') \<Rightarrow> \<exists>e'. service_update env client_id rid req ca w = (Inl e', ca, w')
           \<and> (e' = e \<or> (\<exists>m n. e = UniqueViolation m \<and> e' = ResourceAlreadyExists n)))
    \<and> service_remove env client_id rid ca w =
      (case repo_remove (se_pg env) client_id rid w of
         (Inl e, w) \<Rightarrow> (Inl e, ca, w)
       | (Inr deleted, w) \<Rightarrow> ((if deleted then Inr () else Inl (not_found rid)), ca, w))"
proof -
  note b = guarded_backoff [OF assms(1)]
  have g: "cache_get (se_cache env) k ca w = (None, ca, w)" "cache_version (se_cache env) k ca w = (None, ca, w)" for k
    unfolding cache_get_def cache_version_def Let_def by (rule b [OF assms(2)])+
  have i: "ce_now (se_cache env) w' < next_reconnect ca \<Longrightarrow>
      invalidate_versioned (se_cache env) k ca w' = (False, ca, w')" for k w'
    unfolding invalidate_versioned_def Let_def by (subst ensure_backoff [OF assms(1)]) simp_all
  have one: "service_get env client_id rid ca w =
      (case repo_find_by_id (se_pg env) (se_json env) client_id rid w of
         (Inl e, w) \<Rightarrow> (Inl e, ca, w)
       | (Inr None, w) \<Rightarrow> (Inl (not_found rid), ca, w)
       | (Inr (Some r), w) \<Rightarrow> (Inr r, ca, w))"
    by (simp add: service_get_def g Let_def split: prod.split sum.split option.split)
  have three: "service_remove env client_id rid ca w =
      (case repo_remove (se_pg env) client_id rid w of
         (Inl e, w) \<Rightarrow> (Inl e, ca, w)
       | (Inr deleted, w) \<Rightarrow> ((if deleted then Inr () else Inl (not_found rid)), ca, w))"
  proof -
    obtain x w' where x: "repo_remove (se_pg env) client_id rid w = (x, w')" by (rule prod.exhaust)
    then show ?thesis using assms(4) by (cases x) (simp_all add: service_remove_def i)
  qed
  obtain r w' where u: "repo_update (se_pg env) (se_json env) client_id rid req w = (r, w')"
    by (rule prod.exhaust)
  have two: "case r of
         Inr (Some r) \<Rightarrow> service_update env client_id rid req ca w = (Inr r, ca, w')
       | Inr None \<Rightarrow> service_update env client_id rid req ca w = (Inl (not_found rid), ca, w')
       | Inl e \<Rightarrow> \<exists>e'. service_update env client_id rid req ca w = (Inl e', ca, w')
           \<and> (e' = e \<or> (\<exists>m n. e = UniqueViolation m \<and> e' = ResourceAlreadyExists n))"
  proof (cases r)
    case (Inl e)
    then show ?thesis
      by (cases e) (simp_all add: service_update_def u already_exists_def split: option.split)
  next
    case (Inr x)
    then show ?thesis using assms(3) by (cases x) (simp_all add: service_update_def u i)
  qed
  from one two three show ?thesis by (simp add: u split: sum.splits option.splits)
qed

definition demo_service :: "(unit, unit) service_env" where
  "demo_service = \<lparr>se_pg = demo_pg, se_json = demo_json,
     se_cache = \<lparr>ce_redis = \<lparr>hi_connect = (\<lambda>_ _ _ w. (None, w)), hi_set_timeout = (\<lambda>x _ w. (x, w)),
        hi_command = (\<lambda>x _ w. (None, x\<lparr>rc_err := 1\<rparr>, w)), hi_free = (\<lambda>_ w. w)\<rparr>, ce_now = (\<lambda>_. 5)\<rparr>\<rparr>"

theorem service_degrades_witness:
  "service_get demo_service ''c'' ''1'' ((closed_cache 0)\<lparr>next_reconnect := 9\<rparr>) ()
     = (Inl (not_found ''1''), (closed_cache 0)\<lparr>next_reconnect := 9\<rparr>, ())"
proof -
  let ?ca = "(closed_cache 0)\<lparr>next_reconnect := 9\<rparr>"
  have "\<not> is_connected (ca_redis ?ca)" "ce_now (se_cache demo_service) w < next_reconnect ?ca" for w
    by (simp_all add: closed_cache_def new_cache_aside_def is_connected_def demo_service_def)
  note this(1) this(2) this(2) this(2)
  from conjunct1 [OF service_degrades [OF this]] show ?thesis
    by (simp add: repo_find_by_id_def in_transaction_def demo_service_def demo_pg_def optional_row_def)
qed

text \<open>
  C30. A hit is the row: when the entry is the text that \<open>get\<close> would store for a resource, and the library
  parses what it prints, a hit returns exactly that resource, all eight members of it, without
  asking the database; and a miss that finds the row stores just that text, under the version read
  before the row.
\<close>

theorem cached_read_is_row:
  assumes "json_dump (se_json env) (resource_to_json r) = Inr text"
    and "json_parse (se_json env) text = Inr (resource_to_json r)"
  shows "(cache_get (se_cache env) (cache_key client_id rid) ca w = (Some text, ca1, w1) \<longrightarrow>
       service_get env client_id rid ca w = (Inr r, ca1, w1))
    \<and> (cache_get (se_cache env) (cache_key client_id rid) ca w = (None, ca1, w1)
       \<and> cache_version (se_cache env) (cache_key client_id rid) ca1 w1 = (Some v, ca2, w2)
       \<and> repo_find_by_id (se_pg env) (se_json env) client_id rid w2 = (Inr (Some r), w3) \<longrightarrow>
       (\<exists>b ca3 w4. put_if_version (se_cache env) (cache_key client_id rid) v text 60 ca2 w3 = (b, ca3, w4)
          \<and> service_get env client_id rid ca w = (Inr r, ca3, w4)))"
proof (intro conjI impI)
  assume "cache_get (se_cache env) (cache_key client_id rid) ca w = (Some text, ca1, w1)"
  then show "service_get env client_id rid ca w = (Inr r, ca1, w1)"
    by (simp add: service_get_def assms resource_round_trip Let_def)
next
  assume a: "cache_get (se_cache env) (cache_key client_id rid) ca w = (None, ca1, w1)
       \<and> cache_version (se_cache env) (cache_key client_id rid) ca1 w1 = (Some v, ca2, w2)
       \<and> repo_find_by_id (se_pg env) (se_json env) client_id rid w2 = (Inr (Some r), w3)"
  obtain b ca3 w4 where p: "put_if_version (se_cache env) (cache_key client_id rid) v text 60 ca2 w3 = (b, ca3, w4)"
    by (rule prod_cases3)
  show "\<exists>b ca3 w4. put_if_version (se_cache env) (cache_key client_id rid) v text 60 ca2 w3 = (b, ca3, w4)
          \<and> service_get env client_id rid ca w = (Inr r, ca3, w4)"
  proof -
    have "service_get env client_id rid ca w = (Inr r, ca3, w4)"
      using a p by (simp add: service_get_def assms kResourceCacheTtlSeconds_def Let_def)
    with p show ?thesis by blast
  qed
qed

text \<open>A JSON library that knows one row, and a Redis that has its text.\<close>

definition cached_row :: resource where
  "cached_row = \<lparr>rs_id = ''1'', rs_client_id = ''c'', rs_kind = ''k'', rs_name = ''n'', rs_state = ''active'',
     rs_metadata = JsObject [], rs_created_at = ''t'', rs_updated_at = ''t''\<rparr>"

definition demo_cached :: "(unit, unit) service_env" where
  "demo_cached = demo_service
     \<lparr>se_json := \<lparr>json_parse = (\<lambda>_. Inr (resource_to_json cached_row)), json_dump = (\<lambda>_. Inr ''row'')\<rparr>,
      se_cache := \<lparr>ce_redis = (ce_redis (se_cache demo_service))
          \<lparr>hi_connect := (\<lambda>_ _ _ w. (Some open_context, w)), hi_command := (\<lambda>x _ w. (Some (RString ''row''), x, w))\<rparr>,
        ce_now = (\<lambda>_. 5)\<rparr>\<rparr>"

theorem cached_read_is_row_witness:
  "fst (service_get demo_cached ''c'' ''1'' (closed_cache 0) ()) = Inr cached_row"
proof -
  have j: "json_dump (se_json demo_cached) (resource_to_json cached_row) = Inr ''row''"
    "json_parse (se_json demo_cached) ''row'' = Inr (resource_to_json cached_row)"
    by (simp_all add: demo_cached_def)
  obtain ca1 where "cache_get (se_cache demo_cached) (cache_key ''c'' ''1'') (closed_cache 0) () = (Some ''row'', ca1, ())"
    by (simp add: cache_get_def guarded_def ensure_connected_locked_def demo_cached_def demo_service_def closed_cache_def
        new_cache_aside_def is_connected_def reconnect_def free_ctx_def apply_timeouts_def redis_authenticate_def
        select_db_def default_redis_config_def open_context_def on_redis_def redis_get_def run_command_def redis_command_def
        string_or_empty_def check_connection_def reply_string_def is_connected_def is_error_def c_str_def Let_def)
  with cached_read_is_row [OF j] have "service_get demo_cached ''c'' ''1'' (closed_cache 0) () = (Inr cached_row, ca1, ())"
    by blast
  then show ?thesis by simp
qed

end
