(* ===== verification/Jwt.thy ===== *)
theory Jwt
  imports Prelude
begin

text \<open>
  The token validator, \<open>include/corvus/auth/jwt_validator.h\<close> and \<open>src/auth/jwt_validator.cpp\<close>.
  The library jwt-cpp is the parameter \<open>jwt_lib\<close>: the RS256 algorithm built from a PEM,
  decoding, the presence of \<open>exp\<close>, verification with one allowed algorithm and a required type
  at a given time, and the claims, each of which may throw. An optional claim is \<open>None\<close> when the
  token does not have it, and otherwise the result of reading it as a string.
\<close>

record claims =
  cl_subject :: string
  cl_issuer :: string
  cl_client_id :: "string option"
  cl_scope :: string

text \<open>
  The three groups of exceptions that \<open>validate\<close> tells apart: its own
  \<open>JwtValidationError\<close>, \<open>jwt::error::token_verification_exception\<close>, and every other one.
\<close>

datatype jwt_exn = OwnValidation string | TokenVerification string | OtherJwt string

record ('alg, 'tok) jwt_lib =
  jl_rs256 :: "string \<Rightarrow> jwt_exn + 'alg"
  jl_decode :: "string \<Rightarrow> jwt_exn + 'tok"
  jl_has_expires_at :: "'tok \<Rightarrow> bool"
  jl_verify :: "'alg \<Rightarrow> string \<Rightarrow> int \<Rightarrow> 'tok \<Rightarrow> jwt_exn + unit"
  jl_subject :: "'tok \<Rightarrow> (jwt_exn + string) option"
  jl_issuer :: "'tok \<Rightarrow> (jwt_exn + string) option"
  jl_payload_claim :: "'tok \<Rightarrow> string \<Rightarrow> (jwt_exn + string) option"

fun jwt_what :: "jwt_exn \<Rightarrow> string" where
  "jwt_what (OwnValidation m) = m"
| "jwt_what (TokenVerification m) = m"
| "jwt_what (OtherJwt m) = m"

section \<open>Construction\<close>

definition verify_pem :: "('alg, 'tok) jwt_lib \<Rightarrow> string \<Rightarrow> exn + unit" where
  "verify_pem lib pem = (case jl_rs256 lib pem of
      Inr _ \<Rightarrow> Inr ()
    | Inl e \<Rightarrow> Inl (JwtConfigError (''Invalid RS256 public key PEM: '' @ jwt_what e)))"

text \<open>A validator is its public key.\<close>

record jwt_validator =
  public_key_pem :: string

definition new_jwt_validator :: "('alg, 'tok) jwt_lib \<Rightarrow> string \<Rightarrow> exn + jwt_validator" where
  "new_jwt_validator lib pem =
     sum_bind (verify_pem lib pem) (\<lambda>_. Inr \<lparr>public_key_pem = pem\<rparr>)"

definition jwt_validator_from_env ::
  "('alg, 'tok) jwt_lib \<Rightarrow> (string \<Rightarrow> string option) \<Rightarrow> exn + jwt_validator" where
  "jwt_validator_from_env lib env =
     (case env ''CORVUS_JWT_PUBLIC_KEY'' of
        None \<Rightarrow> Inl (JwtConfigError (''CORVUS_JWT_PUBLIC_KEY is not set. ''
                  @ ''Refusing to start without a JWT public key.''))
      | Some raw \<Rightarrow>
          if raw = []
          then Inl (JwtConfigError (''CORVUS_JWT_PUBLIC_KEY is not set. ''
                  @ ''Refusing to start without a JWT public key.''))
          else sum_bind (verify_pem lib raw) (\<lambda>_. Inr \<lparr>public_key_pem = raw\<rparr>))"

section \<open>Validation\<close>

definition opt_claim :: "'a \<Rightarrow> ('s \<Rightarrow> 'a) \<Rightarrow> (jwt_exn + 's) option \<Rightarrow> jwt_exn + 'a" where
  "opt_claim dflt f c = (case c of None \<Rightarrow> Inr dflt | Some r \<Rightarrow> sum_bind r (\<lambda>s. Inr (f s)))"

text \<open>The body of the \<open>try\<close> block.\<close>

definition validate_body ::
  "('alg, 'tok) jwt_lib \<Rightarrow> string \<Rightarrow> int \<Rightarrow> string \<Rightarrow> jwt_exn + claims" where
  "validate_body lib pem now token =
     sum_bind (jl_decode lib token) (\<lambda>decoded.
       if \<not> jl_has_expires_at lib decoded
       then Inl (OwnValidation ''Token is missing required 'exp' claim'')
       else sum_bind (jl_rs256 lib pem) (\<lambda>alg.
         sum_bind (jl_verify lib alg ''JWT'' now decoded) (\<lambda>_.
           sum_bind (opt_claim [] id (jl_subject lib decoded)) (\<lambda>sub.
             sum_bind (opt_claim [] id (jl_issuer lib decoded)) (\<lambda>iss.
               sum_bind (opt_claim None Some (jl_payload_claim lib decoded ''client_id'')) (\<lambda>cid.
                 sum_bind (opt_claim [] id (jl_payload_claim lib decoded ''scope'')) (\<lambda>sc.
                   Inr \<lparr>cl_subject = sub, cl_issuer = iss, cl_client_id = cid,
                        cl_scope = sc\<rparr>)))))))"

definition jwt_validate ::
  "('alg, 'tok) jwt_lib \<Rightarrow> jwt_validator \<Rightarrow> int \<Rightarrow> string \<Rightarrow> exn + claims" where
  "jwt_validate lib v now token =
     (case validate_body lib (public_key_pem v) now token of
        Inr c \<Rightarrow> Inr c
      | Inl (OwnValidation m) \<Rightarrow> Inl (JwtValidationError m)
      | Inl (TokenVerification m) \<Rightarrow> Inl (JwtValidationError m)
      | Inl (OtherJwt m) \<Rightarrow> Inl (JwtValidationError (''Token decode failed: '' @ m)))"

section \<open>Lemmas\<close>

lemma jwt_validate_errors: "jwt_validate lib v now token = Inl e \<Longrightarrow> \<exists>m. e = JwtValidationError m"
  by (auto simp: jwt_validate_def split: sum.splits jwt_exn.splits)

lemma opt_claim_Inr:
  "opt_claim d f c = Inr x \<longleftrightarrow> (case c of None \<Rightarrow> x = d | Some r \<Rightarrow> \<exists>s. r = Inr s \<and> x = f s)"
  by (auto simp: opt_claim_def sum_bind_Inr_iff split: option.splits)

lemma jwt_validate_Inr:
  "jwt_validate lib v now token = Inr c \<longleftrightarrow> validate_body lib (public_key_pem v) now token = Inr c"
  by (auto simp: jwt_validate_def split: sum.splits jwt_exn.splits)

lemma validate_body_Inr:
  "validate_body lib pem now token = Inr c \<longleftrightarrow>
     (\<exists>d alg. jl_decode lib token = Inr d \<and> jl_has_expires_at lib d \<and> jl_rs256 lib pem = Inr alg
       \<and> jl_verify lib alg ''JWT'' now d = Inr ()
       \<and> opt_claim [] id (jl_subject lib d) = Inr (cl_subject c)
       \<and> opt_claim [] id (jl_issuer lib d) = Inr (cl_issuer c)
       \<and> opt_claim None Some (jl_payload_claim lib d ''client_id'') = Inr (cl_client_id c)
       \<and> opt_claim [] id (jl_payload_claim lib d ''scope'') = Inr (cl_scope c))"
  by (cases c) (auto simp: validate_body_def sum_bind_Inr_iff split: if_splits)

section \<open>Properties\<close>

text \<open>
  C25. The validator returns claims exactly for a token that decodes, carries an expiry, and
  passes verification with the configured key as RS256 and type JWT at the current time; the
  claims are those of that very token, a \<open>client_id\<close> only if the token has one. Whatever the
  library throws, the caller sees a \<open>JwtValidationError\<close> and nothing else.
\<close>

theorem jwt_validate_exact:
  "(jwt_validate lib v now token = Inr c \<longleftrightarrow>
     (\<exists>d alg. jl_decode lib token = Inr d \<and> jl_has_expires_at lib d
       \<and> jl_rs256 lib (public_key_pem v) = Inr alg \<and> jl_verify lib alg ''JWT'' now d = Inr ()
       \<and> (case jl_subject lib d of None \<Rightarrow> cl_subject c = [] | Some r \<Rightarrow> r = Inr (cl_subject c))
       \<and> (case jl_issuer lib d of None \<Rightarrow> cl_issuer c = [] | Some r \<Rightarrow> r = Inr (cl_issuer c))
       \<and> (case jl_payload_claim lib d ''client_id'' of
            None \<Rightarrow> cl_client_id c = None
          | Some r \<Rightarrow> \<exists>s. r = Inr s \<and> cl_client_id c = Some s)
       \<and> (case jl_payload_claim lib d ''scope'' of
            None \<Rightarrow> cl_scope c = [] | Some r \<Rightarrow> r = Inr (cl_scope c))))
   \<and> (case jwt_validate lib v now token of Inr _ \<Rightarrow> True | Inl e \<Rightarrow> \<exists>m. e = JwtValidationError m)"
proof
  show "case jwt_validate lib v now token of Inr _ \<Rightarrow> True | Inl e \<Rightarrow> \<exists>m. e = JwtValidationError m"
    by (auto split: sum.split dest: jwt_validate_errors)
  have one: "opt_claim [] id r = Inr x \<longleftrightarrow> (case r of None \<Rightarrow> x = [] | Some r \<Rightarrow> r = Inr x)"
    for r :: "(jwt_exn + string) option" and x
    by (auto simp: opt_claim_Inr split: option.split)
  have two: "opt_claim None Some r = Inr x
      \<longleftrightarrow> (case r of None \<Rightarrow> x = None | Some r \<Rightarrow> \<exists>s. r = Inr s \<and> x = Some s)"
    for r :: "(jwt_exn + string) option" and x
    by (auto simp: opt_claim_Inr split: option.split)
  show "jwt_validate lib v now token = Inr c \<longleftrightarrow>
     (\<exists>d alg. jl_decode lib token = Inr d \<and> jl_has_expires_at lib d
       \<and> jl_rs256 lib (public_key_pem v) = Inr alg \<and> jl_verify lib alg ''JWT'' now d = Inr ()
       \<and> (case jl_subject lib d of None \<Rightarrow> cl_subject c = [] | Some r \<Rightarrow> r = Inr (cl_subject c))
       \<and> (case jl_issuer lib d of None \<Rightarrow> cl_issuer c = [] | Some r \<Rightarrow> r = Inr (cl_issuer c))
       \<and> (case jl_payload_claim lib d ''client_id'' of
            None \<Rightarrow> cl_client_id c = None
          | Some r \<Rightarrow> \<exists>s. r = Inr s \<and> cl_client_id c = Some s)
       \<and> (case jl_payload_claim lib d ''scope'' of
            None \<Rightarrow> cl_scope c = [] | Some r \<Rightarrow> r = Inr (cl_scope c)))"
    unfolding jwt_validate_Inr validate_body_Inr one two ..
qed

end
