(* ===== verification/Api.thy ===== *)
theory Api
  imports Prelude
begin

text \<open>
  The response envelope and the request identifiers: \<open>include/corvus/api/*.h\<close> and
  \<open>src/api/*.cpp\<close>, with the HTTP request and response objects of the web framework reduced to
  the parts that the sources read and write. A \<open>Json::Value\<close> is a \<open>jvalue\<close> whose objects are
  association lists with distinct keys (the order of members is the writer's). The time
  and the random numbers that a function draws are its arguments.
\<close>

section \<open>JSON values of the envelope\<close>

datatype jvalue =
    JNull
  | JBool bool
  | JInt int
  | JReal rat
  | JString string
  | JArray "jvalue list"
  | JObject "(string \<times> jvalue) list"

text \<open>\<open>obj[key] = v\<close>: a null value becomes an object first. The sources index nothing else.\<close>

fun jset :: "string \<Rightarrow> jvalue \<Rightarrow> jvalue \<Rightarrow> jvalue" where
  "jset k v (JObject ms) = JObject (AList.update k v ms)"
| "jset k v JNull = JObject [(k, v)]"
| "jset k v j = j"

fun jget :: "jvalue \<Rightarrow> string \<Rightarrow> jvalue option" where
  "jget (JObject ms) k = map_of ms k"
| "jget j k = None"

text \<open>\<open>Json::Value::empty()\<close>.\<close>

fun jempty :: "jvalue \<Rightarrow> bool" where
  "jempty JNull = True"
| "jempty (JArray xs) = (xs = [])"
| "jempty (JObject ms) = (ms = [])"
| "jempty j = False"

lemma jget_jset [simp]:
  "jget (jset k v (JObject ms)) k' = (if k' = k then Some v else jget (JObject ms) k')"
  by simp

section \<open>Error codes\<close>

datatype error_code =
    EC_internal_error
  | EC_not_found
  | EC_bad_request
  | EC_unauthorized
  | EC_forbidden
  | EC_conflict
  | EC_too_many_requests
  | EC_unprocessable_entity
  | EC_resource_not_found
  | EC_resource_already_exists
  | EC_resource_invalid_state
  | EC_quota_exceeded
  | EC_policy_denied
  | EC_payload_too_large
  | EC_service_unavailable

fun to_string :: "error_code \<Rightarrow> string" where
  "to_string EC_internal_error = ''INTERNAL_ERROR''"
| "to_string EC_not_found = ''NOT_FOUND''"
| "to_string EC_bad_request = ''BAD_REQUEST''"
| "to_string EC_unauthorized = ''UNAUTHORIZED''"
| "to_string EC_forbidden = ''FORBIDDEN''"
| "to_string EC_conflict = ''CONFLICT''"
| "to_string EC_too_many_requests = ''TOO_MANY_REQUESTS''"
| "to_string EC_unprocessable_entity = ''UNPROCESSABLE_ENTITY''"
| "to_string EC_resource_not_found = ''RESOURCE_NOT_FOUND''"
| "to_string EC_resource_already_exists = ''RESOURCE_ALREADY_EXISTS''"
| "to_string EC_resource_invalid_state = ''RESOURCE_INVALID_STATE''"
| "to_string EC_quota_exceeded = ''QUOTA_EXCEEDED''"
| "to_string EC_policy_denied = ''POLICY_DENIED''"
| "to_string EC_payload_too_large = ''PAYLOAD_TOO_LARGE''"
| "to_string EC_service_unavailable = ''SERVICE_UNAVAILABLE''"

fun http_status :: "error_code \<Rightarrow> nat" where
  "http_status EC_bad_request = 400"
| "http_status EC_unauthorized = 401"
| "http_status EC_forbidden = 403"
| "http_status EC_policy_denied = 403"
| "http_status EC_not_found = 404"
| "http_status EC_resource_not_found = 404"
| "http_status EC_conflict = 409"
| "http_status EC_resource_already_exists = 409"
| "http_status EC_too_many_requests = 429"
| "http_status EC_unprocessable_entity = 422"
| "http_status EC_quota_exceeded = 422"
| "http_status EC_payload_too_large = 413"
| "http_status EC_service_unavailable = 503"
| "http_status _ = 500"

section \<open>The envelope\<close>

record api_error =
  ae_code :: error_code
  ae_message :: string
  ae_details :: jvalue

record meta =
  m_request_id :: string
  m_timestamp :: string
  m_next_cursor :: "string option"
  m_has_more :: "bool option"

record envelope =
  e_data :: jvalue
  e_error :: "api_error option"
  e_meta :: meta

definition api_error_to_json :: "api_error \<Rightarrow> jvalue" where
  "api_error_to_json e =
     (let obj = JObject [];
          obj = jset ''code'' (JString (to_string (ae_code e))) obj;
          obj = jset ''message'' (JString (ae_message e)) obj
      in if \<not> jempty (ae_details e) then jset ''details'' (ae_details e) obj else obj)"

definition meta_to_json :: "meta \<Rightarrow> jvalue" where
  "meta_to_json m =
     (let obj = JObject [];
          obj = jset ''request_id'' (JString (m_request_id m)) obj;
          obj = jset ''timestamp'' (JString (m_timestamp m)) obj;
          obj = (case m_next_cursor m of Some c \<Rightarrow> jset ''next_cursor'' (JString c) obj | None \<Rightarrow> obj)
      in case m_has_more m of Some b \<Rightarrow> jset ''has_more'' (JBool b) obj | None \<Rightarrow> obj)"

definition envelope_to_json :: "envelope \<Rightarrow> jvalue" where
  "envelope_to_json env =
     (let obj = JObject [];
          obj = jset ''data'' (e_data env) obj;
          obj = jset ''error''
                  (case e_error env of Some e \<Rightarrow> api_error_to_json e | None \<Rightarrow> JNull) obj
      in jset ''meta'' (meta_to_json (e_meta env)) obj)"

text \<open>
  \<open>utc_now_iso8601\<close> of a time in seconds since the epoch: \<open>gmtime_r\<close> (the civil date of a day
  number in the proleptic Gregorian calendar) and \<open>put_time\<close> with the format
  \<open>%Y-%m-%dT%H:%M:%SZ\<close>.
\<close>

definition civil_from_days :: "int \<Rightarrow> int \<times> int \<times> int" where
  "civil_from_days days =
     (let z = days + 719468;
          era = z div 146097;
          doe = z mod 146097;
          yoe = (doe - doe div 1460 + doe div 36524 - doe div 146096) div 365;
          doy = doe - (365 * yoe + yoe div 4 - yoe div 100);
          mp = (5 * doy + 2) div 153;
          d = doy - (153 * mp + 2) div 5 + 1;
          m = (if mp < 10 then mp + 3 else mp - 9);
          y = yoe + era * 400 + (if m \<le> 2 then 1 else 0)
      in (y, m, d))"

definition two_digits :: "int \<Rightarrow> string" where
  "two_digits n = (if n < 10 then ''0'' @ dec_int n else dec_int n)"

definition utc_now_iso8601 :: "int \<Rightarrow> string" where
  "utc_now_iso8601 now =
     (let (y, m, d) = civil_from_days (now div 86400);
          s = now mod 86400
      in dec_int y @ ''-'' @ two_digits m @ ''-'' @ two_digits d @ ''T''
         @ two_digits (s div 3600) @ '':'' @ two_digits (s mod 3600 div 60) @ '':''
         @ two_digits (s mod 60) @ ''Z'')"

definition ok :: "jvalue \<Rightarrow> string \<Rightarrow> int \<Rightarrow> envelope" where
  "ok data request_id now =
     \<lparr>e_data = data, e_error = None,
      e_meta = \<lparr>m_request_id = request_id, m_timestamp = utc_now_iso8601 now,
                m_next_cursor = None, m_has_more = None\<rparr>\<rparr>"

definition ok_list :: "jvalue \<Rightarrow> string \<Rightarrow> string option \<Rightarrow> bool \<Rightarrow> int \<Rightarrow> envelope" where
  "ok_list data request_id next_cursor has_more now =
     \<lparr>e_data = data, e_error = None,
      e_meta = \<lparr>m_request_id = request_id, m_timestamp = utc_now_iso8601 now,
                m_next_cursor = next_cursor, m_has_more = Some has_more\<rparr>\<rparr>"

definition error :: "error_code \<Rightarrow> string \<Rightarrow> string \<Rightarrow> jvalue \<Rightarrow> int \<Rightarrow> envelope" where
  "error code message request_id details now =
     \<lparr>e_data = JNull,
      e_error = Some \<lparr>ae_code = code, ae_message = message, ae_details = details\<rparr>,
      e_meta = \<lparr>m_request_id = request_id, m_timestamp = utc_now_iso8601 now,
                m_next_cursor = None, m_has_more = None\<rparr>\<rparr>"

section \<open>HTTP requests and responses\<close>

datatype http_method = Get | Post | Head | Put | Delete | Options | Patch | Invalid

fun method_string :: "http_method \<Rightarrow> string" where
  "method_string Get = ''GET''"
| "method_string Post = ''POST''"
| "method_string Head = ''HEAD''"
| "method_string Put = ''PUT''"
| "method_string Delete = ''DELETE''"
| "method_string Options = ''OPTIONS''"
| "method_string Patch = ''PATCH''"
| "method_string Invalid = ''INVALID''"

text \<open>
  Header names are kept in lower case by the framework, whatever case the peer or the
  sources use; a header, parameter or attribute that is absent reads as the empty string.
\<close>

record http_request =
  rq_method :: http_method
  rq_path :: string
  rq_headers :: "(string \<times> string) list"
  rq_attrs :: "(string \<times> string) list"
  rq_params :: "(string \<times> string) list"
  rq_body :: string
  rq_peer :: string

record http_response =
  rs_status :: nat
  rs_headers :: "(string \<times> string) list"
  rs_body :: jvalue

definition lookup_or_empty :: "(string \<times> string) list \<Rightarrow> string \<Rightarrow> string" where
  "lookup_or_empty xs k = (case map_of xs k of Some v \<Rightarrow> v | None \<Rightarrow> [])"

definition get_header :: "http_request \<Rightarrow> string \<Rightarrow> string" where
  "get_header req k = lookup_or_empty (rq_headers req) k"

definition get_attr :: "http_request \<Rightarrow> string \<Rightarrow> string" where
  "get_attr req k = lookup_or_empty (rq_attrs req) k"

definition get_parameter :: "http_request \<Rightarrow> string \<Rightarrow> string" where
  "get_parameter req k = lookup_or_empty (rq_params req) k"

definition insert_attr :: "string \<Rightarrow> string \<Rightarrow> http_request \<Rightarrow> http_request" where
  "insert_attr k v req = req\<lparr>rq_attrs := AList.update k v (rq_attrs req)\<rparr>"

definition add_header :: "string \<Rightarrow> string \<Rightarrow> http_response \<Rightarrow> http_response" where
  "add_header k v resp = resp\<lparr>rs_headers := AList.update k v (rs_headers resp)\<rparr>"

lemma get_attr_insert [simp]:
  "get_attr (insert_attr k v req) k' = (if k' = k then v else get_attr req k')"
  by (simp add: get_attr_def insert_attr_def lookup_or_empty_def)

lemma insert_attr_fields [simp]:
  "rq_method (insert_attr k v req) = rq_method req" "rq_path (insert_attr k v req) = rq_path req"
  "rq_headers (insert_attr k v req) = rq_headers req" "rq_body (insert_attr k v req) = rq_body req"
  "rq_peer (insert_attr k v req) = rq_peer req" "rq_params (insert_attr k v req) = rq_params req"
  "get_header (insert_attr k v req) = get_header req"
  by (simp_all add: insert_attr_def get_header_def fun_eq_iff)

lemma add_header_fields [simp]:
  "rs_status (add_header k v r) = rs_status r" "rs_body (add_header k v r) = rs_body r"
  "map_of (rs_headers (add_header k v r)) = (map_of (rs_headers r))(k \<mapsto> v)"
  by (simp_all add: add_header_def)

section \<open>Responses\<close>

definition to_response :: "envelope \<Rightarrow> nat \<Rightarrow> http_response" where
  "to_response env status =
     add_header ''content-type'' ''application/json; charset=utf-8''
       \<lparr>rs_status = status, rs_headers = [], rs_body = envelope_to_json env\<rparr>"

definition respond_ok :: "jvalue \<Rightarrow> string \<Rightarrow> int \<Rightarrow> http_response" where
  "respond_ok data request_id now = to_response (ok data request_id now) 200"

definition respond_created :: "jvalue \<Rightarrow> string \<Rightarrow> int \<Rightarrow> http_response" where
  "respond_created data request_id now = to_response (ok data request_id now) 201"

definition respond_list :: "jvalue \<Rightarrow> string \<Rightarrow> string option \<Rightarrow> bool \<Rightarrow> int \<Rightarrow> http_response" where
  "respond_list data request_id next_cursor has_more now =
     to_response (ok_list data request_id next_cursor has_more now) 200"

text \<open>\<open>respond_error\<close> with the details given, and with its default argument.\<close>

definition respond_error_with ::
  "error_code \<Rightarrow> string \<Rightarrow> string \<Rightarrow> jvalue \<Rightarrow> int \<Rightarrow> http_response" where
  "respond_error_with code message request_id details now =
     to_response (error code message request_id details now) (http_status code)"

definition respond_error :: "error_code \<Rightarrow> string \<Rightarrow> string \<Rightarrow> int \<Rightarrow> http_response" where
  "respond_error code message request_id now = respond_error_with code message request_id JNull now"

section \<open>Request identifiers\<close>

definition kRequestIdKey :: string where
  "kRequestIdKey = ''corvus-request-id''"

definition hex_digit :: "nat \<Rightarrow> char" where
  "hex_digit d = (if d < 10 then char_of (48 + d) else char_of (87 + d))"

fun hex_nat :: "nat \<Rightarrow> string" where
  "hex_nat n = (if n < 16 then [hex_digit n] else hex_nat (n div 16) @ [hex_digit (n mod 16)])"

declare hex_nat.simps [simp del]

text \<open>\<open>std::hex << std::setfill('0') << std::setw(w) << n\<close>.\<close>

definition hex_padded :: "nat \<Rightarrow> nat \<Rightarrow> string" where
  "hex_padded w n = replicate (w - length (hex_nat n)) CHR ''0'' @ hex_nat n"

text \<open>The six draws of \<open>dist(rng)\<close>, in their order.\<close>

record uuid_draws =
  draw_a :: "32 word"
  draw_b :: "32 word"
  draw_c :: "32 word"
  draw_d :: "32 word"
  draw_e :: "32 word"
  draw_f :: "32 word"

unbundle bit_operations_syntax

definition generate_uuid :: "uuid_draws \<Rightarrow> string" where
  "generate_uuid r =
     (let a = draw_a r;
          b = draw_b r;
          c = (draw_c r AND 0x0FFF) OR 0x4000;
          d = (draw_d r AND 0x3FFF) OR 0x8000;
          e = draw_e r;
          f = draw_f r
      in hex_padded 8 (unat a) @ ''-''
         @ hex_padded 4 (unat (drop_bit 16 b)) @ ''-''
         @ hex_padded 4 (unat c) @ ''-''
         @ hex_padded 4 (unat d) @ ''-''
         @ hex_padded 4 (unat (drop_bit 16 e))
         @ hex_padded 8 (unat f))"

definition get_request_id :: "http_request \<Rightarrow> uuid_draws \<Rightarrow> string" where
  "get_request_id req rnd =
     (let val = get_attr req kRequestIdKey
      in if val \<noteq> [] then val
         else let header = get_header req ''x-request-id''
              in if header \<noteq> [] then header else generate_uuid rnd)"

section \<open>Lemmas\<close>

named_theorems response_simps \<open>the parts of responses\<close>

lemma to_string_inject: "to_string c = to_string c' \<longleftrightarrow> c = c'"
  by (cases c; cases c') simp_all

lemma http_status_range: "400 \<le> http_status c \<and> http_status c \<le> 503"
  by (cases c) simp_all

lemma rs_status_responses [response_simps]:
  "rs_status (respond_ok d rid now) = 200"
  "rs_status (respond_created d rid now) = 201"
  "rs_status (respond_list d rid c m now) = 200"
  "rs_status (respond_error_with code msg rid det now) = http_status code"
  "rs_status (respond_error code msg rid now) = http_status code"
  by (simp_all add: respond_ok_def respond_created_def respond_list_def respond_error_with_def
      respond_error_def to_response_def)

text \<open>The three members of an envelope and the members of its error.\<close>

definition env_data :: "http_response \<Rightarrow> jvalue option" where
  "env_data r = jget (rs_body r) ''data''"

definition env_error :: "http_response \<Rightarrow> jvalue option" where
  "env_error r = jget (rs_body r) ''error''"

definition env_meta :: "http_response \<Rightarrow> jvalue option" where
  "env_meta r = jget (rs_body r) ''meta''"

lemma env_add_header [simp]:
  "env_data (add_header k v r) = env_data r" "env_error (add_header k v r) = env_error r"
  "env_meta (add_header k v r) = env_meta r"
  by (simp_all add: env_data_def env_error_def env_meta_def)

lemma env_to_response [response_simps]:
  "env_data (to_response e st) = Some (e_data e)"
  "env_error (to_response e st) = Some (case e_error e of Some x \<Rightarrow> api_error_to_json x | None \<Rightarrow> JNull)"
  "env_meta (to_response e st) = Some (meta_to_json (e_meta e))"
  by (simp_all add: env_data_def env_error_def env_meta_def to_response_def envelope_to_json_def Let_def)

lemma jget_api_error [response_simps]:
  "jget (api_error_to_json e) ''code'' = Some (JString (to_string (ae_code e)))"
  "jget (api_error_to_json e) ''message'' = Some (JString (ae_message e))"
  "jget (api_error_to_json e) ''details'' = (if jempty (ae_details e) then None else Some (ae_details e))"
  by (simp_all add: api_error_to_json_def Let_def)

lemma jget_meta [response_simps]:
  "jget (meta_to_json m) ''request_id'' = Some (JString (m_request_id m))"
  "jget (meta_to_json m) ''timestamp'' = Some (JString (m_timestamp m))"
  "jget (meta_to_json m) ''next_cursor'' = map_option JString (m_next_cursor m)"
  "jget (meta_to_json m) ''has_more'' = map_option JBool (m_has_more m)"
  by (simp_all add: meta_to_json_def Let_def split: option.splits)

lemmas respond_defs = respond_ok_def respond_created_def respond_list_def respond_error_with_def
  respond_error_def

subsection \<open>Padded hexadecimal numbers\<close>

lemma hex_nat_not_Nil [simp]: "hex_nat n \<noteq> []"
  by (subst hex_nat.simps) simp

lemma hex_digit_0 [simp]: "hex_digit 0 = CHR ''0''"
  by code_simp

lemma hex_padded_0: "1 \<le> w \<Longrightarrow> hex_padded w 0 = replicate w CHR ''0''"
  using replicate_append_same [of "w - 1" "CHR ''0''"]
  by (cases w) (simp_all add: hex_padded_def hex_nat.simps [of 0])

lemma hex_padded_Suc:
  assumes "1 \<le> w"
  shows "hex_padded (Suc w) n = hex_padded w (n div 16) @ [hex_digit (n mod 16)]"
proof (cases "n < 16")
  case True
  then have "n div 16 = 0" by simp
  then show ?thesis
    using True hex_padded_0 [OF assms] by (simp add: hex_padded_def [of "Suc w"] hex_nat.simps [of n])
next
  case False
  then show ?thesis by (simp add: hex_padded_def hex_nat.simps [of n])
qed

lemma hex_padded_1: "n < 16 \<Longrightarrow> hex_padded 1 n = [hex_digit n]"
  by (simp add: hex_padded_def hex_nat.simps [of n])

lemma length_hex_padded:
  "1 \<le> w \<Longrightarrow> n < 16 ^ w \<Longrightarrow> length (hex_padded w n) = w"
proof (induction w arbitrary: n)
  case (Suc w)
  show ?case
  proof (cases "w = 0")
    case True
    with Suc.prems show ?thesis using hex_padded_1 [of n] by simp
  next
    case False
    with Suc.prems have "n div 16 < 16 ^ w" by (simp add: less_mult_imp_div_less mult.commute)
    with False Suc.IH show ?thesis by (simp add: hex_padded_Suc)
  qed
qed simp

definition is_lower_hex :: "char \<Rightarrow> bool" where
  "is_lower_hex c \<longleftrightarrow> c \<in> set ''0123456789abcdef''"

lemma is_lower_hex_digit: "d < 16 \<Longrightarrow> is_lower_hex (hex_digit d)"
proof -
  assume "d < 16"
  then have "d \<in> set [0..<16]" by simp
  moreover have "\<forall>d\<in>set [0..<16]. is_lower_hex (hex_digit d)" by code_simp
  ultimately show ?thesis by blast
qed

lemma hex_nat_lower: "c \<in> set (hex_nat n) \<Longrightarrow> is_lower_hex c"
proof (induction n arbitrary: c rule: hex_nat.induct)
  case (1 n)
  then show ?case
    by (subst (asm) (2) hex_nat.simps) (auto split: if_splits intro: is_lower_hex_digit)
qed

lemma hex_padded_lower: "c \<in> set (hex_padded w n) \<Longrightarrow> is_lower_hex c"
  by (auto simp: hex_padded_def is_lower_hex_def [of "CHR ''0''"] dest: hex_nat_lower split: if_splits)

lemma hd_hex_padded_4: "n < 16 ^ 4 \<Longrightarrow> hd (hex_padded 4 n) = hex_digit (n div 4096)"
proof -
  assume n: "n < 16 ^ 4"
  have "hex_padded 4 n = hex_padded 3 (n div 16) @ [hex_digit (n mod 16)]"
    using hex_padded_Suc [of 3 n] by simp
  moreover have "hex_padded 3 (n div 16)
      = hex_padded 2 (n div 16 div 16) @ [hex_digit (n div 16 mod 16)]"
    using hex_padded_Suc [of 2 "n div 16"] by simp
  moreover have "hex_padded 2 (n div 16 div 16)
      = hex_padded 1 (n div 16 div 16 div 16) @ [hex_digit (n div 16 div 16 mod 16)]"
    using hex_padded_Suc [of 1 "n div 16 div 16"] by (simp add: numeral_2_eq_2)
  ultimately have eq: "hex_padded 4 n = hex_padded 1 (n div 16 div 16 div 16)
      @ [hex_digit (n div 16 div 16 mod 16), hex_digit (n div 16 mod 16), hex_digit (n mod 16)]"
    by (simp only: append_assoc append.simps)
  have d: "n div 16 div 16 div 16 = n div 4096"
    using div_mult2_eq [of n 256 16] div_mult2_eq [of n 16 16] by simp
  have "n div 4096 < 16" using n by (simp add: less_mult_imp_div_less)
  from hex_padded_1 [OF this] show ?thesis by (simp only: eq d) simp
qed

section \<open>Properties\<close>

text \<open>
  The envelope contract: an error response has the HTTP status of its code, a client or
  server error, no data, and an error object whose code string identifies the error code and
  whose details are present exactly when they are not empty; a success response has status
  200 or 201, its data and a null error; only list responses carry paging information.
  Every response names its request.
\<close>

theorem envelope_contract:
  "(let r = respond_error_with code msg rid det now
    in rs_status r = http_status code \<and> 400 \<le> rs_status r \<and> rs_status r \<le> 503
     \<and> env_data r = Some JNull
     \<and> (\<exists>e m. env_error r = Some e \<and> env_meta r = Some m
          \<and> (\<forall>c. jget e ''code'' = Some (JString (to_string c)) \<longleftrightarrow> c = code)
          \<and> jget e ''message'' = Some (JString msg)
          \<and> jget e ''details'' = (if jempty det then None else Some det)
          \<and> jget m ''request_id'' = Some (JString rid)
          \<and> jget m ''has_more'' = None \<and> jget m ''next_cursor'' = None))
   \<and> (\<forall>r \<in> {respond_ok d rid now, respond_created d rid now, respond_list d rid cur hm now}.
       rs_status r \<in> {200, 201} \<and> env_data r = Some d \<and> env_error r = Some JNull
       \<and> (\<exists>m. env_meta r = Some m \<and> jget m ''request_id'' = Some (JString rid)
           \<and> (jget m ''has_more'' = Some (JBool hm) \<and> jget m ''next_cursor'' = map_option JString cur
              \<or> jget m ''has_more'' = None \<and> jget m ''next_cursor'' = None)))
   \<and> (\<exists>m. env_meta (respond_list d rid cur hm now) = Some m
       \<and> jget m ''has_more'' = Some (JBool hm) \<and> jget m ''next_cursor'' = map_option JString cur)"
  using http_status_range [of code]
  by (simp add: Let_def response_simps)
     (simp add: respond_defs response_simps ok_def ok_list_def error_def to_string_inject
       eq_commute [of code])

theorem envelope_contract_witness:
  "env_error (respond_error_with EC_not_found ''gone'' ''r1'' JNull 0)
     = Some (JObject [(''code'', JString ''NOT_FOUND''), (''message'', JString ''gone'')])
   \<and> rs_status (respond_error_with EC_not_found ''gone'' ''r1'' JNull 0) = 404
   \<and> rs_status (respond_created JNull ''r1'' 0) \<in> {200, 201}"
  using envelope_contract [of EC_not_found "''gone''" "''r1''" JNull 0 JNull None False]
  by (simp add: Let_def) (simp add: respond_defs response_simps error_def api_error_to_json_def)

end
