(* ===== verification/ApiKey.thy ===== *)
theory ApiKey
  imports Redis Api
begin

text \<open>
  The API key validator, \<open>include/corvus/auth/api_key_validator.h\<close> and
  \<open>src/auth/api_key_validator.cpp\<close>: a read-through cache of key records in Redis over an
  optional lookup in PostgreSQL, with a pool of idle Redis connections. Time points and the
  difference of two of them are in nanoseconds. SHA-256 of OpenSSL, the two clocks and hiredis
  are the parameter \<open>key_env\<close>; the lookup is a function of the world like the code's
  \<open>std::function\<close>.
\<close>

record api_key_info =
  ki_client_id :: string
  ki_scopes :: string

record api_key_record =
  kr_client_id :: string
  kr_scopes :: string
  kr_expires_at :: "int option"

type_synonym 'w api_key_lookup = "string \<Rightarrow> 'w \<Rightarrow> (exn + api_key_record option) \<times> 'w"

record 'w key_env =
  ke_redis :: "'w hiredis"
  ke_sha256 :: "string \<Rightarrow> 8 word list"
  ke_now :: "'w \<Rightarrow> int"
  ke_sleep :: "int \<Rightarrow> 'w \<Rightarrow> 'w"

record 'w api_key_validator =
  kv_config :: redis_config
  kv_lookup :: "'w api_key_lookup option"
  kv_idle :: "redis_connection list"

definition kCacheTtl :: int where
  "kCacheTtl = 60"

definition kMaxIdleConnections :: nat where
  "kMaxIdleConnections = 8"

section \<open>Keys and lifetimes\<close>

definition hash_key :: "'w key_env \<Rightarrow> string \<Rightarrow> string" where
  "hash_key env raw_key = concat (map (\<lambda>b. hex_padded 2 (unat b)) (ke_sha256 env raw_key))"

definition redis_key :: "string \<Rightarrow> string" where
  "redis_key hash = ''corvus:apikeys:'' @ hash"

definition kSourceField :: string where
  "kSourceField = ''src''"

definition kSourcePostgres :: string where
  "kSourcePostgres = ''pg''"

text \<open>\<open>duration_cast<seconds>\<close> rounds towards zero.\<close>

definition to_seconds :: "int \<Rightarrow> int" where
  "to_seconds ns = sgn ns * (\<bar>ns\<bar> div 1000000000)"

definition cache_ttl_for :: "api_key_record \<Rightarrow> int \<Rightarrow> int" where
  "cache_ttl_for r now =
     (let ttl = kCacheTtl;
          ttl = (case kr_expires_at r of
                   Some t \<Rightarrow> min ttl (to_seconds (t - now))
                 | None \<Rightarrow> ttl)
      in max ttl 1)"

section \<open>The pool of idle connections\<close>

text \<open>
  The loop of \<open>acquire\<close> under the lock, on the vector from its back; a connection that is
  popped and not connected is destroyed.
\<close>

fun pop_connected ::
  "'w hiredis \<Rightarrow> redis_connection list \<Rightarrow> 'w \<Rightarrow> redis_connection option \<times> redis_connection list \<times> 'w" where
  "pop_connected api [] w = (None, [], w)"
| "pop_connected api (conn # rest) w =
     (if is_connected conn then (Some conn, rest, w)
      else pop_connected api rest (destroy_redis_connection api conn w))"

definition acquire ::
  "'w key_env \<Rightarrow> 'w api_key_validator \<Rightarrow> 'w \<Rightarrow> (exn + redis_connection) \<times> 'w api_key_validator \<times> 'w" where
  "acquire env v w =
     (case pop_connected (ke_redis env) (rev (kv_idle v)) w of
        (Some conn, rest, w) \<Rightarrow> (Inr conn, v\<lparr>kv_idle := rev rest\<rparr>, w)
      | (None, rest, w) \<Rightarrow>
          (case new_redis_connection (ke_redis env) (kv_config v) w of
             (r, w) \<Rightarrow> (r, v\<lparr>kv_idle := rev rest\<rparr>, w)))"

definition release ::
  "'w key_env \<Rightarrow> 'w api_key_validator \<Rightarrow> redis_connection \<Rightarrow> 'w \<Rightarrow> 'w api_key_validator \<times> 'w" where
  "release env v conn w =
     (if \<not> is_connected conn then (v, destroy_redis_connection (ke_redis env) conn w)
      else if length (kv_idle v) < kMaxIdleConnections then (v\<lparr>kv_idle := kv_idle v @ [conn]\<rparr>, w)
      else (v, destroy_redis_connection (ke_redis env) conn w))"

definition idle_connections :: "'w api_key_validator \<Rightarrow> nat" where
  "idle_connections v = length (kv_idle v)"

definition set_lookup :: "'w api_key_validator \<Rightarrow> 'w api_key_lookup option \<Rightarrow> 'w api_key_validator" where
  "set_lookup v lookup = v\<lparr>kv_lookup := lookup\<rparr>"

section \<open>Construction\<close>

text \<open>\<open>release(acquire())\<close>, the body of the constructors' \<open>try\<close>.\<close>

definition try_connect ::
  "'w key_env \<Rightarrow> 'w api_key_validator \<Rightarrow> 'w \<Rightarrow> (exn + unit) \<times> 'w api_key_validator \<times> 'w" where
  "try_connect env v w = (case acquire env v w of
      (Inl e, v, w) \<Rightarrow> (Inl e, v, w)
    | (Inr conn, v, w) \<Rightarrow> (case release env v conn w of (v, w) \<Rightarrow> (Inr (), v, w)))"

definition kMaxAttempts :: nat where
  "kMaxAttempts = 5"

text \<open>The loop of the default constructor, by the attempts that are left.\<close>

fun connect_attempts ::
  "'w key_env \<Rightarrow> nat \<Rightarrow> string \<Rightarrow> 'w api_key_validator \<Rightarrow> 'w \<Rightarrow> (exn + 'w api_key_validator) \<times> 'w" where
  "connect_attempts env 0 last_error v w =
     (Inl (ApiKeyConfigError (''Redis unreachable after '' @ dec_nat kMaxAttempts
        @ '' attempts: '' @ last_error)), w)"
| "connect_attempts env (Suc left) last_error v w =
     (case try_connect env v w of
        (Inr _, v, w) \<Rightarrow> (Inr v, w)
      | (Inl (RedisConfigError m), v, w) \<Rightarrow>
          connect_attempts env left m v (if 0 < left then ke_sleep env 1 w else w)
      | (Inl e, v, w) \<Rightarrow> (Inl e, w))"

definition validator_from_env ::
  "'w key_env \<Rightarrow> (string \<Rightarrow> string option) \<Rightarrow> 'w \<Rightarrow> (exn + 'w api_key_validator) \<times> 'w" where
  "validator_from_env env genv w = (case redis_config_from_env genv of
      Inl e \<Rightarrow> (Inl e, w)
    | Inr cfg \<Rightarrow>
        connect_attempts env kMaxAttempts [] \<lparr>kv_config = cfg, kv_lookup = None, kv_idle = []\<rparr> w)"

definition new_validator ::
  "'w key_env \<Rightarrow> redis_config \<Rightarrow> 'w api_key_lookup option \<Rightarrow> 'w \<Rightarrow> (exn + 'w api_key_validator) \<times> 'w" where
  "new_validator env cfg lookup w =
     (case try_connect env \<lparr>kv_config = cfg, kv_lookup = lookup, kv_idle = []\<rparr> w of
        (Inr _, v, w) \<Rightarrow> (Inr v, w)
      | (Inl (RedisConfigError m), v, w) \<Rightarrow> (Inl (ApiKeyConfigError m), w)
      | (Inl e, v, w) \<Rightarrow> (Inl e, w))"

definition validator_for_host ::
  "'w key_env \<Rightarrow> string \<Rightarrow> int \<Rightarrow> 'w \<Rightarrow> (exn + 'w api_key_validator) \<times> 'w" where
  "validator_for_host env host port w =
     new_validator env (default_redis_config\<lparr>rd_host := host, rd_port := port\<rparr>) None w"

section \<open>Validation\<close>

text \<open>What \<open>from_cache\<close> makes of the fields it has read.\<close>

definition info_of_fields :: "bool \<Rightarrow> (string \<times> string) list \<Rightarrow> api_key_info option" where
  "info_of_fields has_lookup kvs =
     (if kvs = [] then None
      else if has_lookup \<and> map_of kvs kSourceField \<noteq> Some kSourcePostgres then None
      else Some \<lparr>ki_client_id = lookup_or_empty kvs ''client_id'',
                 ki_scopes = lookup_or_empty kvs ''scopes''\<rparr>)"

text \<open>
  Reading the hash: on a connection found broken by the read, once more on a new connection.
  A connection that goes out of scope is destroyed.
\<close>

definition read_hash ::
  "'w key_env \<Rightarrow> string \<Rightarrow> 'w api_key_validator \<Rightarrow> 'w
     \<Rightarrow> (exn + (string \<times> string) list) \<times> 'w api_key_validator \<times> 'w" where
  "read_hash env rkey v w = (case acquire env v w of
      (Inl e, v, w) \<Rightarrow> (Inl e, v, w)
    | (Inr conn, v, w) \<Rightarrow> (case redis_hgetall (ke_redis env) rkey conn w of
        (Inr kvs, conn, w) \<Rightarrow> (case release env v conn w of (v, w) \<Rightarrow> (Inr kvs, v, w))
      | (Inl (RedisCommandError m), conn, w) \<Rightarrow>
          if is_connected conn
          then (Inl (RedisCommandError m), v, destroy_redis_connection (ke_redis env) conn w)
          else (case new_redis_connection (ke_redis env) (kv_config v) w of
              (Inl e, w) \<Rightarrow> (Inl e, v, destroy_redis_connection (ke_redis env) conn w)
            | (Inr conn', w) \<Rightarrow>
                (case redis_hgetall (ke_redis env) rkey conn'
                        (destroy_redis_connection (ke_redis env) conn w) of
                   (Inl e, conn', w) \<Rightarrow> (Inl e, v, destroy_redis_connection (ke_redis env) conn' w)
                 | (Inr kvs, conn', w) \<Rightarrow>
                     (case release env v conn' w of (v, w) \<Rightarrow> (Inr kvs, v, w))))
      | (Inl e, conn, w) \<Rightarrow> (Inl e, v, destroy_redis_connection (ke_redis env) conn w)))"

definition from_cache ::
  "'w key_env \<Rightarrow> string \<Rightarrow> 'w api_key_validator \<Rightarrow> 'w
     \<Rightarrow> (exn + api_key_info option) \<times> 'w api_key_validator \<times> 'w" where
  "from_cache env rkey v w = (case read_hash env rkey v w of
      (Inl e, v, w) \<Rightarrow> (Inl e, v, w)
    | (Inr kvs, v, w) \<Rightarrow> (Inr (info_of_fields (kv_lookup v \<noteq> None) kvs), v, w))"

text \<open>Whatever throws in \<open>store_in_cache\<close> is swallowed.\<close>

definition store_in_cache ::
  "'w key_env \<Rightarrow> string \<Rightarrow> api_key_record \<Rightarrow> 'w api_key_validator \<Rightarrow> 'w \<Rightarrow> 'w api_key_validator \<times> 'w" where
  "store_in_cache env rkey r v w = (case acquire env v w of
      (Inl e, v, w) \<Rightarrow> (v, w)
    | (Inr conn, v, w) \<Rightarrow>
        (case redis_hmset (ke_redis env) rkey
                [(''client_id'', kr_client_id r), (''scopes'', kr_scopes r),
                 (kSourceField, kSourcePostgres)] conn w of
           (Inl e, conn, w) \<Rightarrow> (v, destroy_redis_connection (ke_redis env) conn w)
         | (Inr _, conn, w) \<Rightarrow>
             (case redis_expire (ke_redis env) rkey (cache_ttl_for r (ke_now env w)) conn w of
                (Inl e, conn, w) \<Rightarrow> (v, destroy_redis_connection (ke_redis env) conn w)
              | (Inr _, conn, w) \<Rightarrow> release env v conn w)))"

text \<open>The check that ends \<open>validate\<close>.\<close>

definition require_client :: "api_key_info \<Rightarrow> exn + api_key_info" where
  "require_client info =
     (if ki_client_id info = [] then Inl (ApiKeyValidationError ''API key record missing client_id'')
      else Inr info)"

definition validate_via_lookup ::
  "'w key_env \<Rightarrow> string \<Rightarrow> string \<Rightarrow> 'w api_key_validator \<Rightarrow> 'w
     \<Rightarrow> (exn + api_key_info) \<times> 'w api_key_validator \<times> 'w" where
  "validate_via_lookup env hashed rkey v w = (case kv_lookup v of
      None \<Rightarrow> (Inl (ApiKeyValidationError ''Unknown or revoked API key''), v, w)
    | Some lookup \<Rightarrow> (case lookup hashed w of
        (Inl e, w) \<Rightarrow> (Inl e, v, w)
      | (Inr None, w) \<Rightarrow>
          (Inl (ApiKeyValidationError ''Unknown, revoked or expired API key''), v, w)
      | (Inr (Some r), w) \<Rightarrow> (case store_in_cache env rkey r v w of
          (v, w) \<Rightarrow> (require_client \<lparr>ki_client_id = kr_client_id r, ki_scopes = kr_scopes r\<rparr>, v, w))))"

definition validate ::
  "'w key_env \<Rightarrow> string \<Rightarrow> 'w api_key_validator \<Rightarrow> 'w
     \<Rightarrow> (exn + api_key_info) \<times> 'w api_key_validator \<times> 'w" where
  "validate env raw_key v w =
     (if raw_key = [] then (Inl (ApiKeyValidationError ''API key must not be empty''), v, w)
      else
        let hashed = hash_key env raw_key; rkey = redis_key hashed
        in case from_cache env rkey v w of
             (Inl e, v, w) \<Rightarrow>
               if kv_lookup v = None
               then (Inl (ApiKeyBackendError
                       (''Redis unavailable, cannot validate API key: '' @ what e)), v, w)
               else validate_via_lookup env hashed rkey v w
           | (Inr (Some info), v, w) \<Rightarrow> (require_client info, v, w)
           | (Inr None, v, w) \<Rightarrow> validate_via_lookup env hashed rkey v w)"

section \<open>The contract of a pool\<close>

text \<open>
  What the operations that borrow a connection rely on: taking one and giving one back keep
  the pool's invariant and its frame (everything but the idle connections), and a connection
  that was taken belongs to the pool's frame.
\<close>

locale idle_pool =
  fixes take_conn :: "'p \<Rightarrow> 'w \<Rightarrow> (exn + 'c) \<times> 'p \<times> 'w"
    and give_conn :: "'p \<Rightarrow> 'c \<Rightarrow> 'w \<Rightarrow> 'p \<times> 'w"
    and ok :: "'p \<Rightarrow> bool"
    and frame :: "'p \<Rightarrow> 'f"
    and belongs :: "'f \<Rightarrow> 'c \<Rightarrow> bool"
  assumes take_frame: "take_conn p w = (r, p', w') \<Longrightarrow> frame p' = frame p"
    and take_ok: "take_conn p w = (r, p', w') \<Longrightarrow> ok p \<Longrightarrow> ok p'"
    and take_belongs: "take_conn p w = (Inr c, p', w') \<Longrightarrow> ok p \<Longrightarrow> belongs (frame p) c"
    and give_frame: "give_conn p c w = (p', w') \<Longrightarrow> frame p' = frame p"
    and give_ok: "give_conn p c w = (p', w') \<Longrightarrow> ok p \<Longrightarrow> belongs (frame p) c \<Longrightarrow> ok p'"
begin

lemma take_give:
  assumes "take_conn p w = (Inr c, p1, w1)" "give_conn p1 c' w2 = (p2, w3)" "ok p"
    and "belongs (frame p) c \<Longrightarrow> belongs (frame p) c'"
  shows "ok p2 \<and> frame p2 = frame p"
  using assms take_frame take_ok take_belongs give_frame give_ok by metis

lemma taken:
  "take_conn p w = (r, p1, w1) \<Longrightarrow> ok p \<Longrightarrow>
     ok p1 \<and> frame p1 = frame p \<and> (\<forall>c. r = Inr c \<longrightarrow> belongs (frame p) c)"
  using take_frame take_ok take_belongs by metis

end

definition pool_ok :: "'w api_key_validator \<Rightarrow> bool" where
  "pool_ok v \<longleftrightarrow> length (kv_idle v) \<le> kMaxIdleConnections
     \<and> (\<forall>c\<in>set (kv_idle v). is_connected c \<and> rd_config c = kv_config v)"

definition pool_frame :: "'w api_key_validator \<Rightarrow> redis_config \<times> 'w api_key_lookup option" where
  "pool_frame v = (kv_config v, kv_lookup v)"

definition pool_belongs :: "redis_config \<times> 'w api_key_lookup option \<Rightarrow> redis_connection \<Rightarrow> bool" where
  "pool_belongs f c \<longleftrightarrow> rd_config c = fst f"

lemma pop_connected_parts:
  "pop_connected api cs w = (r, rest, w') \<Longrightarrow>
     set rest \<subseteq> set cs \<and> length rest \<le> length cs
     \<and> (\<forall>c. r = Some c \<longrightarrow> c \<in> set cs \<and> is_connected c \<and> length rest < length cs)
     \<and> (r = None \<longrightarrow> rest = [])"
  by (induction api cs w rule: pop_connected.induct) (auto split: if_splits)

lemma acquire_parts:
  assumes "acquire env v w = (r, v', w')"
  shows "kv_config v' = kv_config v \<and> kv_lookup v' = kv_lookup v
    \<and> set (kv_idle v') \<subseteq> set (kv_idle v) \<and> length (kv_idle v') \<le> length (kv_idle v)
    \<and> (\<forall>c. r = Inr c \<longrightarrow> c \<in> set (kv_idle v) \<and> is_connected c \<or> rd_config c = kv_config v)
    \<and> (\<forall>e. r = Inl e \<longrightarrow> (\<exists>m. e = RedisConfigError m))"
proof -
  obtain x rest w1 where p: "pop_connected (ke_redis env) (rev (kv_idle v)) w = (x, rest, w1)"
    by (rule prod_cases3)
  note parts = pop_connected_parts [OF p]
  show ?thesis
  proof (cases x)
    case None
    then show ?thesis
      using assms p parts by (auto simp: acquire_def dest: new_redis_connection_result split: prod.splits)
  next
    case (Some c)
    then show ?thesis using assms p parts by (auto simp: acquire_def)
  qed
qed

lemma release_parts:
  "release env v c w = (v', w') \<Longrightarrow> kv_config v' = kv_config v \<and> kv_lookup v' = kv_lookup v
     \<and> (kv_idle v' = kv_idle v
        \<or> kv_idle v' = kv_idle v @ [c] \<and> is_connected c \<and> length (kv_idle v) < kMaxIdleConnections)"
  by (auto simp: release_def split: if_splits)

interpretation key_pool: idle_pool "acquire env" "release env" pool_ok pool_frame pool_belongs
proof unfold_locales
  fix p p' :: "'a api_key_validator" and w w' r
  assume a: "acquire env p w = (r, p', w')"
  show "pool_frame p' = pool_frame p"
    using acquire_parts [OF a] by (simp add: pool_frame_def)
  assume "pool_ok p"
  then show "pool_ok p'"
    using acquire_parts [OF a] by (auto simp: pool_ok_def)
next
  fix p p' :: "'a api_key_validator" and w w' c
  assume a: "acquire env p w = (Inr c, p', w')" and "pool_ok p"
  then show "pool_belongs (pool_frame p) c"
    using acquire_parts [OF a] by (auto simp: pool_ok_def pool_belongs_def pool_frame_def)
next
  fix p p' :: "'a api_key_validator" and w w' c
  assume a: "release env p c w = (p', w')"
  show "pool_frame p' = pool_frame p"
    using release_parts [OF a] by (auto simp: pool_frame_def)
  assume "pool_ok p" "pool_belongs (pool_frame p) c"
  then show "pool_ok p'"
    using release_parts [OF a] by (auto simp: pool_ok_def pool_belongs_def pool_frame_def)
qed

section \<open>Lemmas\<close>

text \<open>
  The second try of \<open>read_hash\<close>, after the connection was lost: a new one, of the validator's
  configuration, which goes to the pool when the command succeeds.
\<close>

lemma read_hash_retry:
  assumes "acquire env v w = (Inr c, v1, w1)" "redis_hgetall (ke_redis env) rkey c w1 = (Inl (RedisCommandError m), c2, w2)"
    and "\<not> is_connected c2" "read_hash env rkey v w = (r, v', w')"
    and ok: "pool_ok v1" "kv_config v1 = kv_config v"
  shows "pool_ok v' \<and> pool_frame v' = pool_frame v1
    \<and> (\<forall>kvs. r = Inr kvs \<longrightarrow> (\<exists>c0 w0 c1 w1. rd_config c0 = kv_config v
          \<and> redis_hgetall (ke_redis env) rkey c0 w0 = (Inr kvs, c1, w1)))"
proof -
  obtain r3 w3 where n: "new_redis_connection (ke_redis env) (kv_config v1) w2 = (r3, w3)"
    by (rule prod.exhaust)
  show ?thesis
  proof (cases r3)
    case (Inl e)
    then show ?thesis using assms(1-4) ok n by (auto simp: read_hash_def)
  next
    case new: (Inr c3)
    have cfg3: "rd_config c3 = kv_config v"
      using new_redis_connection_result(2) [OF n [unfolded new]] ok(2) by simp
    obtain r4 c4 w4 where h: "redis_hgetall (ke_redis env) rkey c3
        (destroy_redis_connection (ke_redis env) c2 w3) = (r4, c4, w4)" by (rule prod_cases3)
    show ?thesis
    proof (cases r4)
      case (Inl e)
      then show ?thesis using assms(1-4) ok n new h by (auto simp: read_hash_def)
    next
      case kvs: (Inr kvs)
      obtain v5 w5 where g: "release env v1 c4 w4 = (v5, w5)" by (rule prod.exhaust)
      have "pool_belongs (pool_frame v1) c4"
        using hgetall_op.keeps_config [OF h] cfg3 ok(2) by (simp add: pool_belongs_def pool_frame_def)
      then have "pool_ok v5 \<and> pool_frame v5 = pool_frame v1"
        using key_pool.give_ok [OF g] key_pool.give_frame [OF g] ok(1) by simp
      then show ?thesis using assms(1-4) n new h kvs g cfg3 by (auto simp: read_hash_def)
    qed
  qed
qed

lemma read_hash_result:
  assumes "read_hash env rkey v w = (r, v', w')" "pool_ok v"
  shows "pool_ok v' \<and> pool_frame v' = pool_frame v
    \<and> (\<forall>kvs. r = Inr kvs \<longrightarrow> (\<exists>c0 w0 c1 w1. rd_config c0 = kv_config v
          \<and> redis_hgetall (ke_redis env) rkey c0 w0 = (Inr kvs, c1, w1)))"
proof -
  obtain r1 v1 w1 where a: "acquire env v w = (r1, v1, w1)" by (rule prod_cases3)
  note t = key_pool.taken [OF a assms(2)]
  show ?thesis
  proof (cases r1)
    case (Inl e)
    then show ?thesis using assms(1) a t by (auto simp: read_hash_def)
  next
    case (Inr c)
    then have cfg: "rd_config c = kv_config v"
      using t by (simp add: pool_belongs_def pool_frame_def)
    have fr: "kv_config v1 = kv_config v" using t by (simp add: pool_frame_def)
    show ?thesis
    proof (cases rule: hgetall_op.outcome [of "ke_redis env" rkey c w1])
      case (result kvs c2 w2)
      obtain v3 w3 where g: "release env v1 c2 w2 = (v3, w3)" by (rule prod.exhaust)
      have "pool_ok v3 \<and> pool_frame v3 = pool_frame v"
        using key_pool.take_give [OF a [unfolded Inr] g assms(2)] result(2)
        by (simp add: pool_belongs_def)
      then show ?thesis
        using assms(1) a Inr result g cfg by (auto simp: read_hash_def)
    next
      case (error m c2 w2)
      show ?thesis
      proof (cases "is_connected c2")
        case True
        then show ?thesis using assms(1) a Inr error t by (auto simp: read_hash_def)
      next
        case False
        show ?thesis using read_hash_retry [OF a [unfolded Inr] error(1) False assms(1)] t fr by simp
      qed
    qed
  qed
qed

lemma from_cache_result:
  assumes "from_cache env rkey v w = (r, v', w')" "pool_ok v"
  shows "pool_ok v' \<and> pool_frame v' = pool_frame v
    \<and> (\<forall>i. r = Inr (Some i) \<longrightarrow> (\<exists>c0 w0 kvs c1 w1. rd_config c0 = kv_config v
          \<and> redis_hgetall (ke_redis env) rkey c0 w0 = (Inr kvs, c1, w1)
          \<and> info_of_fields (kv_lookup v \<noteq> None) kvs = Some i))"
proof -
  obtain r1 v1 w1 where a: "read_hash env rkey v w = (r1, v1, w1)" by (rule prod_cases3)
  note t = read_hash_result [OF a assms(2)]
  then have "kv_lookup v1 = kv_lookup v" by (simp add: pool_frame_def)
  then show ?thesis
    using assms(1) a t by (cases r1) (force simp: from_cache_def)+
qed

lemma store_in_cache_result:
  assumes "store_in_cache env rkey r v w = (v', w')" "pool_ok v"
  shows "pool_ok v' \<and> pool_frame v' = pool_frame v"
proof -
  obtain r1 v1 w1 where a: "acquire env v w = (r1, v1, w1)" by (rule prod_cases3)
  note t = key_pool.taken [OF a assms(2)]
  show ?thesis
  proof (cases r1)
    case (Inl e)
    then show ?thesis using assms(1) a t by (auto simp: store_in_cache_def)
  next
    case (Inr c)
    obtain r2 c2 w2 where h: "redis_hmset (ke_redis env) rkey
        [(''client_id'', kr_client_id r), (''scopes'', kr_scopes r),
         (kSourceField, kSourcePostgres)] c w1 = (r2, c2, w2)" by (rule prod_cases3)
    obtain r3 c3 w3 where e: "redis_expire (ke_redis env) rkey
        (cache_ttl_for r (ke_now env w2)) c2 w2 = (r3, c3, w3)" by (rule prod_cases3)
    obtain v4 w4 where g: "release env v1 c3 w3 = (v4, w4)" by (rule prod.exhaust)
    have "pool_ok v4 \<and> pool_frame v4 = pool_frame v"
      using key_pool.take_give [OF a [unfolded Inr] g assms(2)]
        hmset_op.keeps_config [OF h] expire_op.keeps_config [OF e]
      by (simp add: pool_belongs_def)
    then show ?thesis
      using assms(1) a Inr h e g t by (cases r2; cases r3) (auto simp: store_in_cache_def)
  qed
qed

lemma read_hash_lookup: "read_hash env rkey v w = (r, v', w') \<Longrightarrow> kv_lookup v' = kv_lookup v"
  by (auto simp: read_hash_def dest!: acquire_parts release_parts
      split: prod.splits sum.splits exn.splits if_splits)

lemma from_cache_lookup: "from_cache env rkey v w = (r, v', w') \<Longrightarrow> kv_lookup v' = kv_lookup v"
  by (auto simp: from_cache_def dest!: read_hash_lookup split: prod.splits sum.splits)

lemma from_cache_down:
  assumes "from_cache env rkey v w = (r, v', w')"
    and "\<forall>w. \<exists>e w'. new_redis_connection (ke_redis env) (kv_config v) w = (Inl e, w')"
    and "\<forall>c w. \<exists>e. fst (redis_hgetall (ke_redis env) rkey c w) = Inl e"
  shows "\<exists>e. r = Inl e"
proof -
  have "redis_hgetall (ke_redis env) rkey c w \<noteq> (Inr kvs, c', w'')" for c w kvs c' w''
    using assms(3) by (metis fst_conv sum.distinct(1))
  then show ?thesis
    using assms(1) by (auto simp: from_cache_def read_hash_def
        split: prod.splits sum.splits exn.splits if_splits)
qed

lemma info_of_fields_Some:
  "info_of_fields b kvs = Some i \<Longrightarrow> ki_client_id i \<noteq> [] \<Longrightarrow>
     (b \<longrightarrow> map_of kvs ''src'' = Some ''pg'') \<and> map_of kvs ''client_id'' = Some (ki_client_id i)
     \<and> ki_scopes i = lookup_or_empty kvs ''scopes''"
  by (auto simp: info_of_fields_def kSourceField_def kSourcePostgres_def lookup_or_empty_def
      split: if_splits option.splits)

lemma require_client_Inr: "require_client i = Inr j \<longleftrightarrow> i = j \<and> ki_client_id j \<noteq> []"
  by (auto simp: require_client_def)

lemma validate_via_lookup_result:
  assumes "validate_via_lookup env hashed rkey v w = (r, v', w')" "pool_ok v"
  shows "pool_ok v' \<and> pool_frame v' = pool_frame v
    \<and> (\<forall>i. r = Inr i \<longrightarrow> ki_client_id i \<noteq> [] \<and> (\<exists>lookup w1 k. kv_lookup v = Some lookup
          \<and> lookup hashed w = (Inr (Some k), w1)
          \<and> i = \<lparr>ki_client_id = kr_client_id k, ki_scopes = kr_scopes k\<rparr>))"
proof (cases "kv_lookup v")
  case None
  then show ?thesis using assms by (auto simp: validate_via_lookup_def)
next
  case (Some lookup)
  obtain r1 w1 where l: "lookup hashed w = (r1, w1)" by (rule prod.exhaust)
  show ?thesis
  proof (cases "\<exists>k. r1 = Inr (Some k)")
    case True
    then obtain k where k: "r1 = Inr (Some k)" by blast
    obtain v2 w2 where s: "store_in_cache env rkey k v w1 = (v2, w2)" by (rule prod.exhaust)
    show ?thesis
      using assms(1) Some l k s store_in_cache_result [OF s assms(2)]
      by (auto simp: validate_via_lookup_def require_client_Inr)
  next
    case False
    then show ?thesis
      using assms Some l by (auto simp: validate_via_lookup_def split: sum.splits option.splits)
  qed
qed

lemma validate_via_lookup_fst:
  assumes "kv_lookup v = look"
  shows "fst (validate_via_lookup env hashed rkey v w) =
      (case look of
         None \<Rightarrow> Inl (ApiKeyValidationError ''Unknown or revoked API key'')
       | Some lookup \<Rightarrow> (case fst (lookup hashed w) of
             Inl e \<Rightarrow> Inl e
           | Inr None \<Rightarrow> Inl (ApiKeyValidationError ''Unknown, revoked or expired API key'')
           | Inr (Some k) \<Rightarrow> require_client \<lparr>ki_client_id = kr_client_id k, ki_scopes = kr_scopes k\<rparr>))"
  using assms by (auto simp: validate_via_lookup_def split: option.split prod.split sum.split)

lemma validate_result:
  assumes "validate env raw_key v w = (r, v', w')" "pool_ok v"
  shows "pool_ok v' \<and> pool_frame v' = pool_frame v"
proof -
  obtain r1 v1 w1 where f: "from_cache env (redis_key (hash_key env raw_key)) v w = (r1, v1, w1)"
    by (rule prod_cases3)
  obtain r2 v2 w2 where l: "validate_via_lookup env (hash_key env raw_key)
      (redis_key (hash_key env raw_key)) v1 w1 = (r2, v2, w2)" by (rule prod_cases3)
  note fr = from_cache_result [OF f assms(2)]
  then have lr: "pool_ok v2 \<and> pool_frame v2 = pool_frame v"
    using validate_via_lookup_result [OF l] by simp
  show ?thesis
    using assms f l fr lr by (auto simp: validate_def Let_def split: if_splits sum.splits option.splits)
qed

lemma try_connect_ok: "try_connect env v w = (r, v', w') \<Longrightarrow> pool_ok v \<Longrightarrow> pool_ok v'"
proof -
  assume t: "try_connect env v w = (r, v', w')" and ok: "pool_ok v"
  obtain r1 v1 w1 where a: "acquire env v w = (r1, v1, w1)" by (rule prod_cases3)
  show "pool_ok v'"
  proof (cases r1)
    case (Inl e)
    then show ?thesis using t a key_pool.taken [OF a ok] by (simp add: try_connect_def)
  next
    case (Inr c)
    obtain v2 w2 where g: "release env v1 c w1 = (v2, w2)" by (rule prod.exhaust)
    then show ?thesis
      using t a Inr key_pool.take_give [OF a [unfolded Inr] g ok] by (simp add: try_connect_def)
  qed
qed

lemma connect_attempts_ok:
  "connect_attempts env n msg v w = (Inr v', w') \<Longrightarrow> pool_ok v \<Longrightarrow> pool_ok v'"
proof (induction env n msg v w rule: connect_attempts.induct)
  case (2 env left msg v w)
  obtain r1 v1 w1 where t: "try_connect env v w = (r1, v1, w1)" by (rule prod_cases3)
  have "pool_ok v1" using try_connect_ok [OF t 2(3)] .
  then show ?case
    using 2(1,2) t by (cases r1) (auto split: exn.splits)
qed simp

lemma pool_ok_empty [simp]: "pool_ok \<lparr>kv_config = cfg, kv_lookup = l, kv_idle = []\<rparr>"
  by (simp add: pool_ok_def kMaxIdleConnections_def)

section \<open>Properties\<close>

text \<open>
  C11. Where an accepted key comes from: \<open>validate\<close> accepts only a non-empty key, for a
  non-empty client, and only with the client and scopes either of the hash that Redis holds
  under the key's digest, which carries the marker \<open>src = pg\<close> whenever a lookup is set, or of
  the record that the lookup returned for that digest. A record planted in Redis without the
  marker is never believed while a lookup is set.
\<close>

theorem key_validate_provenance:
  assumes "validate env raw_key v w = (Inr info, v', w')" "pool_ok v"
  shows "raw_key \<noteq> [] \<and> ki_client_id info \<noteq> [] \<and>
    ((\<exists>c0 w0 kvs c1 w1. rd_config c0 = kv_config v
        \<and> redis_hgetall (ke_redis env) (redis_key (hash_key env raw_key)) c0 w0 = (Inr kvs, c1, w1)
        \<and> (kv_lookup v \<noteq> None \<longrightarrow> map_of kvs ''src'' = Some ''pg'')
        \<and> map_of kvs ''client_id'' = Some (ki_client_id info)
        \<and> ki_scopes info = lookup_or_empty kvs ''scopes'')
     \<or> (\<exists>lookup w0 k w1. kv_lookup v = Some lookup
        \<and> lookup (hash_key env raw_key) w0 = (Inr (Some k), w1)
        \<and> ki_client_id info = kr_client_id k \<and> ki_scopes info = kr_scopes k))"
proof -
  obtain r1 v1 w1 where f: "from_cache env (redis_key (hash_key env raw_key)) v w = (r1, v1, w1)"
    by (rule prod_cases3)
  obtain r2 v2 w2 where l: "validate_via_lookup env (hash_key env raw_key)
      (redis_key (hash_key env raw_key)) v1 w1 = (r2, v2, w2)" by (rule prod_cases3)
  note fr = from_cache_result [OF f assms(2)]
  then have look: "kv_lookup v1 = kv_lookup v" and ok1: "pool_ok v1" by (simp_all add: pool_frame_def)
  have ne: "raw_key \<noteq> []" using assms(1) by (auto simp: validate_def)
  show ?thesis
  proof (cases "\<exists>i. r1 = Inr (Some i)")
    case True
    then obtain i where i: "r1 = Inr (Some i)" by blast
    then have "info = i" "ki_client_id info \<noteq> []"
      using assms(1) f ne by (auto simp: validate_def Let_def require_client_Inr)
    moreover obtain c0 w0 kvs c1 w3 where
      "rd_config c0 = kv_config v"
      "redis_hgetall (ke_redis env) (redis_key (hash_key env raw_key)) c0 w0 = (Inr kvs, c1, w3)"
      "info_of_fields (kv_lookup v \<noteq> None) kvs = Some i"
      using fr i by blast
    moreover have "(kv_lookup v \<noteq> None \<longrightarrow> map_of kvs ''src'' = Some ''pg'')
        \<and> map_of kvs ''client_id'' = Some (ki_client_id info)
        \<and> ki_scopes info = lookup_or_empty kvs ''scopes''"
      using info_of_fields_Some [of "kv_lookup v \<noteq> None" kvs i] calculation by simp
    ultimately show ?thesis using ne by blast
  next
    case False
    then have "r2 = Inr info"
      using assms(1) f l ne by (auto simp: validate_def Let_def split: sum.splits option.splits if_splits)
    then show ?thesis
      using validate_via_lookup_result [OF l ok1] look ne by fastforce
  qed
qed

text \<open>A concrete environment for the witnesses: Redis cannot be reached.\<close>

definition down_redis :: "unit hiredis" where
  "down_redis = \<lparr>hi_connect = (\<lambda>_ _ _ w. (None, w)), hi_set_timeout = (\<lambda>x _ w. (x, w)),
     hi_command = (\<lambda>x _ w. (None, x\<lparr>rc_err := 3\<rparr>, w)), hi_free = (\<lambda>_ w. w)\<rparr>"

definition down_env :: "unit key_env" where
  "down_env = \<lparr>ke_redis = down_redis, ke_sha256 = (\<lambda>s. map of_char s), ke_now = (\<lambda>_. 0),
     ke_sleep = (\<lambda>_ w. w)\<rparr>"

definition sample_record :: api_key_record where
  "sample_record = \<lparr>kr_client_id = ''c1'', kr_scopes = ''read'', kr_expires_at = Some 30500000000\<rparr>"

definition sample_validator :: "unit api_key_validator" where
  "sample_validator = \<lparr>kv_config = default_redis_config,
     kv_lookup = Some (\<lambda>h w. (Inr (if h = ''6b'' then Some sample_record else None), w)),
     kv_idle = []\<rparr>"

lemma down_connect: "\<exists>m. new_redis_connection down_redis cfg w = (Inl (RedisConfigError m), w)"
  by (simp add: new_redis_connection_def reconnect_def free_ctx_def down_redis_def Let_def)

lemma down_acquire:
  "\<exists>m. acquire down_env sample_validator w = (Inl (RedisConfigError m), sample_validator, w)"
  using down_connect [of default_redis_config w]
  by (auto simp: acquire_def down_env_def sample_validator_def)

lemma sample_hash: "hash_key down_env ''k'' = ''6b''"
  by code_simp

lemma sample_validate:
  "validate down_env ''k'' sample_validator ()
     = (Inr \<lparr>ki_client_id = ''c1'', ki_scopes = ''read''\<rparr>, sample_validator, ())"
  using down_acquire [of "()"]
  by (auto simp: validate_def from_cache_def read_hash_def validate_via_lookup_def sample_hash
      store_in_cache_def sample_validator_def sample_record_def require_client_def Let_def)

theorem key_validate_provenance_witness:
  "validate down_env ''k'' sample_validator ()
     = (Inr \<lparr>ki_client_id = ''c1'', ki_scopes = ''read''\<rparr>, sample_validator, ())
   \<and> ''k'' \<noteq> []"
  using key_validate_provenance [OF sample_validate] sample_validate
  by (simp add: pool_ok_def sample_validator_def kMaxIdleConnections_def)

text \<open>
  Errors of \<open>validate\<close>: a key is rejected with \<open>ApiKeyValidationError\<close>; the backend error is
  reported only when there is no lookup and the cache could not be read; any other exception
  is one that the lookup threw for this very digest. When Redis can neither be connected to
  nor read, the answer is the lookup's alone, and the backend error without a lookup.
\<close>

theorem key_validate_errors:
  assumes "raw_key \<noteq> []"
  shows "(case fst (validate env raw_key v w) of
      Inr _ \<Rightarrow> True
    | Inl e \<Rightarrow> (\<exists>m. e = ApiKeyValidationError m)
        \<or> kv_lookup v = None \<and> (\<exists>m. e = ApiKeyBackendError m)
            \<and> (\<exists>e'. fst (from_cache env (redis_key (hash_key env raw_key)) v w) = Inl e')
        \<or> (\<exists>lookup w1. kv_lookup v = Some lookup \<and> fst (lookup (hash_key env raw_key) w1) = Inl e))
   \<and> ((\<forall>w. \<exists>e w'. new_redis_connection (ke_redis env) (kv_config v) w = (Inl e, w'))
       \<and> (\<forall>c w. \<exists>e. fst (redis_hgetall (ke_redis env) (redis_key (hash_key env raw_key)) c w) = Inl e)
       \<longrightarrow> (case kv_lookup v of
             None \<Rightarrow> \<exists>m. fst (validate env raw_key v w) = Inl (ApiKeyBackendError m)
           | Some lookup \<Rightarrow> \<exists>w1. fst (validate env raw_key v w) =
               (case fst (lookup (hash_key env raw_key) w1) of
                  Inl e \<Rightarrow> Inl e
                | Inr None \<Rightarrow> Inl (ApiKeyValidationError ''Unknown, revoked or expired API key'')
                | Inr (Some k) \<Rightarrow>
                    if kr_client_id k = [] then Inl (ApiKeyValidationError ''API key record missing client_id'')
                    else Inr \<lparr>ki_client_id = kr_client_id k, ki_scopes = kr_scopes k\<rparr>)))"
proof -
  let ?h = "hash_key env raw_key"
  obtain r1 v1 w1 where f: "from_cache env (redis_key ?h) v w = (r1, v1, w1)" by (rule prod_cases3)
  have look: "kv_lookup v1 = kv_lookup v" using from_cache_lookup [OF f] .
  have via: "fst (validate_via_lookup env ?h (redis_key ?h) v1 w1) =
      (case kv_lookup v of
         None \<Rightarrow> Inl (ApiKeyValidationError ''Unknown or revoked API key'')
       | Some lookup \<Rightarrow> (case fst (lookup ?h w1) of
             Inl e \<Rightarrow> Inl e
           | Inr None \<Rightarrow> Inl (ApiKeyValidationError ''Unknown, revoked or expired API key'')
           | Inr (Some k) \<Rightarrow> require_client \<lparr>ki_client_id = kr_client_id k, ki_scopes = kr_scopes k\<rparr>))"
    by (rule validate_via_lookup_fst [OF look])
  have fst_validate: "fst (validate env raw_key v w) = (case r1 of
      Inl e \<Rightarrow> if kv_lookup v = None
        then Inl (ApiKeyBackendError (''Redis unavailable, cannot validate API key: '' @ what e))
        else fst (validate_via_lookup env ?h (redis_key ?h) v1 w1)
    | Inr (Some i) \<Rightarrow> require_client i
    | Inr None \<Rightarrow> fst (validate_via_lookup env ?h (redis_key ?h) v1 w1))"
    using assms f look by (auto simp: validate_def Let_def split: sum.split option.split)
  show ?thesis
  proof (intro conjI impI)
    show "case fst (validate env raw_key v w) of Inr _ \<Rightarrow> True | Inl e \<Rightarrow>
        (\<exists>m. e = ApiKeyValidationError m)
        \<or> kv_lookup v = None \<and> (\<exists>m. e = ApiKeyBackendError m)
            \<and> (\<exists>e'. fst (from_cache env (redis_key ?h) v w) = Inl e')
        \<or> (\<exists>lookup w1. kv_lookup v = Some lookup \<and> fst (lookup ?h w1) = Inl e)"
      using f by (simp add: fst_validate via require_client_def split: sum.split option.split) metis
    assume down: "(\<forall>w. \<exists>e w'. new_redis_connection (ke_redis env) (kv_config v) w = (Inl e, w'))
       \<and> (\<forall>c w. \<exists>e. fst (redis_hgetall (ke_redis env) (redis_key ?h) c w) = Inl e)"
    then obtain e where "r1 = Inl e" using from_cache_down [OF f] by blast
    then show "case kv_lookup v of
             None \<Rightarrow> \<exists>m. fst (validate env raw_key v w) = Inl (ApiKeyBackendError m)
           | Some lookup \<Rightarrow> \<exists>w1. fst (validate env raw_key v w) =
               (case fst (lookup ?h w1) of
                  Inl e \<Rightarrow> Inl e
                | Inr None \<Rightarrow> Inl (ApiKeyValidationError ''Unknown, revoked or expired API key'')
                | Inr (Some k) \<Rightarrow>
                    if kr_client_id k = [] then Inl (ApiKeyValidationError ''API key record missing client_id'')
                    else Inr \<lparr>ki_client_id = kr_client_id k, ki_scopes = kr_scopes k\<rparr>)"
    proof (cases "kv_lookup v")
      case (Some lookup)
      with \<open>r1 = Inl e\<close> have "fst (validate env raw_key v w) =
          (case fst (lookup ?h w1) of
             Inl e \<Rightarrow> Inl e
           | Inr None \<Rightarrow> Inl (ApiKeyValidationError ''Unknown, revoked or expired API key'')
           | Inr (Some k) \<Rightarrow> require_client \<lparr>ki_client_id = kr_client_id k, ki_scopes = kr_scopes k\<rparr>)"
        by (simp add: fst_validate via)
      with Some show ?thesis
        by (auto simp: require_client_def cong: sum.case_cong option.case_cong)
    qed (simp add: \<open>r1 = Inl e\<close> fst_validate)
  qed
qed

theorem key_validate_errors_witness:
  "fst (validate down_env ''k'' (sample_validator\<lparr>kv_lookup := None\<rparr>) ()) \<in> range (Inl \<circ> ApiKeyBackendError)"
proof -
  let ?v = "sample_validator\<lparr>kv_lookup := None\<rparr>"
  have "\<forall>w. \<exists>e w'. new_redis_connection (ke_redis down_env) (kv_config ?v) w = (Inl e, w')"
    using down_connect by (simp add: down_env_def) metis
  moreover have "\<forall>c w. \<exists>e. fst (redis_hgetall (ke_redis down_env)
      (redis_key (hash_key down_env ''k'')) c w) = Inl e"
    by (auto simp: redis_hgetall_def run_command_def check_connection_def redis_command_def
        down_env_def down_redis_def hash_fields_def is_connected_def split: option.split)
  ultimately show ?thesis
    using key_validate_errors [where raw_key = "''k''" and env = down_env and v = ?v and w = "()"] by auto
qed

text \<open>
  Lifetime of a cached record: between one second and \<open>kCacheTtl\<close>, and a record with at
  least one second left is never kept past its expiry; one with less left is kept for exactly
  one second.
\<close>

theorem cache_ttl_bounds:
  "1 \<le> cache_ttl_for r now \<and> cache_ttl_for r now \<le> kCacheTtl
   \<and> (case kr_expires_at r of
        None \<Rightarrow> cache_ttl_for r now = kCacheTtl
      | Some t \<Rightarrow> (if now + 1000000000 \<le> t then now + cache_ttl_for r now * 1000000000 \<le> t
                   else cache_ttl_for r now = 1))"
proof (cases "kr_expires_at r")
  case None
  then show ?thesis by (simp add: cache_ttl_for_def kCacheTtl_def)
next
  case (Some t)
  show ?thesis
  proof (cases "now + 1000000000 \<le> t")
    case True
    then have "to_seconds (t - now) = (t - now) div 1000000000"
      by (simp add: to_seconds_def)
    moreover have "1 \<le> (t - now) div 1000000000" using True by linarith
    moreover have "(t - now) div 1000000000 * 1000000000 \<le> t - now" by linarith
    ultimately show ?thesis
      using Some True by (auto simp: cache_ttl_for_def kCacheTtl_def Let_def max_def min_def)
  next
    case False
    then have "to_seconds (t - now) \<le> 0"
      by (cases "t - now > 0") (auto simp: to_seconds_def sgn_if)
    then show ?thesis
      using Some False by (auto simp: cache_ttl_for_def kCacheTtl_def Let_def max_def min_def)
  qed
qed

text \<open>
  The pool of idle connections: however the validator was built and whatever was
  validated with it, at most eight connections are idle, all open and all to the configured
  server, and the configuration and the lookup never change.
\<close>

theorem key_pool_invariant:
  "(\<forall>v' w'. validator_from_env env genv w = (Inr v', w') \<longrightarrow> pool_ok v')
   \<and> (\<forall>v' w'. new_validator env cfg lookup w = (Inr v', w') \<longrightarrow> pool_ok v')
   \<and> (\<forall>raw_key v r v' w w'. pool_ok v \<and> validate env raw_key v w = (r, v', w') \<longrightarrow>
        pool_ok v' \<and> idle_connections v' \<le> 8
        \<and> kv_config v' = kv_config v \<and> kv_lookup v' = kv_lookup v)"
proof (intro conjI allI impI)
  fix v' w' assume "validator_from_env env genv w = (Inr v', w')"
  then show "pool_ok v'"
    by (auto simp: validator_from_env_def dest: connect_attempts_ok split: sum.splits)
next
  fix v' w' assume n: "new_validator env cfg lookup w = (Inr v', w')"
  obtain r1 v1 w1 where t: "try_connect env \<lparr>kv_config = cfg, kv_lookup = lookup, kv_idle = []\<rparr> w
      = (r1, v1, w1)" by (rule prod_cases3)
  show "pool_ok v'"
    using n t try_connect_ok [OF t] by (auto simp: new_validator_def split: sum.splits exn.splits)
next
  fix raw_key :: string and v v' :: "'a api_key_validator" and r w w'
  assume a: "pool_ok v \<and> validate env raw_key v w = (r, v', w')"
  note p = validate_result [OF conjunct2 [OF a] conjunct1 [OF a]]
  then show "pool_ok v'" by simp
  from p show "idle_connections v' \<le> 8"
    by (simp add: pool_ok_def idle_connections_def kMaxIdleConnections_def)
  from p show "kv_config v' = kv_config v" "kv_lookup v' = kv_lookup v"
    by (simp_all add: pool_frame_def)
qed

theorem key_pool_invariant_witness:
  "pool_ok sample_validator
   \<and> idle_connections (fst (snd (validate down_env ''k'' sample_validator ()))) \<le> 8"
proof -
  have "pool_ok sample_validator"
    by (simp add: pool_ok_def sample_validator_def kMaxIdleConnections_def)
  then show ?thesis
    using key_pool_invariant [of down_env "\<lambda>_. None" "()" default_redis_config None] sample_validate
    by (metis fst_conv snd_conv)
qed

end
