(* ===== verification/Authenticator.thy ===== *)
theory Authenticator
  imports Jwt ApiKey
begin

text \<open>
  Authentication of a request, \<open>include/corvus/auth/authenticator.h\<close>,
  \<open>src/auth/authenticator.cpp\<close>, \<open>src/auth/client_context.cpp\<close> and \<open>src/auth/middleware.cpp\<close>. The
  two checks are functions of the world, as \<open>std::function\<close> parameters are, and may throw
  anything. The result of \<open>authenticate\<close> is a pair of two sums: the outer one is an exception
  that nobody catches, the inner one the variant of \<open>AuthError\<close> and \<open>Principal\<close>.
\<close>

record principal =
  pr_client_id :: string
  pr_scopes :: "string set"
  via_api_key :: bool
  via_jwt :: bool

definition has_scope :: "principal \<Rightarrow> string \<Rightarrow> bool" where
  "has_scope p scope \<longleftrightarrow> scope \<in> pr_scopes p"

datatype auth_failure = AF_unauthorized | AF_forbidden | AF_unavailable

record auth_error =
  af_kind :: auth_failure
  af_message :: string

record credentials =
  cr_method :: string
  cr_authorization :: string
  cr_api_key :: string

type_synonym 'w jwt_check = "string \<Rightarrow> 'w \<Rightarrow> (exn + claims) \<times> 'w"
type_synonym 'w key_check = "string \<Rightarrow> 'w \<Rightarrow> (exn + api_key_info) \<times> 'w"
type_synonym auth_result = "auth_error + principal"

definition unauthorized :: "string \<Rightarrow> auth_error" where
  "unauthorized msg = \<lparr>af_kind = AF_unauthorized, af_message = msg\<rparr>"

definition kBearer :: string where
  "kBearer = ''Bearer ''"

section \<open>Scopes\<close>

definition is_sep :: "char \<Rightarrow> bool" where
  "is_sep c \<longleftrightarrow> c = CHR '','' \<or> c = CHR '' '' \<or> c = CHR 0x09"

text \<open>The loop of \<open>parse_scopes\<close>: the scopes found and the one being read.\<close>

fun scopes_loop :: "string set \<Rightarrow> string \<Rightarrow> string \<Rightarrow> string set \<times> string" where
  "scopes_loop out current [] = (out, current)"
| "scopes_loop out current (ch # raw) =
     (if is_sep ch
      then scopes_loop (if current \<noteq> [] then insert current out else out) [] raw
      else scopes_loop out (current @ [ch]) raw)"

definition parse_scopes :: "string \<Rightarrow> string set" where
  "parse_scopes raw = (case scopes_loop {} [] raw of
      (out, current) \<Rightarrow> if current \<noteq> [] then insert current out else out)"

definition required_scope :: "string \<Rightarrow> string" where
  "required_scope m =
     (if m = ''GET'' \<or> m = ''HEAD'' \<or> m = ''OPTIONS'' then ''read'' else ''write'')"

section \<open>Authentication\<close>

definition no_principal :: principal where
  "no_principal = \<lparr>pr_client_id = [], pr_scopes = {}, via_api_key = False, via_jwt = False\<rparr>"

text \<open>\<open>if (has_key) {...}\<close>\<close>

definition key_phase ::
  "credentials \<Rightarrow> 'w key_check \<Rightarrow> principal \<Rightarrow> 'w \<Rightarrow> (exn + auth_result) \<times> 'w" where
  "key_phase creds check_key p w =
     (if cr_api_key creds = [] then (Inr (Inr p), w)
      else case check_key (cr_api_key creds) w of
        (Inr info, w) \<Rightarrow>
          (Inr (Inr (p\<lparr>pr_client_id := ki_client_id info, pr_scopes := parse_scopes (ki_scopes info),
                       via_api_key := True\<rparr>)), w)
      | (Inl (ApiKeyBackendError _), w) \<Rightarrow>
          (Inr (Inl \<lparr>af_kind = AF_unavailable,
             af_message = ''Authentication is temporarily unavailable. Try again later.''\<rparr>), w)
      | (Inl (ApiKeyValidationError _), w) \<Rightarrow>
          (Inr (Inl (unauthorized ''Invalid or expired API key'')), w)
      | (Inl e, w) \<Rightarrow> (Inl e, w))"

text \<open>What follows a token whose claims were returned.\<close>

definition bind_claims :: "claims \<Rightarrow> principal \<Rightarrow> auth_result" where
  "bind_claims c p = (case cl_client_id c of
      None \<Rightarrow> Inl (unauthorized ''Token is not bound to a client (missing client_id claim)'')
    | Some cid \<Rightarrow>
        if cid = []
        then Inl (unauthorized ''Token is not bound to a client (missing client_id claim)'')
        else let token_scopes = parse_scopes (cl_scope c)
             in if via_api_key p
                then if cid \<noteq> pr_client_id p
                     then Inl (unauthorized ''API key and token belong to different clients'')
                     else Inr (p\<lparr>pr_scopes := pr_scopes p \<inter> token_scopes, via_jwt := True\<rparr>)
                else Inr (p\<lparr>pr_client_id := cid, pr_scopes := token_scopes, via_jwt := True\<rparr>))"

text \<open>\<open>if (has_jwt) {...}\<close>\<close>

definition malformed_header :: string where
  "malformed_header = ''Malformed Authorization header: expected 'Bearer <token>'' @ [CHR 0x27]"

definition jwt_phase ::
  "credentials \<Rightarrow> 'w jwt_check \<Rightarrow> principal \<Rightarrow> 'w \<Rightarrow> (exn + auth_result) \<times> 'w" where
  "jwt_phase creds check_jwt p w =
     (if cr_authorization creds = [] then (Inr (Inr p), w)
      else if \<not> starts_with kBearer (cr_authorization creds)
              \<or> length (cr_authorization creds) = length kBearer
      then (Inr (Inl (unauthorized malformed_header)), w)
      else case check_jwt (substr_from (cr_authorization creds) (length kBearer)) w of
        (Inr c, w) \<Rightarrow> (Inr (bind_claims c p), w)
      | (Inl (JwtValidationError _), w) \<Rightarrow> (Inr (Inl (unauthorized ''Invalid or expired token'')), w)
      | (Inl e, w) \<Rightarrow> (Inl e, w))"

definition scope_phase :: "credentials \<Rightarrow> principal \<Rightarrow> auth_result" where
  "scope_phase creds p =
     (let needed = required_scope (cr_method creds)
      in if \<not> has_scope p needed
         then Inl \<lparr>af_kind = AF_forbidden,
                   af_message = ''This credential lacks the '' @ [CHR 0x27] @ needed @ [CHR 0x27] @ '' scope''\<rparr>
         else Inr p)"

definition missing_credentials :: string where
  "missing_credentials = ''Missing credentials: send an X-Api-Key header or an ''
     @ ''Authorization: Bearer token''"

definition authenticate ::
  "credentials \<Rightarrow> 'w jwt_check \<Rightarrow> 'w key_check \<Rightarrow> 'w \<Rightarrow> (exn + auth_result) \<times> 'w" where
  "authenticate creds check_jwt check_key w =
     (if cr_api_key creds = [] \<and> cr_authorization creds = []
      then (Inr (Inl (unauthorized missing_credentials)), w)
      else case key_phase creds check_key no_principal w of
        (Inl e, w) \<Rightarrow> (Inl e, w)
      | (Inr (Inl err), w) \<Rightarrow> (Inr (Inl err), w)
      | (Inr (Inr p), w) \<Rightarrow> (case jwt_phase creds check_jwt p w of
          (Inl e, w) \<Rightarrow> (Inl e, w)
        | (Inr (Inl err), w) \<Rightarrow> (Inr (Inl err), w)
        | (Inr (Inr p), w) \<Rightarrow> (Inr (scope_phase creds p), w)))"

section \<open>The middleware\<close>

definition kClientIdKey :: string where
  "kClientIdKey = ''corvus-client-id''"

definition get_client_id :: "http_request \<Rightarrow> string" where
  "get_client_id req = get_attr req kClientIdKey"

fun to_error_code :: "auth_failure \<Rightarrow> error_code" where
  "to_error_code AF_forbidden = EC_forbidden"
| "to_error_code AF_unavailable = EC_service_unavailable"
| "to_error_code AF_unauthorized = EC_unauthorized"

text \<open>
  A pre-handling advice either answers the request through its callback or lets it go on, with
  the attributes it has set.
\<close>

datatype advice = Respond http_response | Next http_request

text \<open>
  The advice that \<open>register_auth_middleware\<close> registers; \<open>rnd\<close> are the random draws of this
  call, \<open>now\<close> the time of its response, the two checks the validators' \<open>validate\<close>.
\<close>

definition auth_advice ::
  "'w jwt_check \<Rightarrow> 'w key_check \<Rightarrow> uuid_draws \<Rightarrow> int \<Rightarrow> http_request \<Rightarrow> 'w \<Rightarrow> (exn + advice) \<times> 'w" where
  "auth_advice check_jwt check_key rnd now req w =
     (if \<not> starts_with ''/v1/'' (rq_path req) then (Inr (Next req), w)
      else
        let request_id = get_request_id req rnd;
            creds = \<lparr>cr_method = method_string (rq_method req),
                     cr_authorization = get_header req ''authorization'',
                     cr_api_key = get_header req ''x-api-key''\<rparr>
        in case authenticate creds check_jwt check_key w of
             (Inl e, w) \<Rightarrow> (Inl e, w)
           | (Inr (Inl err), w) \<Rightarrow>
               (let resp = respond_error (to_error_code (af_kind err)) (af_message err) request_id now;
                    resp = add_header ''x-request-id'' request_id resp;
                    resp = (if af_kind err = AF_unavailable then add_header ''retry-after'' ''5'' resp
                            else resp)
                in (Inr (Respond resp), w))
           | (Inr (Inr p), w) \<Rightarrow> (Inr (Next (insert_attr kClientIdKey (pr_client_id p) req)), w))"

text \<open>The two checks of the registered advice: the validators themselves.\<close>

definition jwt_check_of :: "('alg, 'tok) jwt_lib \<Rightarrow> jwt_validator \<Rightarrow> ('w \<Rightarrow> int) \<Rightarrow> 'w jwt_check" where
  "jwt_check_of lib v clock token w = (jwt_validate lib v (clock w) token, w)"

text \<open>The key check keeps the validator in the world.\<close>

definition key_check_of :: "'w key_env \<Rightarrow> ('w api_key_validator \<times> 'w) key_check" where
  "key_check_of env raw_key s = (case s of (v, w) \<Rightarrow>
     (case validate env raw_key v w of (r, v, w) \<Rightarrow> (r, (v, w))))"

section \<open>Lemmas\<close>

text \<open>
  The scopes of a string are its maximal runs of characters that are no separators.
\<close>

definition scope_runs :: "string \<Rightarrow> string set" where
  "scope_runs s = {t. t \<noteq> [] \<and> (\<forall>c\<in>set t. \<not> is_sep c)
     \<and> (\<exists>a b. s = a @ t @ b \<and> (a = [] \<or> is_sep (last a)) \<and> (b = [] \<or> is_sep (hd b)))}"

lemma scope_runs_word:
  assumes "\<forall>c\<in>set s. \<not> is_sep c"
  shows "scope_runs s = (if s = [] then {} else {s})"
proof -
  have "t = s" if t: "t \<noteq> []" "s = a @ t @ b" "a = [] \<or> is_sep (last a)" "b = [] \<or> is_sep (hd b)"
    for t a b
  proof -
    have "a = []" using t(2,3) assms by (metis Un_iff last_in_set set_append)
    moreover have "b = []" using t(2,4) assms by (metis Un_iff hd_in_set set_append)
    ultimately show ?thesis using t(2) by simp
  qed
  moreover have "\<exists>a b. s = a @ s @ b \<and> (a = [] \<or> is_sep (last a)) \<and> (b = [] \<or> is_sep (hd b))"
    by (intro exI [of _ "[]"]) simp
  ultimately show ?thesis using assms by (auto simp: scope_runs_def)
qed

text \<open>A run before a separator is the whole word before it or lies behind the separator.\<close>

lemma run_before_sep:
  assumes w: "\<forall>c\<in>set w. \<not> is_sep c" and t: "t \<noteq> []" "\<forall>c\<in>set t. \<not> is_sep c" "w @ ch # r = t @ b"
    and b: "b = [] \<or> is_sep (hd b)" and s: "is_sep ch"
  shows "t = w"
proof -
  obtain us where "w = t @ us \<and> us @ ch # r = b \<or> w @ us = t \<and> ch # r = us @ b"
    using t(3) unfolding append_eq_append_conv2 by blast
  then show ?thesis
  proof
    assume u: "w = t @ us \<and> us @ ch # r = b"
    have "us = []"
    proof (rule ccontr)
      assume "us \<noteq> []"
      with u have "hd b \<in> set w" "b \<noteq> []" by (auto simp: hd_append)
      with b w show False by blast
    qed
    with u show ?thesis by simp
  next
    assume u: "w @ us = t \<and> ch # r = us @ b"
    then have "us = []" using t(2) s by (cases us) auto
    with u show ?thesis by simp
  qed
qed

lemma run_after_sep:
  assumes w: "\<forall>c\<in>set w. \<not> is_sep c" and a: "a \<noteq> []" "is_sep (last a)" and eq: "w @ ch # r = a @ t"
  shows "\<exists>a'. a = w @ ch # a'"
proof -
  obtain us where "w = a @ us \<and> us @ ch # r = t \<or> w @ us = a \<and> ch # r = us @ t"
    using eq unfolding append_eq_append_conv2 by blast
  moreover have "\<not> (w = a @ us)" using a w by (metis Un_iff last_in_set set_append)
  ultimately have u: "w @ us = a" "ch # r = us @ t" by auto
  have "us \<noteq> []" using u(1) a w by (metis append_Nil2 last_in_set)
  with u show ?thesis by (cases us) auto
qed

lemma scope_runs_sep:
  assumes w: "\<forall>c\<in>set w. \<not> is_sep c" and s: "is_sep ch"
  shows "scope_runs (w @ ch # r) = (if w = [] then {} else {w}) \<union> scope_runs r"
proof (intro equalityI subsetI)
  fix t assume "t \<in> scope_runs (w @ ch # r)"
  then obtain a b where t: "t \<noteq> []" "\<forall>c\<in>set t. \<not> is_sep c" "w @ ch # r = a @ t @ b"
      "a = [] \<or> is_sep (last a)" "b = [] \<or> is_sep (hd b)"
    by (auto simp: scope_runs_def)
  show "t \<in> (if w = [] then {} else {w}) \<union> scope_runs r"
  proof (cases "a = []")
    case True
    then have "t = w" using run_before_sep [OF w t(1,2) _ t(5) s] t(3) by simp
    with t(1) show ?thesis by simp
  next
    case False
    then obtain a' where a': "a = w @ ch # a'" using run_after_sep [OF w False _ t(3)] t(4) by blast
    then have "r = a' @ t @ b" using t(3) by simp
    moreover have "a' = [] \<or> is_sep (last a')" using t(4) a' by (cases "a' = []") auto
    ultimately show ?thesis using t by (auto simp: scope_runs_def)
  qed
next
  fix t assume "t \<in> (if w = [] then {} else {w}) \<union> scope_runs r"
  then consider "w \<noteq> []" "t = w" | "t \<in> scope_runs r" by (auto split: if_splits)
  then show "t \<in> scope_runs (w @ ch # r)"
  proof cases
    case 1
    then have "w @ ch # r = [] @ t @ ch # r" by simp
    with 1 w s show ?thesis unfolding scope_runs_def by (simp only: mem_Collect_eq) (metis list.sel(1))
  next
    case 2
    then obtain a b where t: "t \<noteq> []" "\<forall>c\<in>set t. \<not> is_sep c" "r = a @ t @ b"
        "a = [] \<or> is_sep (last a)" "b = [] \<or> is_sep (hd b)"
      by (auto simp: scope_runs_def)
    then have "w @ ch # r = (w @ ch # a) @ t @ b" "is_sep (last (w @ ch # a))"
      using s by (cases "a = []"; simp)+
    with t(1,2,5) show ?thesis unfolding scope_runs_def by blast
  qed
qed

lemma scopes_loop_runs:
  assumes "\<forall>c\<in>set cur. \<not> is_sep c"
  shows "(case scopes_loop out cur raw of (o', c') \<Rightarrow> if c' \<noteq> [] then insert c' o' else o')
    = out \<union> scope_runs (cur @ raw)"
  using assms
proof (induction out cur raw rule: scopes_loop.induct)
  case (1 out cur)
  then show ?case by (simp add: scope_runs_word)
next
  case (2 out cur ch raw)
  show ?case
  proof (cases "is_sep ch")
    case True
    then show ?thesis
      using 2(1) [OF True] scope_runs_sep [OF 2(3) True, of raw] by (cases "cur = []") auto
  next
    case False
    then show ?thesis using 2(2) [OF False] 2(3) by simp
  qed
qed

text \<open>What it means that each credential of a request is accepted, and what they yield.\<close>

definition key_accepted ::
  "credentials \<Rightarrow> 'w key_check \<Rightarrow> 'w \<Rightarrow> api_key_info option \<Rightarrow> 'w \<Rightarrow> bool" where
  "key_accepted creds check_key w k w' \<longleftrightarrow>
     (if cr_api_key creds = [] then k = None \<and> w' = w
      else \<exists>info. check_key (cr_api_key creds) w = (Inr info, w') \<and> k = Some info)"

definition jwt_accepted ::
  "credentials \<Rightarrow> 'w jwt_check \<Rightarrow> 'w \<Rightarrow> (string \<times> string set) option \<Rightarrow> 'w \<Rightarrow> bool" where
  "jwt_accepted creds check_jwt w j w' \<longleftrightarrow>
     (if cr_authorization creds = [] then j = None \<and> w' = w
      else \<exists>token c cid. cr_authorization creds = kBearer @ token \<and> token \<noteq> []
        \<and> check_jwt token w = (Inr c, w') \<and> cl_client_id c = Some cid \<and> cid \<noteq> []
        \<and> j = Some (cid, parse_scopes (cl_scope c)))"

definition combined ::
  "api_key_info option \<Rightarrow> (string \<times> string set) option \<Rightarrow> principal option" where
  "combined k j = (case (k, j) of
      (None, None) \<Rightarrow> None
    | (Some i, None) \<Rightarrow> Some \<lparr>pr_client_id = ki_client_id i, pr_scopes = parse_scopes (ki_scopes i),
                             via_api_key = True, via_jwt = False\<rparr>
    | (None, Some (cid, ss)) \<Rightarrow> Some \<lparr>pr_client_id = cid, pr_scopes = ss,
                             via_api_key = False, via_jwt = True\<rparr>
    | (Some i, Some (cid, ss)) \<Rightarrow>
        if cid = ki_client_id i
        then Some \<lparr>pr_client_id = cid, pr_scopes = parse_scopes (ki_scopes i) \<inter> ss,
                  via_api_key = True, via_jwt = True\<rparr>
        else None)"

lemma bearer_split:
  "starts_with kBearer a \<and> length a \<noteq> length kBearer \<longleftrightarrow>
     (\<exists>token. a = kBearer @ token \<and> token \<noteq> [])"
  unfolding starts_with_iff by auto

text \<open>The effect of each accepted credential on the principal.\<close>

definition add_key :: "api_key_info option \<Rightarrow> principal \<Rightarrow> principal" where
  "add_key k p = (case k of None \<Rightarrow> p
     | Some i \<Rightarrow> p\<lparr>pr_client_id := ki_client_id i, pr_scopes := parse_scopes (ki_scopes i),
                  via_api_key := True\<rparr>)"

definition add_jwt :: "(string \<times> string set) option \<Rightarrow> principal \<Rightarrow> principal option" where
  "add_jwt j p = (case j of None \<Rightarrow> Some p
     | Some (cid, ss) \<Rightarrow>
         if via_api_key p
         then if cid = pr_client_id p
              then Some (p\<lparr>pr_scopes := pr_scopes p \<inter> ss, via_jwt := True\<rparr>) else None
         else Some (p\<lparr>pr_client_id := cid, pr_scopes := ss, via_jwt := True\<rparr>))"

lemma combined_add:
  "k \<noteq> None \<or> j \<noteq> None \<Longrightarrow> combined k j = add_jwt j (add_key k no_principal)"
  "combined None None = None"
  by (cases k; cases j; auto simp: combined_def add_jwt_def add_key_def no_principal_def)+

lemma key_phase_Inr:
  "key_phase creds ck p w = (Inr (Inr q), w') \<longleftrightarrow> (\<exists>k. key_accepted creds ck w k w' \<and> q = add_key k p)"
proof (cases "cr_api_key creds = []")
  case False
  obtain r w1 where ck: "ck (cr_api_key creds) w = (r, w1)" by (rule prod.exhaust)
  show ?thesis
  proof (cases r)
    case (Inl e)
    then show ?thesis using False ck by (cases e) (auto simp: key_phase_def key_accepted_def)
  qed (use False ck in \<open>auto simp: key_phase_def key_accepted_def add_key_def\<close>)
qed (auto simp: key_phase_def key_accepted_def add_key_def)

lemma bind_claims_Inr:
  "bind_claims c p = Inr q \<longleftrightarrow> (\<exists>cid. cl_client_id c = Some cid \<and> cid \<noteq> []
     \<and> add_jwt (Some (cid, parse_scopes (cl_scope c))) p = Some q)"
  by (cases "cl_client_id c") (auto simp: bind_claims_def add_jwt_def Let_def)

lemma jwt_phase_bearer:
  assumes "cr_authorization creds = kBearer @ token" "token \<noteq> []"
  shows "jwt_phase creds cj p w = (case cj token w of
        (Inr c, w) \<Rightarrow> (Inr (bind_claims c p), w)
      | (Inl (JwtValidationError _), w) \<Rightarrow> (Inr (Inl (unauthorized ''Invalid or expired token'')), w)
      | (Inl e, w) \<Rightarrow> (Inl e, w))"
  using assms by (simp add: jwt_phase_def starts_with_append substr_from_def)

lemma jwt_phase_malformed:
  assumes "cr_authorization creds \<noteq> []"
    and "\<not> (\<exists>token. cr_authorization creds = kBearer @ token \<and> token \<noteq> [])"
  shows "jwt_phase creds cj p w =
    (Inr (Inl (unauthorized malformed_header)), w)"
  using assms bearer_split [of "cr_authorization creds"] unfolding jwt_phase_def by (simp only: if_False) auto

lemma jwt_phase_Inr:
  "jwt_phase creds cj p w = (Inr (Inr q), w') \<longleftrightarrow>
     (\<exists>j. jwt_accepted creds cj w j w' \<and> add_jwt j p = Some q)"
proof (cases "cr_authorization creds = []")
  case True
  then show ?thesis by (auto simp: jwt_phase_def jwt_accepted_def add_jwt_def)
next
  case False
  show ?thesis
  proof (cases "\<exists>token. cr_authorization creds = kBearer @ token \<and> token \<noteq> []")
    case True
    then obtain token where t: "cr_authorization creds = kBearer @ token" "token \<noteq> []" by blast
    obtain r w1 where cj: "cj token w = (r, w1)" by (rule prod.exhaust)
    show ?thesis
    proof (cases r)
      case (Inl e)
      then show ?thesis
        using jwt_phase_bearer [OF t, of cj p w] cj t by (cases e) (simp_all add: jwt_accepted_def)
    next
      case (Inr c)
      then show ?thesis
        using jwt_phase_bearer [OF t, of cj p w] cj t by (auto simp: jwt_accepted_def bind_claims_Inr)
    qed
  next
    case no: False
    then show ?thesis
      using False jwt_phase_malformed [OF False no, of cj p w] by (auto simp: jwt_accepted_def)
  qed
qed

lemma key_phase_error:
  assumes "key_phase creds ck p w = (r, w')" "\<And>q. r \<noteq> Inr (Inr q)"
  shows "cr_api_key creds \<noteq> [] \<and> (\<exists>e. ck (cr_api_key creds) w = (Inl e, w') \<and>
     (r = Inl e \<and> (\<forall>m. e \<noteq> ApiKeyBackendError m \<and> e \<noteq> ApiKeyValidationError m)
      \<or> (\<exists>m err. e = ApiKeyBackendError m \<and> r = Inr (Inl err) \<and> af_kind err = AF_unavailable)
      \<or> (\<exists>m err. e = ApiKeyValidationError m \<and> r = Inr (Inl err) \<and> af_kind err = AF_unauthorized)))"
proof (cases "cr_api_key creds = []")
  case True
  then show ?thesis using assms by (auto simp: key_phase_def)
next
  case False
  obtain x w1 where ck: "ck (cr_api_key creds) w = (x, w1)" by (rule prod.exhaust)
  show ?thesis
  proof (cases x)
    case (Inl e)
    then show ?thesis
      using False ck assms by (cases e) (auto simp: key_phase_def unauthorized_def)
  next
    case (Inr i)
    then show ?thesis using False ck assms by (auto simp: key_phase_def)
  qed
qed

lemma bind_claims_error: "bind_claims c p = Inl err \<Longrightarrow> af_kind err = AF_unauthorized"
  by (auto simp: bind_claims_def unauthorized_def Let_def split: option.splits if_splits)

lemma jwt_phase_error:
  assumes "jwt_phase creds cj p w = (r, w')" "\<And>q. r \<noteq> Inr (Inr q)"
  shows "(\<exists>err. r = Inr (Inl err) \<and> af_kind err = AF_unauthorized)
    \<or> (\<exists>token e. cr_authorization creds = kBearer @ token \<and> cj token w = (Inl e, w')
        \<and> r = Inl e \<and> (\<forall>m. e \<noteq> JwtValidationError m))"
proof (cases "\<exists>token. cr_authorization creds = kBearer @ token \<and> token \<noteq> []")
  case True
  then obtain token where t: "cr_authorization creds = kBearer @ token" "token \<noteq> []" by blast
  obtain x w1 where cj: "cj token w = (x, w1)" by (rule prod.exhaust)
  show ?thesis
  proof (cases x)
    case (Inl e)
    then show ?thesis
      using assms jwt_phase_bearer [OF t, of cj p w] cj t
      by (cases e) (auto simp: unauthorized_def)
  next
    case (Inr c)
    then have r: "r = Inr (bind_claims c p)"
      using assms(1) jwt_phase_bearer [OF t, of cj p w] cj by simp
    then show ?thesis
      using assms(2) bind_claims_error [of c p] by (cases "bind_claims c p") auto
  qed
next
  case False
  show ?thesis
  proof (cases "cr_authorization creds = []")
    case True
    then show ?thesis using assms by (auto simp: jwt_phase_def)
  next
    case ne: False
    show ?thesis
      using assms(1) jwt_phase_malformed [OF ne False, of cj p w] by (auto simp: unauthorized_def)
  qed
qed

lemma scope_phase_Inr:
  "scope_phase creds p = Inr q \<longleftrightarrow> q = p \<and> required_scope (cr_method creds) \<in> pr_scopes p"
  by (auto simp: scope_phase_def has_scope_def Let_def)

lemma scope_phase_Inl:
  "scope_phase creds p = Inl err \<Longrightarrow>
     af_kind err = AF_forbidden \<and> required_scope (cr_method creds) \<notin> pr_scopes p"
  by (auto simp: scope_phase_def has_scope_def Let_def split: if_splits)

text \<open>The principal before the scope check, and the authentication in terms of it.\<close>

definition identified ::
  "credentials \<Rightarrow> 'w jwt_check \<Rightarrow> 'w key_check \<Rightarrow> 'w \<Rightarrow> principal \<Rightarrow> 'w \<Rightarrow> bool" where
  "identified creds cj ck w p w' \<longleftrightarrow>
     (\<exists>k w1 j. key_accepted creds ck w k w1 \<and> jwt_accepted creds cj w1 j w' \<and> combined k j = Some p)"

lemma identified_phases:
  assumes "\<not> (cr_api_key creds = [] \<and> cr_authorization creds = [])"
  shows "identified creds cj ck w p w' \<longleftrightarrow>
    (\<exists>q w1. key_phase creds ck no_principal w = (Inr (Inr q), w1)
        \<and> jwt_phase creds cj q w1 = (Inr (Inr p), w'))"
proof -
  have c: "combined k j = add_jwt j (add_key k no_principal)"
    if "key_accepted creds ck w k w1" "jwt_accepted creds cj w1 j w'" for k j w1
    using that assms by (intro combined_add) (auto simp: key_accepted_def jwt_accepted_def split: if_splits)
  show ?thesis
  proof
    assume "identified creds cj ck w p w'"
    then obtain k w1 j where a: "key_accepted creds ck w k w1" "jwt_accepted creds cj w1 j w'"
        "combined k j = Some p" unfolding identified_def by blast
    have "key_phase creds ck no_principal w = (Inr (Inr (add_key k no_principal)), w1)"
      unfolding key_phase_Inr using a(1) by blast
    moreover have "jwt_phase creds cj (add_key k no_principal) w1 = (Inr (Inr p), w')"
      unfolding jwt_phase_Inr using a(2,3) c [OF a(1,2)] by metis
    ultimately show "\<exists>q w1. key_phase creds ck no_principal w = (Inr (Inr q), w1)
        \<and> jwt_phase creds cj q w1 = (Inr (Inr p), w')" by blast
  next
    assume "\<exists>q w1. key_phase creds ck no_principal w = (Inr (Inr q), w1)
        \<and> jwt_phase creds cj q w1 = (Inr (Inr p), w')"
    then obtain k w1 j where a: "key_accepted creds ck w k w1" "jwt_accepted creds cj w1 j w'"
        "add_jwt j (add_key k no_principal) = Some p"
      unfolding key_phase_Inr jwt_phase_Inr by blast
    then show "identified creds cj ck w p w'"
      unfolding identified_def using c [OF a(1,2)] by metis
  qed
qed

lemma not_identified:
  "cr_api_key creds = [] \<Longrightarrow> cr_authorization creds = [] \<Longrightarrow> \<not> identified creds cj ck w p w'"
  by (auto simp: identified_def key_accepted_def jwt_accepted_def combined_add)

lemma authenticate_steps:
  assumes "\<not> (cr_api_key creds = [] \<and> cr_authorization creds = [])"
  shows "key_phase creds ck no_principal w = (Inl e, w1) \<Longrightarrow> authenticate creds cj ck w = (Inl e, w1)"
    and "key_phase creds ck no_principal w = (Inr (Inl err), w1) \<Longrightarrow>
           authenticate creds cj ck w = (Inr (Inl err), w1)"
    and "key_phase creds ck no_principal w = (Inr (Inr q), w1) \<Longrightarrow>
           jwt_phase creds cj q w1 = (Inl e, w2) \<Longrightarrow> authenticate creds cj ck w = (Inl e, w2)"
    and "key_phase creds ck no_principal w = (Inr (Inr q), w1) \<Longrightarrow>
           jwt_phase creds cj q w1 = (Inr (Inl err), w2) \<Longrightarrow>
           authenticate creds cj ck w = (Inr (Inl err), w2)"
    and "key_phase creds ck no_principal w = (Inr (Inr q), w1) \<Longrightarrow>
           jwt_phase creds cj q w1 = (Inr (Inr p), w2) \<Longrightarrow>
           authenticate creds cj ck w = (Inr (scope_phase creds p), w2)"
  unfolding authenticate_def using assms by auto

lemma authenticate_identified:
  "identified creds cj ck w p w' \<Longrightarrow> authenticate creds cj ck w = (Inr (scope_phase creds p), w')"
  using not_identified [of creds cj ck w p w'] identified_phases [of creds cj ck w p w']
    authenticate_steps(5) [of creds ck w _ _ cj p w'] by blast

lemma authenticate_not_identified:
  assumes "\<And>p w'. \<not> identified creds cj ck w p w'"
  obtains (missing) err where "cr_api_key creds = []" "fst (authenticate creds cj ck w) = Inr (Inl err)"
      "af_kind err = AF_unauthorized"
  | (key) r w1 where "key_phase creds ck no_principal w = (r, w1)" "\<And>q. r \<noteq> Inr (Inr q)"
      "authenticate creds cj ck w = (r, w1)"
  | (jwt) q w1 r w2 where "key_phase creds ck no_principal w = (Inr (Inr q), w1)"
      "jwt_phase creds cj q w1 = (r, w2)" "\<And>q. r \<noteq> Inr (Inr q)" "authenticate creds cj ck w = (r, w2)"
proof (cases "cr_api_key creds = [] \<and> cr_authorization creds = []")
  case True
  then show ?thesis using missing by (auto simp: authenticate_def unauthorized_def)
next
  case some: False
  obtain r w1 where k: "key_phase creds ck no_principal w = (r, w1)" by (rule prod.exhaust)
  show ?thesis
  proof (cases "\<exists>q. r = Inr (Inr q)")
    case False
    have "authenticate creds cj ck w = (r, w1)"
    proof (cases r)
      case (Inl e)
      then show ?thesis using authenticate_steps(1) [OF some] k by simp
    next
      case (Inr x)
      with False obtain err where "r = Inr (Inl err)" by (cases x) auto
      then show ?thesis using authenticate_steps(2) [OF some] k by simp
    qed
    then show ?thesis using key k False by blast
  next
    case True
    then obtain q where q: "r = Inr (Inr q)" by blast
    obtain r2 w2 where j: "jwt_phase creds cj q w1 = (r2, w2)" by (rule prod.exhaust)
    have no: "r2 \<noteq> Inr (Inr p)" for p
      using assms [of p w2] identified_phases [OF some, of cj ck w p w2] k q j by blast
    have "authenticate creds cj ck w = (r2, w2)"
    proof (cases r2)
      case (Inl e)
      then show ?thesis using authenticate_steps(3) [OF some] k q j by simp
    next
      case (Inr x)
      with no obtain err where "r2 = Inr (Inl err)" by (cases x) auto
      then show ?thesis using authenticate_steps(4) [OF some] k q j by simp
    qed
    then show ?thesis using jwt k q j no by blast
  qed
qed

lemma identified_unique:
  assumes "identified creds cj ck w p w1" "identified creds cj ck w q w2"
  shows "q = p \<and> w2 = w1"
proof -
  have some: "\<not> (cr_api_key creds = [] \<and> cr_authorization creds = [])"
    using assms(1) not_identified [of creds cj ck w p w1] by argo
  obtain x y where xy: "key_phase creds ck no_principal w = (Inr (Inr x), y)"
      "jwt_phase creds cj x y = (Inr (Inr p), w1)"
    using assms(1) unfolding identified_phases [OF some] by blast
  obtain x' y' where xy': "key_phase creds ck no_principal w = (Inr (Inr x'), y')"
      "jwt_phase creds cj x' y' = (Inr (Inr q), w2)"
    using assms(2) unfolding identified_phases [OF some] by blast
  from xy xy' show ?thesis by simp
qed

lemma authenticate_Inr:
  "authenticate creds cj ck w = (Inr (Inr p), w') \<longleftrightarrow>
     identified creds cj ck w p w' \<and> required_scope (cr_method creds) \<in> pr_scopes p"
proof (cases "\<exists>q w1. identified creds cj ck w q w1")
  case True
  then obtain q w1 where q: "identified creds cj ck w q w1" by blast
  note eq = authenticate_identified [OF q]
  show ?thesis
  proof
    assume "authenticate creds cj ck w = (Inr (Inr p), w')"
    then show "identified creds cj ck w p w' \<and> required_scope (cr_method creds) \<in> pr_scopes p"
      using eq q by (simp add: scope_phase_Inr)
  next
    assume a: "identified creds cj ck w p w' \<and> required_scope (cr_method creds) \<in> pr_scopes p"
    then have "p = q \<and> w' = w1" using identified_unique [OF q] by blast
    with a eq show "authenticate creds cj ck w = (Inr (Inr p), w')"
      by (simp add: scope_phase_Inr)
  qed
next
  case False
  then have none: "\<not> identified creds cj ck w p w'" for p w' by blast
  show ?thesis
    using none by (cases rule: authenticate_not_identified [OF none]) auto
qed

text \<open>How a request whose credentials are not all accepted is turned away, by the check that stopped it.\<close>

lemma authenticate_unidentified:
  fixes creds
  defines "backend ck w \<equiv> cr_api_key creds \<noteq> [] \<and> (\<exists>m. fst (ck (cr_api_key creds) w) = Inl (ApiKeyBackendError m))"
  assumes none: "\<And>p w'. \<not> identified creds cj ck w p w'"
  obtains (unavailable) err where "backend ck w" "fst (authenticate creds cj ck w) = Inr (Inl err)"
      "af_kind err = AF_unavailable"
  | (unauthorized) err where "\<not> backend ck w" "fst (authenticate creds cj ck w) = Inr (Inl err)"
      "af_kind err = AF_unauthorized"
  | (key_thrown) e where "cr_api_key creds \<noteq> []" "fst (ck (cr_api_key creds) w) = Inl e"
      "\<forall>m. e \<noteq> ApiKeyBackendError m \<and> e \<noteq> ApiKeyValidationError m"
      "fst (authenticate creds cj ck w) = Inl e"
  | (jwt_thrown) token w1 e where "\<not> backend ck w" "cr_authorization creds = kBearer @ token"
      "fst (cj token w1) = Inl e" "\<forall>m. e \<noteq> JwtValidationError m" "fst (authenticate creds cj ck w) = Inl e"
proof (cases rule: authenticate_not_identified [OF none, case_names missing key jwt])
  case (missing err)
  then show ?thesis using unauthorized by (simp add: backend_def)
next
  case (key r w1)
  then show ?thesis
    using key_phase_error [OF key(1,2)] unavailable unauthorized key_thrown by (auto simp: backend_def)
next
  case (jwt q w1 r w2)
  obtain k where "key_accepted creds ck w k w1" using jwt(1) unfolding key_phase_Inr by blast
  then have nb: "\<not> backend ck w" by (auto simp: backend_def key_accepted_def split: if_splits)
  from jwt_phase_error [OF jwt(2,3)] consider
      (refused) err where "r = Inr (Inl err)" "af_kind err = AF_unauthorized"
    | (thrown) token e where "cr_authorization creds = kBearer @ token" "cj token w1 = (Inl e, w2)" "r = Inl e"
        "\<forall>m. e \<noteq> JwtValidationError m"
    by blast
  then show ?thesis
  proof cases
    case refused
    then show ?thesis using unauthorized [OF nb] jwt(4) by simp
  next
    case thrown
    then show ?thesis using jwt_thrown [OF nb, of token w1 e] jwt(4) by simp
  qed
qed

section \<open>Properties\<close>

text \<open>
  \<open>parse_scopes\<close> returns exactly the maximal non-empty runs of characters of its input that
  hold no comma, blank or tab.
\<close>

theorem parse_scopes_runs:
  "t \<in> parse_scopes s \<longleftrightarrow> t \<noteq> [] \<and> set t \<inter> {CHR '','', CHR '' '', CHR 0x09} = {}
     \<and> (\<exists>a b. s = a @ t @ b \<and> (a = [] \<or> last a \<in> {CHR '','', CHR '' '', CHR 0x09})
          \<and> (b = [] \<or> hd b \<in> {CHR '','', CHR '' '', CHR 0x09}))"
proof -
  have "parse_scopes s = scope_runs s"
    using scopes_loop_runs [of "[]" "{}" s] by (simp add: parse_scopes_def)
  moreover have sep: "is_sep c \<longleftrightarrow> c \<in> {CHR '','', CHR '' '', CHR 0x09}" for c
    by (simp add: is_sep_def)
  moreover have "(\<forall>c\<in>set t. c \<notin> S) \<longleftrightarrow> set t \<inter> S = {}" for S by blast
  ultimately show ?thesis by (simp only: scope_runs_def mem_Collect_eq sep)
qed

text \<open>
  C5. Who gets in: \<open>authenticate\<close> returns a principal exactly when at least one credential is
  present, every credential that is present is accepted by its check (a token only as
  \<open>Bearer\<close> and only with a non-empty client), two credentials name the same client, and the
  principal's scopes, which are those of the one credential or the intersection of both, hold
  the scope that the method needs.
\<close>

theorem authenticate_exact:
  "authenticate creds check_jwt check_key w = (Inr (Inr p), w') \<longleftrightarrow>
     (\<exists>k w1 j. key_accepted creds check_key w k w1 \<and> jwt_accepted creds check_jwt w1 j w'
        \<and> combined k j = Some p)
     \<and> (if cr_method creds \<in> {''GET'', ''HEAD'', ''OPTIONS''} then ''read'' \<in> pr_scopes p
        else ''write'' \<in> pr_scopes p)"
  unfolding authenticate_Inr identified_def by (simp add: required_scope_def)

text \<open>
  C23. How a request is refused: 503 exactly when a key was sent and its check threw the
  backend error; 403 only when the credentials are all accepted and agree but lack the scope;
  401 otherwise; nothing escapes as an exception except what the two checks throw and the code
  does not catch.
\<close>

theorem authenticate_refusals:
  "(case fst (authenticate creds check_jwt check_key w) of
      Inl e \<Rightarrow> (cr_api_key creds \<noteq> [] \<and> fst (check_key (cr_api_key creds) w) = Inl e
                 \<and> (\<forall>m. e \<noteq> ApiKeyBackendError m \<and> e \<noteq> ApiKeyValidationError m))
              \<or> ((\<exists>token w1. cr_authorization creds = kBearer @ token
                    \<and> fst (check_jwt token w1) = Inl e) \<and> (\<forall>m. e \<noteq> JwtValidationError m))
    | Inr (Inr p) \<Rightarrow> True
    | Inr (Inl err) \<Rightarrow>
        (af_kind err = AF_unavailable \<longleftrightarrow>
           cr_api_key creds \<noteq> [] \<and> (\<exists>m. fst (check_key (cr_api_key creds) w) = Inl (ApiKeyBackendError m)))
        \<and> (af_kind err = AF_forbidden \<longleftrightarrow>
           (\<exists>p w2. identified creds check_jwt check_key w p w2
              \<and> required_scope (cr_method creds) \<notin> pr_scopes p)))
   \<and> (cr_api_key creds \<noteq> [] \<and> (\<exists>m. fst (check_key (cr_api_key creds) w) = Inl (ApiKeyBackendError m))
      \<longrightarrow> (\<exists>err. fst (authenticate creds check_jwt check_key w) = Inr (Inl err)
            \<and> af_kind err = AF_unavailable))"
  (is "?cases \<and> (?backend \<longrightarrow> ?refused)")
proof (cases "\<exists>p w1. identified creds check_jwt check_key w p w1")
  case True
  then obtain p w1 where p: "identified creds check_jwt check_key w p w1" by blast
  then have nb: "\<not> ?backend"
    by (auto simp: identified_def key_accepted_def split: if_splits)
  have f: "(\<exists>q w2. identified creds check_jwt check_key w q w2
      \<and> required_scope (cr_method creds) \<notin> pr_scopes q)
      \<longleftrightarrow> required_scope (cr_method creds) \<notin> pr_scopes p"
    using p identified_unique [OF p] by blast
  have a: "fst (authenticate creds check_jwt check_key w) = Inr (scope_phase creds p)"
    using authenticate_identified [OF p] by simp
  show ?thesis
  proof (cases "scope_phase creds p")
    case (Inl err)
    then show ?thesis using a nb f scope_phase_Inl [OF Inl] by simp
  qed (use a nb in simp)
next
  case False
  then have none: "\<not> identified creds check_jwt check_key w p w'" for p w' by blast
  show ?thesis
    by (cases rule: authenticate_unidentified [OF none]) (use False in auto)
qed

theorem authenticate_refusals_witness:
  "\<exists>err. fst (authenticate \<lparr>cr_method = ''GET'', cr_authorization = [], cr_api_key = ''k''\<rparr>
       (\<lambda>_ w. (Inl (JwtValidationError []), w)) (\<lambda>_ w. (Inl (ApiKeyBackendError ''down''), w)) ())
     = Inr (Inl err) \<and> af_kind err = AF_unavailable"
  using authenticate_refusals [where creds =
      "\<lparr>cr_method = ''GET'', cr_authorization = [], cr_api_key = ''k''\<rparr>"
    and check_jwt = "\<lambda>_ w. (Inl (JwtValidationError []), w)"
    and check_key = "\<lambda>_ w. (Inl (ApiKeyBackendError ''down''), w)" and w = "()"]
  by simp

text \<open>
  C17. The middleware: a path outside \<open>/v1/\<close> passes untouched and unauthenticated. Under \<open>/v1/\<close> a
  request goes on only as an authenticated one, changed in nothing but the client identifier,
  which is the principal's whatever the request carried before; every other request is answered
  with the error envelope and status 401, 403 or 503, its request id, and a \<open>Retry-After\<close> header
  exactly with 503.
\<close>

theorem auth_advice_gate:
  "(case fst (auth_advice check_jwt check_key rnd now req w) of
      Inl e \<Rightarrow> starts_with ''/v1/'' (rq_path req)
    | Inr (Next req') \<Rightarrow>
        (if starts_with ''/v1/'' (rq_path req)
         then \<exists>p. fst (authenticate \<lparr>cr_method = method_string (rq_method req),
                   cr_authorization = get_header req ''authorization'',
                   cr_api_key = get_header req ''x-api-key''\<rparr> check_jwt check_key w) = Inr (Inr p)
              \<and> get_client_id req' = pr_client_id p \<and> rq_method req' = rq_method req
              \<and> rq_path req' = rq_path req \<and> rq_headers req' = rq_headers req
              \<and> rq_params req' = rq_params req \<and> rq_body req' = rq_body req
              \<and> (\<forall>k. get_attr req' k = (if k = kClientIdKey then pr_client_id p else get_attr req k))
         else req' = req)
    | Inr (Respond resp) \<Rightarrow> starts_with ''/v1/'' (rq_path req)
        \<and> rs_status resp \<in> {401, 403, 503}
        \<and> (\<exists>err. fst (authenticate \<lparr>cr_method = method_string (rq_method req),
                   cr_authorization = get_header req ''authorization'',
                   cr_api_key = get_header req ''x-api-key''\<rparr> check_jwt check_key w) = Inr (Inl err)
              \<and> rs_status resp = http_status (to_error_code (af_kind err)))
        \<and> map_of (rs_headers resp) ''x-request-id'' = Some (get_request_id req rnd)
        \<and> (map_of (rs_headers resp) ''retry-after'' = Some ''5'' \<longleftrightarrow> rs_status resp = 503))"
proof (cases "starts_with ''/v1/'' (rq_path req)")
  case False
  then show ?thesis by (simp add: auth_advice_def)
next
  case True
  let ?creds = "\<lparr>cr_method = method_string (rq_method req),
     cr_authorization = get_header req ''authorization'', cr_api_key = get_header req ''x-api-key''\<rparr>"
  obtain r w1 where a: "authenticate ?creds check_jwt check_key w = (r, w1)" by (rule prod.exhaust)
  show ?thesis
  proof (cases r)
    case (Inl e)
    then show ?thesis using True a by (simp add: auth_advice_def Let_def)
  next
    case (Inr x)
    show ?thesis
    proof (cases x)
      case (Inr p)
      then show ?thesis using True a \<open>r = Inr x\<close>
        by (simp add: auth_advice_def get_client_id_def Let_def)
    next
      case (Inl err)
      have nb: "map_of (rs_headers (respond_error c m i t)) ''retry-after'' = None" for c m i t
        by (simp add: respond_defs to_response_def)
      show ?thesis using True a \<open>r = Inr x\<close> Inl nb
        by (cases "af_kind err") (simp_all add: auth_advice_def Let_def response_simps)
    qed
  qed
qed

end
