(* ===== verification/Handlers.thy ===== *)
theory Handlers
  imports Service Authenticator
begin

text \<open>
  The HTTP handlers of resources, \<open>src/resources/resource_handler.cpp\<close>, and their routes,
  \<open>src/resources/resource_routes.cpp\<close>. A handler calls its callback exactly once, so it is a
  function to the response, or to an exception that leaves it; \<open>rnd\<close> are the random draws of this
  request, \<open>now\<close> the time of its response. The conversion from nlohmann::json to jsoncpp goes
  through text; jsoncpp's parser is the parameter \<open>he_jsoncpp\<close>.
\<close>

record ('c, 'w) handler_env =
  he_service :: "('c, 'w) service_env"
  he_jsoncpp :: "string \<Rightarrow> string + jvalue"

type_synonym 'w handler_result = "(exn + http_response) \<times> cache_aside \<times> 'w"

definition to_json_value :: "('c, 'w) handler_env \<Rightarrow> json \<Rightarrow> exn + jvalue" where
  "to_json_value env j = sum_bind (json_dump (se_json (he_service env)) j) (\<lambda>text.
     case he_jsoncpp env text of
       Inl errors \<Rightarrow> Inl (StdError (''Failed to convert resource JSON: '' @ errors))
     | Inr v \<Rightarrow> Inr v)"

definition is_xdigit :: "char \<Rightarrow> bool" where
  "is_xdigit c \<longleftrightarrow> c \<in> set ''0123456789abcdefABCDEF''"

text \<open>The loop of \<open>is_uuid\<close>, from position \<open>i\<close>.\<close>

fun uuid_chars :: "nat \<Rightarrow> string \<Rightarrow> bool" where
  "uuid_chars i [] \<longleftrightarrow> True"
| "uuid_chars i (c # cs) \<longleftrightarrow>
     (if i = 8 \<or> i = 13 \<or> i = 18 \<or> i = 23 then c = CHR ''-'' else is_xdigit c) \<and> uuid_chars (Suc i) cs"

definition is_uuid :: "string \<Rightarrow> bool" where
  "is_uuid v \<longleftrightarrow> length v = 36 \<and> uuid_chars 0 v"

definition parse_limit_param :: "string \<Rightarrow> int option" where
  "parse_limit_param raw = (case stoi raw of
      Inl _ \<Rightarrow> None
    | Inr (parsed, consumed) \<Rightarrow> if consumed \<noteq> length raw then None else Some parsed)"

definition internal_error :: "string \<Rightarrow> int \<Rightarrow> http_response" where
  "internal_error request_id now =
     respond_error EC_internal_error ''An unexpected error occurred.'' request_id now"

definition resource_missing :: "string \<Rightarrow> string \<Rightarrow> int \<Rightarrow> http_response" where
  "resource_missing rid request_id now =
     respond_error EC_resource_not_found (''Resource not found: '' @ rid) request_id now"

text \<open>The \<open>catch\<close> clauses of the handlers.\<close>

definition caught :: "bool \<Rightarrow> bool \<Rightarrow> bool \<Rightarrow> exn \<Rightarrow> string \<Rightarrow> int \<Rightarrow> http_response" where
  "caught validation missing exists e request_id now = (case e of
      ResourceValidationError m \<Rightarrow>
        if validation then respond_error EC_unprocessable_entity m request_id now
        else internal_error request_id now
    | ResourceNotFound m \<Rightarrow>
        if missing then respond_error EC_resource_not_found m request_id now
        else internal_error request_id now
    | ResourceAlreadyExists m \<Rightarrow>
        if exists then respond_error EC_resource_already_exists m request_id now
        else internal_error request_id now
    | _ \<Rightarrow> internal_error request_id now)"

definition bad_body :: "string \<Rightarrow> int \<Rightarrow> http_response" where
  "bad_body request_id now = respond_error EC_bad_request ''Request body is not valid JSON.'' request_id now"

section \<open>Handlers\<close>

definition create_resource_handler ::
  "('c, 'w) handler_env \<Rightarrow> uuid_draws \<Rightarrow> int \<Rightarrow> http_request \<Rightarrow> cache_aside \<Rightarrow> 'w \<Rightarrow> 'w handler_result" where
  "create_resource_handler env rnd now req ca w =
     (let request_id = get_request_id req rnd; client_id = get_client_id req in
      if client_id = [] then (Inr (internal_error request_id now), ca, w)
      else case json_parse (se_json (he_service env)) (rq_body req) of
        Inl (JsonException _) \<Rightarrow> (Inr (bad_body request_id now), ca, w)
      | Inl e \<Rightarrow> (Inl e, ca, w)
      | Inr body \<Rightarrow>
          (case parse_create_request (se_json (he_service env)) body of
             Inl e \<Rightarrow> (Inr (caught True False True e request_id now), ca, w)
           | Inr create_request \<Rightarrow>
               (case service_create (he_service env) client_id create_request ca w of
                  (Inl e, ca, w) \<Rightarrow> (Inr (caught True False True e request_id now), ca, w)
                | (Inr created, ca, w) \<Rightarrow>
                    (case to_json_value env (resource_to_json created) of
                       Inl e \<Rightarrow> (Inr (caught True False True e request_id now), ca, w)
                     | Inr data \<Rightarrow>
                         (Inr (add_header ''location'' (''/v1/resources/'' @ rs_id created)
                                 (respond_created data request_id now)), ca, w)))))"

definition get_resource_handler ::
  "('c, 'w) handler_env \<Rightarrow> uuid_draws \<Rightarrow> int \<Rightarrow> http_request \<Rightarrow> string \<Rightarrow> cache_aside \<Rightarrow> 'w \<Rightarrow> 'w handler_result" where
  "get_resource_handler env rnd now req rid ca w =
     (let request_id = get_request_id req rnd; client_id = get_client_id req in
      if client_id = [] then (Inr (internal_error request_id now), ca, w)
      else if \<not> is_uuid rid then (Inr (resource_missing rid request_id now), ca, w)
      else case service_get (he_service env) client_id rid ca w of
        (Inl e, ca, w) \<Rightarrow> (Inr (caught False True False e request_id now), ca, w)
      | (Inr r, ca, w) \<Rightarrow>
          (case to_json_value env (resource_to_json r) of
             Inl e \<Rightarrow> (Inr (caught False True False e request_id now), ca, w)
           | Inr data \<Rightarrow> (Inr (respond_ok data request_id now), ca, w)))"

definition opt_param :: "http_request \<Rightarrow> string \<Rightarrow> string option" where
  "opt_param req k = (let v = get_parameter req k in if v \<noteq> [] then Some v else None)"

definition filter_of :: "http_request \<Rightarrow> list_filter option" where
  "filter_of req =
     (let f = default_list_filter\<lparr>lf_kind := opt_param req ''kind'', lf_status := opt_param req ''status'',
                                  lf_cursor := opt_param req ''cursor''\<rparr>;
          limit = get_parameter req ''limit''
      in if limit \<noteq> [] then map_option (\<lambda>n. f\<lparr>lf_limit := n\<rparr>) (parse_limit_param limit) else Some f)"

fun items_to_json :: "('c, 'w) handler_env \<Rightarrow> resource list \<Rightarrow> exn + jvalue list" where
  "items_to_json env [] = Inr []"
| "items_to_json env (r # rs) =
     sum_bind (to_json_value env (resource_to_json r)) (\<lambda>v.
       sum_bind (items_to_json env rs) (\<lambda>vs. Inr (v # vs)))"

definition bad_limit :: string where
  "bad_limit = ''Query parameter '' @ [CHR 0x27] @ ''limit'' @ [CHR 0x27] @ '' must be an integer.''"

definition bad_cursor :: string where
  "bad_cursor = ''Query parameter '' @ [CHR 0x27] @ ''cursor'' @ [CHR 0x27] @ '' is not valid.''"

definition list_error :: "exn \<Rightarrow> string \<Rightarrow> int \<Rightarrow> http_response" where
  "list_error e request_id now = (case e of
      InvalidCursorError _ \<Rightarrow> respond_error EC_bad_request bad_cursor request_id now
    | _ \<Rightarrow> internal_error request_id now)"

definition list_resources_handler ::
  "('c, 'w) handler_env \<Rightarrow> uuid_draws \<Rightarrow> int \<Rightarrow> http_request \<Rightarrow> cache_aside \<Rightarrow> 'w \<Rightarrow> 'w handler_result" where
  "list_resources_handler env rnd now req ca w =
     (let request_id = get_request_id req rnd; client_id = get_client_id req in
      if client_id = [] then (Inr (internal_error request_id now), ca, w)
      else case filter_of req of
        None \<Rightarrow> (Inr (respond_error EC_bad_request bad_limit request_id now), ca, w)
      | Some f \<Rightarrow>
          (case service_list (he_service env) client_id f ca w of
             (Inl e, ca, w) \<Rightarrow> (Inr (list_error e request_id now), ca, w)
           | (Inr result, ca, w) \<Rightarrow>
               (case items_to_json env (lr_items result) of
                  Inl e \<Rightarrow> (Inr (list_error e request_id now), ca, w)
                | Inr items \<Rightarrow>
                    (Inr (respond_list (JArray items) request_id (lr_next_cursor result)
                            (lr_has_more result) now), ca, w))))"

definition update_resource_handler ::
  "('c, 'w) handler_env \<Rightarrow> uuid_draws \<Rightarrow> int \<Rightarrow> http_request \<Rightarrow> string \<Rightarrow> cache_aside \<Rightarrow> 'w \<Rightarrow> 'w handler_result" where
  "update_resource_handler env rnd now req rid ca w =
     (let request_id = get_request_id req rnd; client_id = get_client_id req in
      if client_id = [] then (Inr (internal_error request_id now), ca, w)
      else if \<not> is_uuid rid then (Inr (resource_missing rid request_id now), ca, w)
      else case json_parse (se_json (he_service env)) (rq_body req) of
        Inl (JsonException _) \<Rightarrow> (Inr (bad_body request_id now), ca, w)
      | Inl e \<Rightarrow> (Inl e, ca, w)
      | Inr body \<Rightarrow>
          (case parse_update_request (se_json (he_service env)) body of
             Inl e \<Rightarrow> (Inr (caught True True True e request_id now), ca, w)
           | Inr update_request \<Rightarrow>
               (case service_update (he_service env) client_id rid update_request ca w of
                  (Inl e, ca, w) \<Rightarrow> (Inr (caught True True True e request_id now), ca, w)
                | (Inr updated, ca, w) \<Rightarrow>
                    (case to_json_value env (resource_to_json updated) of
                       Inl e \<Rightarrow> (Inr (caught True True True e request_id now), ca, w)
                     | Inr data \<Rightarrow> (Inr (respond_ok data request_id now), ca, w)))))"

definition delete_resource_handler ::
  "('c, 'w) handler_env \<Rightarrow> uuid_draws \<Rightarrow> int \<Rightarrow> http_request \<Rightarrow> string \<Rightarrow> cache_aside \<Rightarrow> 'w \<Rightarrow> 'w handler_result" where
  "delete_resource_handler env rnd now req rid ca w =
     (let request_id = get_request_id req rnd; client_id = get_client_id req in
      if client_id = [] then (Inr (internal_error request_id now), ca, w)
      else if \<not> is_uuid rid then (Inr (resource_missing rid request_id now), ca, w)
      else case service_remove (he_service env) client_id rid ca w of
        (Inl e, ca, w) \<Rightarrow> (Inr (caught False True False e request_id now), ca, w)
      | (Inr _, ca, w) \<Rightarrow> (Inr (respond_ok JNull request_id now), ca, w))"

section \<open>Routes\<close>

datatype endpoint = CreateResource | ListResources | GetResource | UpdateResource | DeleteResource

definition resource_routes :: "(string \<times> http_method \<times> endpoint) list" where
  "resource_routes =
     [(''/v1/resources'', Post, CreateResource),
      (''/v1/resources'', Get, ListResources),
      (''/v1/resources/{id}'', Get, GetResource),
      (''/v1/resources/{id}'', Patch, UpdateResource),
      (''/v1/resources/{id}'', Delete, DeleteResource)]"

text \<open>The handler of each endpoint, with the path's identifier for those that have one.\<close>

fun run_endpoint ::
  "('c, 'w) handler_env \<Rightarrow> uuid_draws \<Rightarrow> int \<Rightarrow> endpoint \<Rightarrow> http_request \<Rightarrow> string
     \<Rightarrow> cache_aside \<Rightarrow> 'w \<Rightarrow> 'w handler_result" where
  "run_endpoint env rnd now CreateResource req rid = create_resource_handler env rnd now req"
| "run_endpoint env rnd now ListResources req rid = list_resources_handler env rnd now req"
| "run_endpoint env rnd now GetResource req rid = get_resource_handler env rnd now req rid"
| "run_endpoint env rnd now UpdateResource req rid = update_resource_handler env rnd now req rid"
| "run_endpoint env rnd now DeleteResource req rid = delete_resource_handler env rnd now req rid"

section \<open>Identifiers\<close>

unbundle bit_operations_syntax

lemma uuid_chars_append: "uuid_chars i (xs @ ys) \<longleftrightarrow> uuid_chars i xs \<and> uuid_chars (i + length xs) ys"
  by (induction xs arbitrary: i) auto

lemma uuid_chars_hex:
  "\<forall>c\<in>set xs. is_xdigit c \<Longrightarrow> \<forall>j<length xs. i + j \<notin> {8, 13, 18, 23} \<Longrightarrow> uuid_chars i xs"
proof (induction xs arbitrary: i)
  case (Cons x xs)
  have "i \<notin> {8, 13, 18, 23}" using Cons.prems(2) by (auto dest: spec [of _ 0])
  moreover have "\<forall>j<length xs. Suc i + j \<notin> {8, 13, 18, 23}"
    using Cons.prems(2) by (auto dest: spec [of _ "Suc _"])
  ultimately show ?case using Cons by simp
qed simp

lemma lower_xdigit: "is_lower_hex c \<Longrightarrow> is_xdigit c"
proof -
  have "set ''0123456789abcdef'' \<subseteq> set ''0123456789abcdefABCDEF''" by code_simp
  then show "is_lower_hex c \<Longrightarrow> is_xdigit c" unfolding is_xdigit_def is_lower_hex_def by (rule subsetD)
qed

lemma hex_padded_xdigits: "\<forall>c\<in>set (hex_padded n k). is_xdigit c"
  by (blast intro: lower_xdigit hex_padded_lower)

lemma masked_word:
  fixes x :: "32 word"
  assumes "m \<le> k" "k < 16"
  shows "unat ((x AND mask m) OR 2 ^ k) = unat (x AND mask m) + 2 ^ k" "unat (x AND mask m) < 2 ^ m"
proof -
  have y: "x AND mask m = take_bit m x" by (simp add: take_bit_eq_mask)
  have "take_bit m x + 2 ^ k = take_bit m x OR 2 ^ k"
    using assms by (intro disjunctive_add) (auto simp: bit_take_bit_iff bit_exp_iff)
  moreover have lt: "unat (take_bit m x) < 2 ^ m"
    by (simp add: unsigned_take_bit_eq)
  moreover have "unat (take_bit m x + 2 ^ k) = unat (take_bit m x) + 2 ^ k"
  proof -
    have "(2 :: nat) ^ m \<le> 2 ^ 16" "(2 :: nat) ^ k \<le> 2 ^ 16"
      using assms power_increasing [of m 16 "2 :: nat"] power_increasing [of k 16 "2 :: nat"] by linarith+
    then have "unat (take_bit m x) + 2 ^ k < 2 ^ 32" using lt by simp
    moreover have "unat (word_of_nat (2 ^ k) :: 32 word) = 2 ^ k"
      using \<open>2 ^ k \<le> 2 ^ 16\<close> assms by (simp only: unsigned_of_nat) (simp add: take_bit_nat_eq_self)
    ultimately show ?thesis by (simp add: unat_word_ariths)
  qed
  ultimately show "unat ((x AND mask m) OR 2 ^ k) = unat (x AND mask m) + 2 ^ k" "unat (x AND mask m) < 2 ^ m"
    by (simp_all add: y)
qed

lemma uuid_parts:
  "\<exists>a b c d e. generate_uuid r = a @ ''-'' @ b @ ''-'' @ c @ ''-'' @ d @ ''-'' @ e
     \<and> length a = 8 \<and> length b = 4 \<and> length c = 4 \<and> length d = 4 \<and> length e = 12
     \<and> (\<forall>x\<in>set (a @ b @ c @ d @ e). is_xdigit x)
     \<and> hd c = CHR ''4'' \<and> hd d \<in> {CHR ''8'', CHR ''9'', CHR ''a'', CHR ''b''}"
proof -
  let ?c = "unat ((draw_c r AND 0x0FFF) OR 0x4000)" and ?d = "unat ((draw_d r AND 0x3FFF) OR 0x8000)"
  have hi: "unat (drop_bit 16 x) < 16 ^ 4" for x :: "32 word"
  proof -
    have "unat x < 2 ^ 32" using unsigned_less [of x, where 'a = nat] by simp
    moreover have "unat (drop_bit 16 x) = drop_bit 16 (unat x)" by (rule unat_drop_bit_eq)
    moreover have "drop_bit 16 (unat x) = unat x div 2 ^ 16" by (rule drop_bit_eq_div)
    ultimately show ?thesis by simp
  qed
  have full: "unat x < 16 ^ 8" for x :: "32 word"
    using unsigned_less [of x, where 'a = nat] by simp
  have "(0x0FFF :: 32 word) = mask 12" "(0x3FFF :: 32 word) = mask 14"
      "(0x4000 :: 32 word) = 2 ^ 14" "(0x8000 :: 32 word) = 2 ^ 15"
    by (simp_all add: mask_eq_exp_minus_1)
  then have c: "\<exists>y<4096. ?c = y + 16384" and d: "\<exists>y<16384. ?d = y + 32768"
    using masked_word [of 12 14 "draw_c r"] masked_word [of 14 15 "draw_d r"] by auto
  have c4: "?c < 16 ^ 4" "?c div 4096 = 4" using c by auto
  have d4: "?d < 16 ^ 4" "?d div 4096 \<in> {8, 9, 10, 11}" using d by auto
  have digits: "hex_digit 4 = CHR ''4''" "hex_digit 8 = CHR ''8''" "hex_digit 9 = CHR ''9''"
      "hex_digit 10 = CHR ''a''" "hex_digit 11 = CHR ''b''" by code_simp+
  have hc: "hd (hex_padded 4 ?c) = CHR ''4''" using hd_hex_padded_4 [OF c4(1)] c4(2) digits by simp
  have hd': "hd (hex_padded 4 ?d) \<in> {CHR ''8'', CHR ''9'', CHR ''a'', CHR ''b''}"
    using hd_hex_padded_4 [OF d4(1)] d4(2) digits by auto
  have len: "length (hex_padded 8 (unat x)) = 8" "length (hex_padded 4 (unat (drop_bit 16 x))) = 4"
    for x :: "32 word"
    using length_hex_padded [of 8] length_hex_padded [of 4] full hi by simp_all
  have lens: "length (hex_padded 4 ?c) = 4" "length (hex_padded 4 ?d) = 4"
    using length_hex_padded [of 4] c4 d4 by simp_all
  have eq: "generate_uuid r = hex_padded 8 (unat (draw_a r)) @ ''-''
      @ hex_padded 4 (unat (drop_bit 16 (draw_b r))) @ ''-'' @ hex_padded 4 ?c @ ''-''
      @ hex_padded 4 ?d @ ''-''
      @ (hex_padded 4 (unat (drop_bit 16 (draw_e r))) @ hex_padded 8 (unat (draw_f r)))"
    by (simp only: generate_uuid_def Let_def append_assoc)
  have x: "\<forall>z\<in>set (hex_padded 8 (unat (draw_a r)) @ hex_padded 4 (unat (drop_bit 16 (draw_b r)))
      @ hex_padded 4 ?c @ hex_padded 4 ?d
      @ (hex_padded 4 (unat (drop_bit 16 (draw_e r))) @ hex_padded 8 (unat (draw_f r)))). is_xdigit z"
    using hex_padded_xdigits by auto
  show ?thesis
    by (intro exI conjI, rule eq, rule len, rule len, rule lens, rule lens, simp add: len, rule x, rule hc, rule hd')
qed

lemma uuid_chars_parts:
  assumes "length a = 8" "length b = 4" "length c = 4" "length d = 4" "length e = 12"
    and "\<forall>x\<in>set (a @ b @ c @ d @ e). is_xdigit x"
  shows "is_uuid (a @ ''-'' @ b @ ''-'' @ c @ ''-'' @ d @ ''-'' @ e)"
  using assms by (simp add: is_uuid_def uuid_chars_append uuid_chars_hex)

lemma cache_key_inject:
  assumes "length i1 = length i2"
  shows "cache_key c1 i1 = cache_key c2 i2 \<longleftrightarrow> c1 = c2 \<and> i1 = i2"
proof
  assume "cache_key c1 i1 = cache_key c2 i2"
  then have "c1 @ '':'' @ i1 = c2 @ '':'' @ i2" by (simp add: cache_key_def)
  then show "c1 = c2 \<and> i1 = i2" using assms by (auto simp: append_eq_append_conv)
qed simp

lemma version_keys_apart: "make_key ca (cache_key c1 i1) \<noteq> version_key ca (cache_key c2 i2)"
  by (simp add: make_key_def version_key_def cache_key_def)

section \<open>Answers\<close>

text \<open>What every answer of a handler looks like; 500 is always the same answer, with no detail of the failure.\<close>

definition answers :: "string \<Rightarrow> int \<Rightarrow> http_response \<Rightarrow> bool" where
  "answers request_id now resp \<longleftrightarrow>
     (rs_status resp \<in> {200, 201, 400, 404, 409, 422} \<or> resp = internal_error request_id now)
     \<and> (\<exists>m. env_meta resp = Some m \<and> jget m ''request_id'' = Some (JString request_id))"

lemma answers_meta:
  "\<exists>m. env_meta (respond_ok d rid now) = Some m \<and> jget m ''request_id'' = Some (JString rid)"
  "\<exists>m. env_meta (respond_created d rid now) = Some m \<and> jget m ''request_id'' = Some (JString rid)"
  "\<exists>m. env_meta (respond_list d rid c h now) = Some m \<and> jget m ''request_id'' = Some (JString rid)"
  "\<exists>m. env_meta (respond_error code msg rid now) = Some m \<and> jget m ''request_id'' = Some (JString rid)"
  by (simp_all add: respond_defs response_simps ok_def ok_list_def error_def)

lemma answers_respond [simp]:
  "answers rid now (respond_ok d rid now)" "answers rid now (respond_list d rid c h now)"
  "answers rid now (add_header k v (respond_created d rid now))" "answers rid now (internal_error rid now)"
  "answers rid now (resource_missing r rid now)" "answers rid now (bad_body rid now)"
  "answers rid now (respond_error EC_bad_request m rid now)"
  "answers rid now (respond_error EC_unprocessable_entity m rid now)"
  "answers rid now (respond_error EC_resource_not_found m rid now)"
  "answers rid now (respond_error EC_resource_already_exists m rid now)"
  using answers_meta by (simp_all add: answers_def response_simps resource_missing_def bad_body_def internal_error_def)

lemma answers_caught [simp]: "answers rid now (caught v m x e rid now)" "answers rid now (list_error e rid now)"
  by (auto simp: caught_def list_error_def split: exn.split)

text \<open>The result of a handler: an answer, or the exception of the JSON parser with nothing done.\<close>

definition handled ::
  "('c, 'w) handler_env \<Rightarrow> uuid_draws \<Rightarrow> int \<Rightarrow> http_request \<Rightarrow> cache_aside \<Rightarrow> 'w \<Rightarrow> 'w handler_result \<Rightarrow> bool" where
  "handled env rnd now req ca w res \<longleftrightarrow> (case res of
      (Inr resp, _, _) \<Rightarrow> answers (get_request_id req rnd) now resp
    | (Inl e, ca', w') \<Rightarrow> json_parse (se_json (he_service env)) (rq_body req) = Inl e
        \<and> ca' = ca \<and> w' = w \<and> (\<forall>m. e \<noteq> JsonException m))"

lemma handled_simps [simp]:
  "handled env rnd now req ca w (Inr resp, ca', w') \<longleftrightarrow> answers (get_request_id req rnd) now resp"
  "handled env rnd now req ca w (Inl e, ca', w') \<longleftrightarrow> json_parse (se_json (he_service env)) (rq_body req) = Inl e
        \<and> ca' = ca \<and> w' = w \<and> (\<forall>m. e \<noteq> JsonException m)"
  by (simp_all add: handled_def)

lemma handled_create: "handled env rnd now req ca w (create_resource_handler env rnd now req ca w)"
  by (auto simp: create_resource_handler_def Let_def split: sum.split prod.split exn.split)

lemma handled_get: "handled env rnd now req ca w (get_resource_handler env rnd now req rid ca w)"
  by (auto simp: get_resource_handler_def Let_def split: sum.split prod.split)

lemma handled_list: "handled env rnd now req ca w (list_resources_handler env rnd now req ca w)"
  by (auto simp: list_resources_handler_def Let_def split: sum.split prod.split option.split)

lemma handled_update: "handled env rnd now req ca w (update_resource_handler env rnd now req rid ca w)"
  by (auto simp: update_resource_handler_def Let_def split: sum.split prod.split exn.split)

lemma handled_delete: "handled env rnd now req ca w (delete_resource_handler env rnd now req rid ca w)"
  by (auto simp: delete_resource_handler_def Let_def split: sum.split prod.split)

lemmas handled_endpoints = handled_create handled_get handled_list handled_update handled_delete

lemma run_endpoint_handled: "handled env rnd now req ca w (run_endpoint env rnd now ep req rid ca w)"
  by (cases ep) (simp_all add: handled_endpoints)

lemma run_endpoint_no_client:
  "get_client_id req = [] \<Longrightarrow>
     run_endpoint env rnd now ep req rid ca w = (Inr (internal_error (get_request_id req rnd) now), ca, w)"
  by (cases ep) (simp_all add: create_resource_handler_def get_resource_handler_def
      list_resources_handler_def update_resource_handler_def delete_resource_handler_def Let_def)

lemma run_endpoint_bad_uuid:
  "ep \<in> {GetResource, UpdateResource, DeleteResource} \<Longrightarrow> \<not> is_uuid rid \<Longrightarrow> get_client_id req \<noteq> [] \<Longrightarrow>
     run_endpoint env rnd now ep req rid ca w = (Inr (resource_missing rid (get_request_id req rnd) now), ca, w)"
  by (auto simp: get_resource_handler_def update_resource_handler_def delete_resource_handler_def Let_def)

section \<open>Properties\<close>

text \<open>
  C18. Every endpoint answers with 200, 201, 400, 404, 409, 422 or 500 and the request's identifier in
  the envelope; the 500 is always the same fixed answer, whatever was thrown below. The one exception that leaves a handler is one that the JSON
  parser itself throws and that is not nlohmann's, and then nothing was done. Without an authenticated
  client nothing is done; a path identifier that is no UUID is 404 without touching cache or
  database.
\<close>

theorem handler_contract:
  "(case run_endpoint env rnd now ep req rid ca w of
      (Inr resp, ca', w') \<Rightarrow>
        (rs_status resp \<in> {200, 201, 400, 404, 409, 422} \<or> resp = internal_error (get_request_id req rnd) now)
        \<and> (\<exists>m. env_meta resp = Some m \<and> jget m ''request_id'' = Some (JString (get_request_id req rnd)))
    | (Inl e, ca', w') \<Rightarrow> json_parse (se_json (he_service env)) (rq_body req) = Inl e
        \<and> ca' = ca \<and> w' = w \<and> (\<forall>m. e \<noteq> JsonException m))
   \<and> (get_client_id req = [] \<longrightarrow>
        run_endpoint env rnd now ep req rid ca w = (Inr (internal_error (get_request_id req rnd) now), ca, w))
   \<and> (ep \<in> {GetResource, UpdateResource, DeleteResource} \<and> \<not> is_uuid rid \<and> get_client_id req \<noteq> [] \<longrightarrow>
        run_endpoint env rnd now ep req rid ca w
          = (Inr (resource_missing rid (get_request_id req rnd) now), ca, w))"
proof (intro conjI impI)
  show "case run_endpoint env rnd now ep req rid ca w of
      (Inr resp, ca', w') \<Rightarrow>
        (rs_status resp \<in> {200, 201, 400, 404, 409, 422} \<or> resp = internal_error (get_request_id req rnd) now)
        \<and> (\<exists>m. env_meta resp = Some m \<and> jget m ''request_id'' = Some (JString (get_request_id req rnd)))
    | (Inl e, ca', w') \<Rightarrow> json_parse (se_json (he_service env)) (rq_body req) = Inl e
        \<and> ca' = ca \<and> w' = w \<and> (\<forall>m. e \<noteq> JsonException m)"
    using run_endpoint_handled [of env rnd now req ca w ep rid] unfolding handled_def answers_def .
qed (simp_all add: run_endpoint_no_client run_endpoint_bad_uuid)

definition demo_handlers :: "(unit, unit) handler_env" where
  "demo_handlers = \<lparr>he_service = demo_service, he_jsoncpp = (\<lambda>_. Inr JNull)\<rparr>"

definition demo_client_request :: http_request where
  "demo_client_request = insert_attr kRequestIdKey ''r1'' (insert_attr kClientIdKey ''c''
     \<lparr>rq_method = Get, rq_path = ''/v1/resources/7'', rq_headers = [], rq_attrs = [], rq_params = [], rq_body = [],
      rq_peer = ''10.0.0.1''\<rparr>)"

theorem handler_contract_witness:
  "\<forall>rnd. run_endpoint demo_handlers rnd 0 GetResource demo_client_request ''7'' (closed_cache 0) ()
     = (Inr (resource_missing ''7'' (get_request_id demo_client_request rnd) 0), closed_cache 0, ())"
proof
  fix rnd
  have "\<not> is_uuid ''7''" "get_client_id demo_client_request \<noteq> []"
    by (simp_all add: is_uuid_def get_client_id_def demo_client_request_def)
  then show "run_endpoint demo_handlers rnd 0 GetResource demo_client_request ''7'' (closed_cache 0) ()
     = (Inr (resource_missing ''7'' (get_request_id demo_client_request rnd) 0), closed_cache 0, ())"
    using handler_contract [where env = demo_handlers and rnd = rnd and now = 0 and ep = GetResource
      and req = demo_client_request and rid = "''7''" and ca = "closed_cache 0" and w = "()"]
    by simp
qed


text \<open>
  C40. Generated identifiers: whatever the six random draws, \<open>generate_uuid\<close> returns 36 characters in
  the form that \<open>is_uuid\<close> accepts, with version digit 4 and a variant digit among 8, 9, a and b.
\<close>

theorem generated_uuid:
  "is_uuid (generate_uuid r) \<and> generate_uuid r ! 14 = CHR ''4'' \<and> generate_uuid r ! 19 \<in> set ''89ab''"
proof -
  obtain a b c d e where u: "generate_uuid r = a @ ''-'' @ b @ ''-'' @ c @ ''-'' @ d @ ''-'' @ e"
    and l: "length a = 8" "length b = 4" "length c = 4" "length d = 4" "length e = 12"
    and x: "\<forall>x\<in>set (a @ b @ c @ d @ e). is_xdigit x"
    and h: "hd c = CHR ''4''" "hd d \<in> {CHR ''8'', CHR ''9'', CHR ''a'', CHR ''b''}"
    using uuid_parts [of r] by blast
  have "generate_uuid r ! 14 = c ! 0" "generate_uuid r ! 19 = d ! 0"
    using l by (simp_all add: u nth_append)
  moreover have "c ! 0 = hd c" "d ! 0 = hd d" using l by (metis hd_conv_nth list.size(3) zero_neq_numeral)+
  ultimately show ?thesis using uuid_chars_parts [OF l x] h by (simp add: u)
qed

text \<open>
  C33. Cache keys keep tenants and resources apart: for identifiers that the handlers let through, two
  cache keys are equal only for the same client and the same identifier, whatever the client ids
  are, and no entry's key is another one's version key. Two spellings of one UUID that differ in
  case pass the check and have different keys.
\<close>

theorem cache_keys_separate:
  assumes "is_uuid i1" "is_uuid i2"
  shows "(cache_key c1 i1 = cache_key c2 i2 \<longleftrightarrow> c1 = c2 \<and> i1 = i2)
    \<and> make_key ca (cache_key c1 i1) \<noteq> version_key ca (cache_key c2 i2)
    \<and> (make_key ca (cache_key c1 i1) = make_key ca (cache_key c2 i2) \<longleftrightarrow> c1 = c2 \<and> i1 = i2)
    \<and> (let u = ''a1b2c3d4-0000-4000-8000-00000000000a''; v = ''A1B2C3D4-0000-4000-8000-00000000000A''
       in is_uuid u \<and> is_uuid v \<and> cache_key c1 u \<noteq> cache_key c1 v)"
proof -
  have l: "length i1 = length i2" using assms by (simp add: is_uuid_def)
  have u: "is_uuid ''a1b2c3d4-0000-4000-8000-00000000000a'' \<and> is_uuid ''A1B2C3D4-0000-4000-8000-00000000000A''"
    by code_simp
  show ?thesis
    using cache_key_inject [OF l] version_keys_apart u
    by (simp add: make_key_def Let_def) (simp add: cache_key_def)
qed

theorem cache_keys_separate_witness:
  "cache_key ''x:y'' ''a1b2c3d4-0000-4000-8000-00000000000a'' \<noteq> cache_key ''x'' ''a1b2c3d4-0000-4000-8000-00000000000a''"
proof -
  have "is_uuid ''a1b2c3d4-0000-4000-8000-00000000000a''" by code_simp
  from conjunct1 [OF cache_keys_separate [OF this this]] show ?thesis by simp
qed

text \<open>
  Paging parameters of the list: a limit that \<open>std::stoi\<close> does not read to its end is 400 and nothing
  is done; every decimal \<open>int\<close> is taken and clamped to 1 to 200 rows. A cursor that does not decode
  is 400 and no statement is sent. A cursor that decodes is not looked at any further: when the
  database rejects the statement, for instance for its timestamp, the answer is the fixed 500.
\<close>

theorem list_parameters:
  assumes "get_client_id req \<noteq> []"
    and "pg_acquire (se_pg (he_service env)) w = (Inr c, w1)" "pg_begin (se_pg (he_service env)) c w1 = (Inr (), w2)"
  shows "(get_parameter req ''limit'' \<noteq> [] \<and> parse_limit_param (get_parameter req ''limit'') = None \<longrightarrow>
        list_resources_handler env rnd now req ca w
          = (Inr (respond_error EC_bad_request bad_limit (get_request_id req rnd) now), ca, w))
    \<and> (get_parameter req ''limit'' = dec_int n \<and> - (2 ^ 31) \<le> n \<and> n < 2 ^ 31 \<longrightarrow>
        map_option page_size (filter_of req) = Some (clamp n 1 200))
    \<and> (filter_of req = Some f \<and> lf_cursor f = Some cur \<and> cur \<noteq> [] \<and> decode_cursor cur = Inl e \<longrightarrow>
        list_resources_handler env rnd now req ca w
          = (Inr (respond_error EC_bad_request bad_cursor (get_request_id req rnd) now), ca,
             pg_release (se_pg (he_service env)) c (pg_end (se_pg (he_service env)) c w2)))
    \<and> (filter_of req = Some f \<and> list_sql (pg_quote (se_pg (he_service env)) c) (get_client_id req) f = Inr sql
        \<and> pg_exec (se_pg (he_service env)) c sql w2 = (Inl (StdError m), w3) \<longrightarrow>
        list_resources_handler env rnd now req ca w
          = (Inr (internal_error (get_request_id req rnd) now), ca,
             pg_release (se_pg (he_service env)) c (pg_end (se_pg (he_service env)) c w3)))"
proof (intro conjI impI)
  assume "get_parameter req ''limit'' \<noteq> [] \<and> parse_limit_param (get_parameter req ''limit'') = None"
  then show "list_resources_handler env rnd now req ca w
          = (Inr (respond_error EC_bad_request bad_limit (get_request_id req rnd) now), ca, w)"
    using assms(1) by (simp add: list_resources_handler_def filter_of_def Let_def)
next
  assume a: "get_parameter req ''limit'' = dec_int n \<and> - (2 ^ 31) \<le> n \<and> n < 2 ^ 31"
  then have "parse_limit_param (dec_int n) = Some n" by (simp add: parse_limit_param_def stoi_dec_int)
  then show "map_option page_size (filter_of req) = Some (clamp n 1 200)"
    using a by (simp add: filter_of_def page_size_def Let_def)
next
  assume a: "filter_of req = Some f \<and> lf_cursor f = Some cur \<and> cur \<noteq> [] \<and> decode_cursor cur = Inl e"
  then have "list_sql q cid f = Inl e" "e = InvalidCursorError ''cursor is malformed''" for q cid
    using decode_cursor_Inl [of cur e] by (simp_all add: list_sql_def cursor_sql_def)
  then show "list_resources_handler env rnd now req ca w
          = (Inr (respond_error EC_bad_request bad_cursor (get_request_id req rnd) now), ca,
             pg_release (se_pg (he_service env)) c (pg_end (se_pg (he_service env)) c w2))"
    using a assms by (simp add: list_resources_handler_def service_list_def repo_list_def in_transaction_def
        list_error_def Let_def)
next
  assume a: "filter_of req = Some f \<and> list_sql (pg_quote (se_pg (he_service env)) c) (get_client_id req) f = Inr sql
        \<and> pg_exec (se_pg (he_service env)) c sql w2 = (Inl (StdError m), w3)"
  then show "list_resources_handler env rnd now req ca w
          = (Inr (internal_error (get_request_id req rnd) now), ca,
             pg_release (se_pg (he_service env)) c (pg_end (se_pg (he_service env)) c w3))"
    using assms by (simp add: list_resources_handler_def service_list_def repo_list_def in_transaction_def
        list_error_def Let_def)
qed

text \<open>A database that rejects every statement, and a cursor that is base64 of no timestamp.\<close>

definition strict_handlers :: "(unit, unit) handler_env" where
  "strict_handlers = demo_handlers\<lparr>he_service := demo_service\<lparr>se_pg := demo_pg
     \<lparr>pg_exec := (\<lambda>_ _ w. (Inl (StdError ''invalid input syntax for type timestamp''), w))\<rparr>\<rparr>\<rparr>"

theorem list_parameters_witness:
  "\<forall>rnd. list_resources_handler strict_handlers rnd 0
       (demo_client_request\<lparr>rq_params := [(''cursor'', encode_cursor ''x'' ''y'')]\<rparr>) (closed_cache 0) ()
     = (Inr (internal_error (get_request_id (demo_client_request\<lparr>rq_params := [(''cursor'', encode_cursor ''x'' ''y'')]\<rparr>) rnd) 0),
        closed_cache 0, ())"
proof
  fix rnd
  let ?req = "demo_client_request\<lparr>rq_params := [(''cursor'', encode_cursor ''x'' ''y'')]\<rparr>"
  have h: "get_client_id ?req \<noteq> []" "pg_acquire (se_pg (he_service strict_handlers)) () = (Inr (), ())"
    "pg_begin (se_pg (he_service strict_handlers)) () () = (Inr (), ())"
    by (simp_all add: get_client_id_def demo_client_request_def get_attr_def lookup_or_empty_def insert_attr_def
        strict_handlers_def demo_pg_def kClientIdKey_def kRequestIdKey_def)
  have "decode_cursor (encode_cursor ''x'' ''y'') = Inr \<lparr>cp_updated_at = ''x'', cp_id = ''y''\<rparr>"
    unfolding decode_cursor_def encode_cursor_def by (rule base64.position_roundtrip) simp_all
  moreover obtain f where f: "filter_of ?req = Some f" "lf_cursor f = Some (encode_cursor ''x'' ''y'')"
    by (simp add: filter_of_def opt_param_def get_parameter_def lookup_or_empty_def Let_def)
  ultimately obtain sql where
    "list_sql (pg_quote (se_pg (he_service strict_handlers)) ()) (get_client_id ?req) f = Inr sql"
    using list_sql_cursor_Inr encode_cursor_not_Nil by blast
  moreover have "pg_exec (se_pg (he_service strict_handlers)) () sql ()
      = (Inl (StdError ''invalid input syntax for type timestamp''), ())"
    by (simp add: strict_handlers_def)
  ultimately show "list_resources_handler strict_handlers rnd 0 ?req (closed_cache 0) () = (Inr (internal_error (get_request_id ?req rnd) 0), closed_cache 0, ())" using list_parameters [OF h] f(1) by simp
qed

end
