(* ===== verification/Isolation.thy ===== *)
theory Isolation
  imports Handlers
begin

text \<open>
  Tenants are isolated: what a handler of resources answers to a client depends on that client's part of the outside
  world only, and the handler leaves the other clients' part as it is. Both halves are one predicate on operations,
  \<open>confined\<close>, with a rule for each way in which the code composes operations; the locale states what
  PostgreSQL and Redis do with the statements and commands that name one client.
\<close>

section \<open>Operations that stay within one client's part\<close>

text \<open>
  \<open>own\<close> is what the operation may depend on and change, \<open>others\<close> what it must not change; neither need be a function
  of the other. The second predicate is for operations that also return a state of the program, of which they establish \<open>Q\<close>.
\<close>

definition confined :: "('w \<Rightarrow> 'v) \<Rightarrow> ('w \<Rightarrow> 'o) \<Rightarrow> ('w \<Rightarrow> 'a \<times> 'w) \<Rightarrow> bool" where
  "confined own others f \<longleftrightarrow>
     (\<forall>v w. own v = own w \<longrightarrow> fst (f v) = fst (f w) \<and> own (snd (f v)) = own (snd (f w)))
   \<and> (\<forall>w. others (snd (f w)) = others w)"

definition confined_in ::
  "('w \<Rightarrow> 'v) \<Rightarrow> ('w \<Rightarrow> 'o) \<Rightarrow> ('s \<Rightarrow> bool) \<Rightarrow> ('w \<Rightarrow> 'a \<times> 's \<times> 'w) \<Rightarrow> bool" where
  "confined_in own others Q f \<longleftrightarrow>
     confined own others (\<lambda>w. case f w of (r, s, w) \<Rightarrow> ((r, s), w)) \<and> (\<forall>w. Q (fst (snd (f w))))"

named_theorems confine

lemma confinedI:
  assumes "\<And>v w. own v = own w \<Longrightarrow> fst (f v) = fst (f w) \<and> own (snd (f v)) = own (snd (f w))"
    and "\<And>w. others (snd (f w)) = others w"
  shows "confined own others f"
  unfolding confined_def using assms by blast

lemma confinedD:
  assumes "confined own others f"
  shows "own v = own w \<Longrightarrow> fst (f v) = fst (f w)" "own v = own w \<Longrightarrow> own (snd (f v)) = own (snd (f w))"
    "others (snd (f w)) = others w"
  using assms unfolding confined_def by blast+

lemma confined_return [confine]: "confined own others (\<lambda>w. (r, w))"
  by (rule confinedI) simp_all

lemma confined_bind [confine]:
  assumes m: "confined own others m" and k: "\<And>r. confined own others (k r)"
  shows "confined own others (\<lambda>w. case m w of (r, w) \<Rightarrow> k r w)"
proof (rule confinedI)
  fix v w assume "own v = own w"
  note e = confinedD(1,2) [OF m this]
  show "fst (case m v of (r, w) \<Rightarrow> k r w) = fst (case m w of (r, w) \<Rightarrow> k r w)
      \<and> own (snd (case m v of (r, w) \<Rightarrow> k r w)) = own (snd (case m w of (r, w) \<Rightarrow> k r w))"
    unfolding case_prod_beta e(1) by (intro conjI confinedD(1,2) [OF k] e(2))
next
  show "others (snd (case m w of (r, w) \<Rightarrow> k r w)) = others w" for w
    unfolding case_prod_beta confinedD(3) [OF k] by (rule confinedD(3) [OF m])
qed

lemma confined_sum [confine]:
  assumes "\<And>e. confined own others (\<lambda>w. f e w)" "\<And>x. confined own others (\<lambda>w. g x w)"
  shows "confined own others (\<lambda>w. case r of Inl e \<Rightarrow> f e w | Inr x \<Rightarrow> g x w)"
  using assms by (cases r) simp_all

lemma confined_then_do [confine]:
  assumes "confined own others m" "\<And>x. confined own others (k x)"
  shows "confined own others (\<lambda>w. then_do (m w) k)"
proof -
  have "(\<lambda>w. then_do (m w) k) = (\<lambda>w. case m w of (r, w) \<Rightarrow> case r of Inl e \<Rightarrow> (Inl e, w) | Inr x \<Rightarrow> k x w)"
    by (auto simp: then_do_def split: prod.split sum.split)
  then show ?thesis using assms by (auto intro!: confine)
qed

text \<open>The same for operations that return a state.\<close>

lemma confined_inI:
  assumes "confined own others (\<lambda>w. case f w of (r, s, w) \<Rightarrow> ((r, s), w))" "\<And>w. Q (fst (snd (f w)))"
  shows "confined_in own others Q f"
  using assms by (simp add: confined_in_def)

lemma confined_inD:
  assumes "confined_in own others Q f"
  shows "confined own others (\<lambda>w. case f w of (r, s, w) \<Rightarrow> ((r, s), w))" "Q (fst (snd (f w)))"
  using assms by (simp_all add: confined_in_def)

lemma confined_in_mono: "confined_in own others Q f \<Longrightarrow> (\<And>s. Q s \<Longrightarrow> Q' s) \<Longrightarrow> confined_in own others Q' f"
  by (auto simp: confined_in_def)

lemma confined_in_return [confine]: "Q s \<Longrightarrow> confined_in own others Q (\<lambda>w. (r, s, w))"
  by (simp add: confined_in_def confined_return)

lemma confined_in_world [confine]:
  assumes m: "confined own others m" and k: "\<And>r. confined_in own others Q (k r)"
  shows "confined_in own others Q (\<lambda>w. case m w of (r, w) \<Rightarrow> k r w)"
proof (rule confined_inI)
  have "confined own others (\<lambda>w. case m w of (r, w) \<Rightarrow> case k r w of (r, s, w) \<Rightarrow> ((r, s), w))"
    by (rule confined_bind [OF m confined_inD(1) [OF k]])
  then show "confined own others (\<lambda>w. case (case m w of (r, w) \<Rightarrow> k r w) of (r, s, w) \<Rightarrow> ((r, s), w))"
    unfolding case_prod_beta .
  show "Q (fst (snd (case m w of (r, w) \<Rightarrow> k r w)))" for w
    unfolding case_prod_beta by (rule confined_inD(2) [OF k])
qed

lemma confined_in_bind:
  assumes m: "confined_in own others Q m" and k: "\<And>r s. Q s \<Longrightarrow> confined_in own others Q' (\<lambda>w. k r (s, w))"
  shows "confined_in own others Q' (\<lambda>w. case m w of (r, p) \<Rightarrow> k r p)"
proof (rule confined_inI)
  let ?k = "\<lambda>rs. if Q (snd rs) then (\<lambda>w. case k (fst rs) (snd rs, w) of (r, t, w) \<Rightarrow> ((r, t), w))
    else (\<lambda>w. (undefined, w))"
  have "confined own others (\<lambda>w. case (case m w of (r, s, w) \<Rightarrow> ((r, s), w)) of (rs, w) \<Rightarrow> ?k rs w)"
    by (rule confined_bind [OF confined_inD(1) [OF m]])
      (use confined_inD(1) [OF k] in \<open>auto intro: confined_return\<close>)
  moreover have "(case (case m w of (r, s, w) \<Rightarrow> ((r, s), w)) of (rs, w) \<Rightarrow> ?k rs w)
      = (case (case m w of (r, p) \<Rightarrow> k r p) of (r, t, w) \<Rightarrow> ((r, t), w))" for w
    using confined_inD(2) [OF m, of w] by (cases "m w") auto
  ultimately show "confined own others (\<lambda>w. case (case m w of (r, p) \<Rightarrow> k r p) of (r, t, w) \<Rightarrow> ((r, t), w))"
    by simp
next
  fix w
  obtain r s w' where m': "m w = (r, s, w')" by (rule prod_cases3)
  show "Q' (fst (snd (case m w of (r, p) \<Rightarrow> k r p)))"
    using confined_inD(2) [OF m, of w] confined_inD(2) [OF k [of s r], of w'] by (simp add: m')
qed

lemma confined_in_cases [confine]:
  "(\<And>e. confined_in own others Q (f e)) \<Longrightarrow> (\<And>x. confined_in own others Q (g x))
     \<Longrightarrow> confined_in own others Q (\<lambda>w. case r of Inl e \<Rightarrow> f e w | Inr x \<Rightarrow> g x w)"
  "confined_in own others Q h \<Longrightarrow> (\<And>y. confined_in own others Q (i y))
     \<Longrightarrow> confined_in own others Q (\<lambda>w. case u of None \<Rightarrow> h w | Some y \<Rightarrow> i y w)"
  "confined_in own others Q h \<Longrightarrow> confined_in own others Q k
     \<Longrightarrow> confined_in own others Q (\<lambda>w. if b then h w else k w)"
  "confined_in own others Q h \<Longrightarrow> confined_in own others Q k
     \<Longrightarrow> confined_in own others Q (\<lambda>w. case b of True \<Rightarrow> h w | False \<Rightarrow> k w)"
  "confined_in own others Q (p s) \<Longrightarrow> confined_in own others Q (\<lambda>w. case (s, w) of (x, y) \<Rightarrow> p x y)"
  by (cases r; simp; fail | cases u; simp; fail | cases b; simp; fail | simp)+

text \<open>An operation on a part of the state.\<close>

lemma confined_in_zoom:
  assumes "confined_in own others Q f" "\<And>t. Q t \<Longrightarrow> Q' (g t)"
  shows "confined_in own others Q' (\<lambda>w. case f w of (r, t, w) \<Rightarrow> (k r, g t, w))"
  by (rule confined_in_bind [OF assms(1)]) (simp add: confined_in_return assms(2))

section \<open>What names one client\<close>

text \<open>The statements and the commands that the sources send on behalf of a client.\<close>

definition tenant_params :: "string \<Rightarrow> string \<Rightarrow> string list \<Rightarrow> bool" where
  "tenant_params c sql args \<longleftrightarrow>
     (\<exists>k n s m. sql = ''INSERT INTO resources (client_id, kind, name, status, metadata) VALUES ($1, $2, $3, $4, $5::jsonb) RETURNING ''
         @ select_columns \<and> args = [c, k, n, s, m])
   \<or> (\<exists>i. (sql = ''SELECT '' @ select_columns @ '' FROM resources WHERE client_id = $1 AND id = $2''
         \<or> sql = ''DELETE FROM resources WHERE client_id = $1 AND id = $2 RETURNING id'') \<and> args = [c, i])"

definition tenant_text :: "(string \<Rightarrow> string) \<Rightarrow> string \<Rightarrow> string \<Rightarrow> bool" where
  "tenant_text q c sql \<longleftrightarrow>
     (\<exists>kind st pos n. sql = ''SELECT '' @ select_columns @ '' FROM resources WHERE client_id = '' @ q c
          @ sql_eq q ''kind'' kind @ sql_eq q ''status'' st
          @ (case pos of None \<Rightarrow> [] | Some p \<Rightarrow> position_sql q p)
          @ '' ORDER BY updated_at DESC, id DESC LIMIT '' @ dec_int n)
   \<or> (\<exists>name st md i. sql = ''UPDATE resources SET '' @ foldl add_assignment [] (
            (case name of None \<Rightarrow> [] | Some v \<Rightarrow> [''name = '' @ q v])
            @ (case st of None \<Rightarrow> [] | Some v \<Rightarrow> [''status = '' @ q v])
            @ (case md of None \<Rightarrow> [] | Some v \<Rightarrow> [''metadata = '' @ q v @ ''::jsonb'']))
          @ '' WHERE client_id = '' @ q c @ '' AND id = '' @ q i @ '' RETURNING '' @ select_columns)"

definition tenant_command :: "string \<Rightarrow> string \<Rightarrow> string list \<Rightarrow> bool" where
  "tenant_command prefix c argv \<longleftrightarrow>
     (\<exists>i key vkey. is_uuid i \<and> key = prefix @ ''resource:'' @ c @ '':'' @ i \<and> vkey = prefix @ ''ver:resource:'' @ c @ '':'' @ i
       \<and> (argv \<in> {[''GET'', key], [''GET'', vkey], [''EXISTS'', key]}
        \<or> (\<exists>v body ttl. argv = [''EVAL'', kPutIfVersion, ''2'', key, vkey, v, body, ttl])
        \<or> (\<exists>ttl. argv = [''EVAL'', kInvalidateVersioned, ''2'', key, vkey, ttl])))"

lemma list_sql_tenant: "list_sql q c f = Inr sql \<Longrightarrow> tenant_text q c sql"
  unfolding tenant_text_def by (intro disjI1) (drule list_sql_shape, blast)

lemma update_sql_tenant:
  assumes "update_sql lib q c i req = Inr sql" shows "tenant_text q c sql"
proof -
  let ?opt = "\<lambda>m. if uq_metadata req = None then None else Some m"
  have md: "(if uq_metadata req = None then [] else [''metadata = '' @ q m @ ''::jsonb''])
      = (case ?opt m of None \<Rightarrow> [] | Some v \<Rightarrow> [''metadata = '' @ q v @ ''::jsonb''])" for m
    by simp
  show ?thesis
    using update_sql_shape [OF assms] unfolding md tenant_text_def
    by (elim exE) (rule disjI2, rule exI [of _ "uq_name req"], rule exI [of _ "uq_status req"], rule exI, rule exI [of _ i])
qed

lemma uuid_no_nul: "is_uuid i \<Longrightarrow> CHR 0x00 \<notin> set i"
proof -
  have "uuid_chars n v \<Longrightarrow> CHR 0x00 \<notin> set v" for n v
    by (induction n v rule: uuid_chars.induct) (auto simp: is_xdigit_def split: if_splits)
  then show "is_uuid i \<Longrightarrow> CHR 0x00 \<notin> set i" by (auto simp: is_uuid_def)
qed

section \<open>Conversations\<close>

text \<open>Requests that one server handles one after the other, with the client that the authentication put into each.\<close>

type_synonym call = "uuid_draws \<times> int \<times> endpoint \<times> http_request \<times> string"

definition call_client :: "call \<Rightarrow> string" where
  "call_client x = (case x of (rnd, now, ep, req, rid) \<Rightarrow> get_client_id req)"

fun conversation ::
  "('c, 'w) handler_env \<Rightarrow> call list \<Rightarrow> cache_aside \<Rightarrow> 'w \<Rightarrow> (exn + http_response) list \<times> cache_aside \<times> 'w" where
  "conversation env [] ca w = ([], ca, w)"
| "conversation env ((rnd, now, ep, req, rid) # calls) ca w =
     (case run_endpoint env rnd now ep req rid ca w of
        (r, ca, w) \<Rightarrow> (case conversation env calls ca w of (rs, ca, w) \<Rightarrow> (r # rs, ca, w)))"

section \<open>The stores\<close>

text \<open>
  What every use of the stores does: taking and returning connections and transactions, connecting to Redis and setting
  it up stay within the client's part, with everything that their outcome depends on in \<open>own\<close>.
\<close>

locale stores_platform =
  fixes pg :: "('c, 'w) pg_client" and api :: "'w hiredis" and own :: "'w \<Rightarrow> 'v" and others :: "'w \<Rightarrow> 'o"
  assumes pool: "confined own others (pg_acquire pg)" "confined own others (\<lambda>w. ((), pg_release pg c w))"
    and transaction: "confined own others (pg_begin pg c)" "confined own others (pg_commit pg c)"
      "confined own others (\<lambda>w. ((), pg_end pg c w))"
    and connecting: "confined own others (hi_connect api h p t)"
      "confined own others (hi_set_timeout api x t)"
      "confined own others (\<lambda>w. ((), hi_free api x w))"
    and set_up: "confined_in own others (\<lambda>_. True) (hi_command api x [''AUTH'', a])"
      "confined_in own others (\<lambda>_. True) (hi_command api x [''SELECT'', a])"
begin

abbreviation "conf \<equiv> confined own others"
abbreviation "conf_in \<equiv> confined_in own others"

lemma confined_transaction [confine]:
  assumes "\<And>c. conf (body c)"
  shows "conf (in_transaction pg body)"
proof -
  have "conf (\<lambda>w. then_do (pg_acquire pg w) (\<lambda>c w. case pg_begin pg c w of (r, w) \<Rightarrow> (case r of
      Inl e \<Rightarrow> (case ((), pg_release pg c w) of (_, w) \<Rightarrow> (Inl e, w))
    | Inr _ \<Rightarrow> (case body c w of (r, w) \<Rightarrow> (case ((), pg_end pg c w) of (_, w) \<Rightarrow>
        (case ((), pg_release pg c w) of (_, w) \<Rightarrow> (r, w)))))))"
    by (intro confine assms pool transaction)
  then show ?thesis unfolding in_transaction_def [abs_def] prod.case .
qed

lemma confined_redis_command:
  assumes "\<And>x. conf_in (\<lambda>_. True) (hi_command api x argv)"
  shows "conf_in (\<lambda>_. True) (redis_command api argv c)"
proof (cases "ctx c")
  case None
  then show ?thesis by (simp add: redis_command_def [abs_def] confined_in_return)
next
  case (Some x)
  then show ?thesis
    using confined_in_zoom [OF assms [of x], where k = id and g = "\<lambda>x. c\<lparr>ctx := Some x\<rparr>"]
    by (simp add: redis_command_def [abs_def])
qed

lemma confined_setup:
  "conf (free_ctx api c)" "conf (apply_timeouts api c)"
  "conf_in (\<lambda>_. True) (redis_authenticate api c)" "conf_in (\<lambda>_. True) (select_db api c)"
proof -
  show "conf (free_ctx api c)"
  proof (cases "ctx c")
    case (Some x)
    have "conf (\<lambda>w. case ((), hi_free api x w) of (_, w) \<Rightarrow> (c\<lparr>ctx := None\<rparr>, w))" by (intro confine connecting)
    then show ?thesis using Some by (simp add: free_ctx_def [abs_def])
  qed (simp add: free_ctx_def [abs_def] confined_return)
  show "conf (apply_timeouts api c)"
    by (cases "ctx c") (auto simp: apply_timeouts_def [abs_def] intro!: confine connecting)
  show "conf_in (\<lambda>_. True) (redis_authenticate api c)" "conf_in (\<lambda>_. True) (select_db api c)"
    unfolding redis_authenticate_def [abs_def] select_db_def [abs_def]
    by (intro confine confined_in_bind [OF confined_redis_command] set_up TrueI)+
qed

lemma confined_reconnect: "conf_in (\<lambda>_. True) (reconnect api c)"
proof -
  let ?after = "\<lambda>c. \<lambda>w. case apply_timeouts api c w of (c, w) \<Rightarrow>
     (case redis_authenticate api c w of (Inl e, c, w) \<Rightarrow> (Inl e, c, w) | (Inr _, c, w) \<Rightarrow> select_db api c w)"
  have after: "conf_in (\<lambda>_. True) (?after c)" for c
    by (intro confine confined_setup confined_in_bind [OF confined_setup(3)] TrueI)
  have "conf_in (\<lambda>_. True) (\<lambda>w. case free_ctx api c w of (c, w) \<Rightarrow>
       (case hi_connect api (c_str (rd_host (rd_config c))) (rd_port (rd_config c)) (ms_timeval (connect_timeout_ms (rd_config c))) w of
         (r, w) \<Rightarrow> (case r of None \<Rightarrow> (Inl (RedisConfigError (''Failed to allocate Redis context for '' @ rd_host (rd_config c) @ '':''
                   @ dec_int (rd_port (rd_config c)))), c, w)
       | Some x \<Rightarrow> (if rc_err x \<noteq> 0
           then (case ((), hi_free api x w) of (_, w) \<Rightarrow>
             (Inl (RedisConfigError (''Redis connection failed to'' @ rd_host (rd_config c) @ '':''
                   @ dec_int (rd_port (rd_config c)) @ '': '' @ rc_errstr x)), c\<lparr>ctx := None\<rparr>, w))
           else ?after (c\<lparr>ctx := Some x\<rparr>) w))))"
    by (intro confine confined_setup connecting after TrueI)
  then show ?thesis unfolding reconnect_def [abs_def] Let_def prod.case .
qed

lemma confined_run_command:
  assumes "\<And>x. conf_in (\<lambda>_. True) (hi_command api x argv)"
  shows "conf_in (\<lambda>_. True) (run_command api argv k c)"
  unfolding run_command_def [abs_def]
  by (intro confine confined_in_zoom [OF confined_redis_command [OF assms], where g = "\<lambda>c. c"] TrueI)

lemma confined_new_connection: "conf (new_redis_connection api cfg)"
proof -
  have "conf (\<lambda>w. case (case reconnect api \<lparr>ctx = None, rd_config = cfg\<rparr> w of (r, c, w) \<Rightarrow> ((r, c), w)) of (rc, w) \<Rightarrow>
      ((case fst rc of Inl e \<Rightarrow> Inl e | Inr _ \<Rightarrow> Inr (snd rc)), w))"
    by (intro confine confined_inD(1) [OF confined_reconnect])
  then show ?thesis
    unfolding new_redis_connection_def [abs_def]
    by (rule back_subst [where P = conf]) (auto split: prod.split sum.split)
qed

lemma confined_destroy: "conf (\<lambda>w. ((), destroy_redis_connection api c w))"
proof -
  have "conf (\<lambda>w. case free_ctx api c w of (_, w) \<Rightarrow> ((), w))" by (intro confine confined_setup)
  then show ?thesis unfolding destroy_redis_connection_def case_prod_beta .
qed

end

section \<open>The platform\<close>

text \<open>Beside that, the statements and the commands of one client; the clock that the cache reads is in the client's part.\<close>

locale tenant_platform = stores_platform "se_pg env" "ce_redis (se_cache env)" own others
  for env :: "('c, 'w) service_env" and own :: "'w \<Rightarrow> 'v" and others :: "'w \<Rightarrow> 'o" +
  fixes prefix client_id :: string
  assumes no_nul: "CHR 0x00 \<notin> set (prefix @ client_id)"
    and params: "tenant_params client_id sql args \<Longrightarrow> confined own others (pg_exec_params (se_pg env) c sql args)"
    and texts: "tenant_text (pg_quote (se_pg env) c) client_id sql \<Longrightarrow> confined own others (pg_exec (se_pg env) c sql)"
    and commands: "tenant_command prefix client_id argv
      \<Longrightarrow> confined_in own others (\<lambda>_. True) (hi_command (ce_redis (se_cache env)) x argv)"
    and clock: "own v = own w \<Longrightarrow> ce_now (se_cache env) v = ce_now (se_cache env) w"
begin

abbreviation "pg \<equiv> se_pg env"
abbreviation "api \<equiv> ce_redis (se_cache env)"

subsection \<open>The repository\<close>

lemma confined_repo [confine]:
  "conf (repo_create pg lib client_id req)" "conf (repo_find_by_id pg lib client_id rid)"
  "conf (repo_list pg lib client_id f)" "conf (repo_update pg lib client_id rid ureq)" "conf (repo_remove pg client_id rid)"
proof -
  have ins: "tenant_params client_id create_sql [client_id, k, n, s, m]"
    and at: "tenant_params client_id find_sql [client_id, i]" "tenant_params client_id remove_sql [client_id, i]" for k n s m i
    by (simp_all add: tenant_params_def create_sql_def find_sql_def remove_sql_def)
  show "conf (repo_create pg lib client_id req)" unfolding repo_create_def Let_def
    by (intro confine params ins transaction)
  show "conf (repo_find_by_id pg lib client_id rid)" unfolding repo_find_by_id_def
    by (intro confine params at transaction)
  show "conf (repo_remove pg client_id rid)" unfolding repo_remove_def
    by (intro confine params at transaction)
  show "conf (repo_list pg lib client_id f)" unfolding repo_list_def
  proof (rule confined_transaction)
    fix c show "conf (\<lambda>w. case list_sql (pg_quote pg c) client_id f of Inl e \<Rightarrow> (Inl e, w)
      | Inr sql \<Rightarrow> then_do (pg_exec pg c sql w) (\<lambda>rows w. then_do (pg_commit pg c w) (\<lambda>_ w. (page_of lib (page_size f) rows, w))))"
      by (cases "list_sql (pg_quote pg c) client_id f")
        (auto intro!: confine texts transaction dest: list_sql_tenant)
  qed
  show "conf (repo_update pg lib client_id rid ureq)" unfolding repo_update_def
  proof (rule confined_transaction)
    fix c show "conf (\<lambda>w. case update_sql lib (pg_quote pg c) client_id rid ureq of Inl e \<Rightarrow> (Inl e, w)
      | Inr sql \<Rightarrow> then_do (pg_exec pg c sql w) (\<lambda>rows w. then_do (pg_commit pg c w) (\<lambda>_ w. (optional_row lib rows, w))))"
      by (cases "update_sql lib (pg_quote pg c) client_id rid ureq")
        (auto intro!: confine texts transaction dest: update_sql_tenant)
  qed
qed

subsection \<open>The cache\<close>

abbreviation "at_prefix ca \<equiv> key_prefix (ca_config ca) = prefix"

lemma confined_ensure:
  assumes "at_prefix ca"
  shows "conf_in at_prefix (ensure_connected_locked (se_cache env) ca)"
proof -
  have now: "conf (\<lambda>w. (ce_now (se_cache env) w, w))"
    by (rule confinedI) (auto dest: clock)
  have "conf_in at_prefix (\<lambda>w. if is_connected (ca_redis ca) then (True, ca, w)
      else case (ce_now (se_cache env) w, w) of (now, w) \<Rightarrow>
        if now < next_reconnect ca then (False, ca, w)
        else case reconnect api (ca_redis ca) w of
            (Inr _, c, w) \<Rightarrow> (True, ca\<lparr>ca_redis := c\<rparr>, w)
          | (Inl _, c, w) \<Rightarrow> (False, ca\<lparr>ca_redis := c, next_reconnect := now + kReconnectBackoff\<rparr>, w))"
    by (intro confine now confined_in_bind [OF confined_reconnect]) (use assms in simp_all)
  then show ?thesis unfolding ensure_connected_locked_def [abs_def] Let_def prod.case .
qed

lemma confined_on_redis:
  assumes "\<And>c. conf_in (\<lambda>_. True) (op c)" "at_prefix ca"
  shows "conf_in at_prefix (on_redis op ca)"
  using confined_in_zoom [OF assms(1), where k = id and g = "\<lambda>c. ca\<lparr>ca_redis := c\<rparr>" and Q' = at_prefix] assms(2)
  by (simp add: on_redis_def [abs_def])

lemma confined_on_command:
  assumes "tenant_command prefix client_id argv" "at_prefix ca"
  shows "conf_in at_prefix (on_redis (run_command api argv k) ca)"
  by (intro confined_on_redis confined_run_command commands assms)

lemma confined_raw:
  assumes "tenant_command prefix client_id argv" "at_prefix ca"
  shows "conf_in at_prefix (raw_command (se_cache env) argv ca)"
  using confined_in_zoom [OF confined_redis_command [OF commands [OF assms(1)], of "ca_redis ca"],
      where k = id and g = "\<lambda>c. ca\<lparr>ca_redis := c\<rparr>" and Q' = at_prefix] assms(2)
  by (simp add: raw_command_def [abs_def])

lemma confined_guarded:
  assumes "\<And>ca. at_prefix ca \<Longrightarrow> conf_in at_prefix (body ca)" "at_prefix ca"
  shows "conf_in at_prefix (guarded (se_cache env) d body ca)"
  unfolding guarded_def [abs_def]
  by (intro confine confined_in_bind [OF confined_ensure [OF assms(2)]] confined_in_bind [OF assms(1)])

lemma key_whole:
  assumes "is_uuid i" "at_prefix ca"
  shows "c_str (make_key ca (cache_key client_id i)) = prefix @ ''resource:'' @ client_id @ '':'' @ i"
    "c_str (version_key ca (cache_key client_id i)) = prefix @ ''ver:resource:'' @ client_id @ '':'' @ i"
  using no_nul uuid_no_nul [OF assms(1)] assms(2)
  by (subst c_str_id; auto simp: make_key_def version_key_def cache_key_def)+

lemma confined_cache:
  assumes i: "is_uuid i" and ca: "at_prefix ca"
  shows "conf_in at_prefix (cache_get (se_cache env) (cache_key client_id i) ca)"
    "conf_in at_prefix (cache_version (se_cache env) (cache_key client_id i) ca)"
    "conf_in at_prefix (put_if_version (se_cache env) (cache_key client_id i) v text_v ttl ca)"
    "conf_in at_prefix (invalidate_versioned (se_cache env) (cache_key client_id i) ca)"
proof -
  let ?k = "prefix @ ''resource:'' @ client_id @ '':'' @ i" and ?v = "prefix @ ''ver:resource:'' @ client_id @ '':'' @ i"
  have t: "tenant_command prefix client_id [''GET'', ?k]" "tenant_command prefix client_id [''GET'', ?v]"
      "tenant_command prefix client_id [''EXISTS'', ?k]"
      "tenant_command prefix client_id [''EVAL'', kPutIfVersion, ''2'', ?k, ?v, a, b, c]"
      "tenant_command prefix client_id [''EVAL'', kInvalidateVersioned, ''2'', ?k, ?v, c]" for a b c
    using i unfolding tenant_command_def by blast+
  have keys: "make_key ca (cache_key client_id i) = ?k" "version_key ca (cache_key client_id i) = ?v"
    using ca by (simp_all add: make_key_def version_key_def cache_key_def)
  show "conf_in at_prefix (cache_get (se_cache env) (cache_key client_id i) ca)"
    unfolding cache_get_def [abs_def] Let_def redis_get_def redis_exists_def key_whole [OF i ca]
    by (intro confine confined_guarded ca confined_in_bind [OF confined_on_command] t)
  show "conf_in at_prefix (cache_version (se_cache env) (cache_key client_id i) ca)"
    unfolding cache_version_def [abs_def] Let_def redis_get_def key_whole [OF i ca]
    by (intro confine confined_guarded ca confined_in_bind [OF confined_on_command] t)
  show "conf_in at_prefix (put_if_version (se_cache env) (cache_key client_id i) v text_v ttl ca)"
    unfolding put_if_version_def [abs_def] Let_def keys
    by (intro confine confined_in_bind [OF confined_ensure [OF ca]] confined_in_bind [OF confined_raw] t)
  show "conf_in at_prefix (invalidate_versioned (se_cache env) (cache_key client_id i) ca)"
    unfolding invalidate_versioned_def [abs_def] Let_def keys
    by (intro confine confined_in_bind [OF confined_ensure [OF ca]] confined_in_bind [OF confined_raw] t)
qed

subsection \<open>The service\<close>

lemma confined_service:
  assumes ca: "at_prefix ca" and i: "is_uuid i"
  shows "conf_in at_prefix (service_get env client_id i ca)"
    "conf_in at_prefix (service_update env client_id i ureq ca)"
    "conf_in at_prefix (service_remove env client_id i ca)"
proof -
  note b = confined_in_bind [OF confined_cache(1) [OF i]] confined_in_bind [OF confined_cache(2) [OF i]]
    confined_in_bind [OF confined_cache(3) [OF i]] confined_in_bind [OF confined_cache(4) [OF i]]
  show "conf_in at_prefix (service_get env client_id i ca)"
    unfolding service_get_def [abs_def] Let_def by (intro confine b ca)
  show "conf_in at_prefix (service_update env client_id i ureq ca)"
    unfolding service_update_def [abs_def]
    apply (intro confined_in_cases(5) confine b ca)
    subgoal for r e by (cases e) (simp_all add: confined_in_return ca)
    subgoal by assumption
    done
  show "conf_in at_prefix (service_remove env client_id i ca)"
    unfolding service_remove_def [abs_def] by (intro confine b ca)
qed

lemma confined_service_all:
  assumes "at_prefix ca"
  shows "conf_in at_prefix (service_create env client_id creq ca)" "conf_in at_prefix (service_list env client_id f ca)"
proof -
  show "conf_in at_prefix (service_create env client_id creq ca)"
    unfolding service_create_def [abs_def]
    apply (intro confine assms)
    subgoal for r e by (cases e) (simp_all add: confined_in_return assms)
    done
  show "conf_in at_prefix (service_list env client_id f ca)"
    unfolding service_list_def [abs_def] by (intro confine assms)
qed

subsection \<open>The handlers\<close>

lemma confined_endpoint:
  assumes ca: "at_prefix ca" and h: "he_service henv = env" and req: "get_client_id req = client_id"
  shows "conf_in at_prefix (run_endpoint henv rnd now ep req rid ca)"
proof -
  note pair = confined_in_cases(5)
  have uuid: "conf_in at_prefix (\<lambda>w. if \<not> is_uuid rid then f w else g w)"
    if "conf_in at_prefix f" "is_uuid rid \<Longrightarrow> conf_in at_prefix g" for f g :: "'w \<Rightarrow> 'r \<times> cache_aside \<times> 'w"
    using that by (cases "is_uuid rid") simp_all
  have body: "conf_in at_prefix (\<lambda>w. case r of Inl (JsonException _) \<Rightarrow> (a, ca, w) | Inl e \<Rightarrow> (Inl e, ca, w) | Inr x \<Rightarrow> k x w)"
    if "\<And>x. conf_in at_prefix (k x)" for r :: "exn + json" and a and k :: "json \<Rightarrow> 'w \<Rightarrow> (exn + http_response) \<times> cache_aside \<times> 'w"
  proof (cases r)
    case (Inl e)
    then show ?thesis by (cases e) (simp_all add: confined_in_return ca)
  qed (simp add: that)
  note service = confined_in_bind [OF confined_service(1) [OF ca]] confined_in_bind [OF confined_service(2) [OF ca]]
    confined_in_bind [OF confined_service(3) [OF ca]] confined_in_bind [OF confined_service_all(1) [OF ca]]
    confined_in_bind [OF confined_service_all(2) [OF ca]]
  have c: "conf_in at_prefix (create_resource_handler henv rnd now req ca)"
    unfolding create_resource_handler_def [abs_def] Let_def h req by (intro pair body confine service ca)
  have l: "conf_in at_prefix (list_resources_handler henv rnd now req ca)"
    unfolding list_resources_handler_def [abs_def] Let_def h req by (intro pair confine service ca)
  have g: "conf_in at_prefix (get_resource_handler henv rnd now req rid ca)"
    unfolding get_resource_handler_def [abs_def] Let_def h req by (intro pair uuid confine service ca)
  have u: "conf_in at_prefix (update_resource_handler henv rnd now req rid ca)"
    unfolding update_resource_handler_def [abs_def] Let_def h req by (intro pair uuid body confine service ca)
  have d: "conf_in at_prefix (delete_resource_handler henv rnd now req rid ca)"
    unfolding delete_resource_handler_def [abs_def] Let_def h req by (intro pair uuid confine service ca)
  show ?thesis by (cases ep) (simp_all add: c l g u d)
qed

lemma confined_conversation:
  assumes "he_service henv = env"
  shows "list_all (\<lambda>x. call_client x = client_id) calls \<Longrightarrow> at_prefix ca \<Longrightarrow> conf_in at_prefix (conversation henv calls ca)"
proof (induction calls arbitrary: ca)
  case Nil
  have "conversation henv [] ca = (\<lambda>w. ([], ca, w))" by (rule ext) simp
  then show ?case using Nil(2) by (simp add: confined_in_return)
next
  case (Cons x calls)
  obtain rnd now ep req rid where x: "x = (rnd, now, ep, req, rid)" by (cases x)
  have "get_client_id req = client_id" using Cons.prems(1) by (simp add: x call_client_def)
  note step = confined_endpoint [OF Cons.prems(2) assms this] and rest = Cons.IH
  have "conf_in at_prefix (\<lambda>w. case run_endpoint henv rnd now ep req rid ca w of
      (r, ca, w) \<Rightarrow> (case conversation henv calls ca w of (rs, ca, w) \<Rightarrow> (r # rs, ca, w)))"
    by (intro confined_in_cases(5) confined_in_bind [OF step] confined_in_bind [OF rest] confined_in_return)
      (use Cons.prems in auto)
  moreover have "conversation henv (x # calls) ca = (\<lambda>w. case run_endpoint henv rnd now ep req rid ca w of
      (r, ca, w) \<Rightarrow> (case conversation henv calls ca w of (rs, ca, w) \<Rightarrow> (r # rs, ca, w)))"
    by (rule ext) (simp add: x)
  ultimately show ?case by (simp only:)
qed

end

end
