(* ===== verification/Float64.thy ===== *)
theory Float64
  imports Prelude "HOL-Library.Log_Nat"
begin

text \<open>
  Arithmetic on \<open>double\<close>. A finite double is a rational number; \<open>fl\<close> rounds a rational to the
  nearest number with a significand of 53 bits, ties to even, which is how the operations
  of IEEE 754 binary64 round their exact result. The exponent is not bounded: overflow to
  infinity, subnormal numbers and NaN are outside this model, and the quantities that the
  program computes with doubles (token counts, seconds, a refill rate) stay between
  \<open>2^-100\<close> and \<open>2^100\<close> in absolute value or are 0. The locale \<open>rounding\<close> holds the laws that the
  token bucket relies on.
\<close>

section \<open>Powers of two and the exponent of a number\<close>

definition pow2 :: "int \<Rightarrow> rat" where
  "pow2 e = (if 0 \<le> e then 2 ^ nat e else 1 / 2 ^ nat (- e))"

lemma pow2_powi: "pow2 e = 2 powi e"
  by (simp add: pow2_def power_int_def field_simps)

lemma pow2_pos [simp]: "0 < pow2 e"
  by (simp add: pow2_def)

lemma pow2_nonzero [simp]: "pow2 e \<noteq> 0"
  using pow2_pos [of e] by linarith

lemma pow2_nonneg [simp]: "0 \<le> pow2 e" and pow2_abs [simp]: "\<bar>pow2 e\<bar> = pow2 e"
  using pow2_pos [of e] by (simp_all only: abs_of_pos less_imp_le)

lemma pow2_add: "pow2 (a + b) = pow2 a * pow2 b"
  by (simp add: pow2_powi power_int_add)

lemma pow2_diff: "pow2 (a - b) = pow2 a / pow2 b"
  by (simp add: pow2_powi power_int_diff)

lemma pow2_mono: "a \<le> b \<Longrightarrow> pow2 a \<le> pow2 b"
  by (simp add: pow2_powi power_int_increasing)

lemma pow2_less_cancel: "pow2 a < pow2 b \<Longrightarrow> a < b"
  using pow2_mono [of b a] by linarith

lemma pow2_nat: "pow2 (int n) = 2 ^ n"
  by (simp add: pow2_def)

lemma pow2_of_int: "0 \<le> e \<Longrightarrow> pow2 e = of_int (2 ^ nat e)"
  by (simp add: pow2_def)

lemma bitlen_pow2:
  assumes "0 < n"
  shows "pow2 (bitlen n - 1) \<le> of_int n" "of_int n < pow2 (bitlen n)" "0 < bitlen n"
proof -
  have b: "2 ^ nat (bitlen n - 1) \<le> n" "n < 2 ^ nat (bitlen n)"
    using bitlen_bounds [OF assms] by auto
  show pos: "0 < bitlen n"
    using assms by (simp add: bitlen_eq_zero_iff bitlen_nonneg order_less_le)
  have "pow2 (bitlen n - 1) = of_int (2 ^ nat (bitlen n - 1))"
    using pos by (intro pow2_of_int) simp
  then show "pow2 (bitlen n - 1) \<le> of_int n" using b(1) by (simp only: of_int_le_iff)
  have "pow2 (bitlen n) = of_int (2 ^ nat (bitlen n))"
    using pos by (intro pow2_of_int) simp
  then show "of_int n < pow2 (bitlen n)" using b(2) by (simp only: of_int_less_iff)
qed

definition dexp :: "rat \<Rightarrow> int" where
  "dexp x = (let (p, q) = quotient_of x; k = bitlen p - bitlen q
             in if pow2 k \<le> x then k else k - 1)"

lemma dexp_bounds:
  assumes "0 < x"
  shows "pow2 (dexp x) \<le> x" "x < pow2 (dexp x + 1)"
proof -
  obtain p q where pq: "quotient_of x = (p, q)" by (cases "quotient_of x")
  have q: "0 < q" and x: "x = of_int p / of_int q"
    using quotient_of_denom_pos [OF pq] quotient_of_div [OF pq] by simp_all
  have p: "0 < p" using assms q by (simp add: x zero_less_divide_iff)
  define k where "k = bitlen p - bitlen q"
  note fp = bitlen_pow2 [OF p] and fq = bitlen_pow2 [OF q]
  have lo: "pow2 (k - 1) \<le> x"
  proof -
    have "pow2 (k - 1) = pow2 (bitlen p - 1) / pow2 (bitlen q)"
      by (simp add: k_def pow2_diff [symmetric] algebra_simps)
    also have "\<dots> \<le> of_int p / of_int q"
      using fp fq p q by (intro frac_le) auto
    finally show ?thesis by (simp add: x)
  qed
  have hi: "x < pow2 (k + 1)"
  proof -
    have "of_int p / of_int q < pow2 (bitlen p) / pow2 (bitlen q - 1)"
      using fp fq p q by (intro frac_less) auto
    also have "\<dots> = pow2 (k + 1)"
      by (simp add: k_def pow2_diff [symmetric] algebra_simps)
    finally show ?thesis by (simp add: x)
  qed
  have "dexp x = (if pow2 k \<le> x then k else k - 1)"
    by (simp add: dexp_def pq k_def)
  with lo hi show "pow2 (dexp x) \<le> x" "x < pow2 (dexp x + 1)"
    by (auto split: if_splits)
qed

lemma dexp_mono: "0 < x \<Longrightarrow> x \<le> y \<Longrightarrow> dexp x \<le> dexp y"
  using dexp_bounds [of x] dexp_bounds [of y] pow2_less_cancel [of "dexp x" "dexp y + 1"]
  by linarith

section \<open>Rounding to nearest, ties to even\<close>

definition round_even :: "rat \<Rightarrow> int" where
  "round_even x = (let n = \<lfloor>x\<rfloor>; d = x - of_int n
     in if d < 1 / 2 then n else if 1 / 2 < d then n + 1 else if even n then n else n + 1)"

lemma round_even_of_int [simp]: "round_even (of_int n) = n"
  by (simp add: round_even_def)

lemma round_even_cases: "round_even x = \<lfloor>x\<rfloor> \<or> round_even x = \<lfloor>x\<rfloor> + 1"
  by (simp add: round_even_def Let_def)

lemma round_even_mono: "x \<le> y \<Longrightarrow> round_even x \<le> round_even y"
proof -
  assume le: "x \<le> y"
  have fl: "\<lfloor>x\<rfloor> \<le> \<lfloor>y\<rfloor>" using le by (rule floor_mono)
  show ?thesis
  proof (cases "\<lfloor>x\<rfloor> = \<lfloor>y\<rfloor>")
    case True
    then show ?thesis using le by (auto simp: round_even_def Let_def)
  next
    case False
    with fl have "\<lfloor>x\<rfloor> + 1 \<le> \<lfloor>y\<rfloor>" by linarith
    then show ?thesis using round_even_cases [of x] round_even_cases [of y] by linarith
  qed
qed

lemma round_even_error: "\<bar>of_int (round_even x) - x\<bar> \<le> 1 / 2"
proof -
  have "0 \<le> x - of_int \<lfloor>x\<rfloor>" "x - of_int \<lfloor>x\<rfloor> < 1"
    by linarith+
  then show ?thesis by (auto simp: round_even_def Let_def abs_le_iff)
qed

definition fl_pos :: "rat \<Rightarrow> rat" where
  "fl_pos x = (let u = pow2 (dexp x - 52) in of_int (round_even (x / u)) * u)"

definition fl :: "rat \<Rightarrow> rat" where
  "fl x = (if x = 0 then 0 else if 0 < x then fl_pos x else - fl_pos (- x))"


lemma fl_0 [simp]: "fl 0 = 0"
  by (simp add: fl_def)

lemma fl_minus: "fl (- x) = - fl x"
  by (simp add: fl_def)

lemma scaled_bounds:
  assumes "0 < x"
  shows "2 ^ 52 \<le> x / pow2 (dexp x - 52)" "x / pow2 (dexp x - 52) < 2 ^ 53"
proof -
  have "pow2 (dexp x) = 2 ^ 52 * pow2 (dexp x - 52)"
    using pow2_add [of 52 "dexp x - 52"] pow2_nat [of 52] by simp
  then show "2 ^ 52 \<le> x / pow2 (dexp x - 52)"
    using dexp_bounds(1) [OF assms] by (simp add: pos_le_divide_eq)
  have "pow2 (dexp x + 1) = 2 ^ 53 * pow2 (dexp x - 52)"
    using pow2_add [of 53 "dexp x - 52"] pow2_nat [of 53] by (simp add: add.commute)
  then show "x / pow2 (dexp x - 52) < 2 ^ 53"
    using dexp_bounds(2) [OF assms] by (simp add: pos_divide_less_eq)
qed

lemma round_scaled:
  assumes "0 < x"
  shows "2 ^ 52 \<le> round_even (x / pow2 (dexp x - 52))" "round_even (x / pow2 (dexp x - 52)) \<le> 2 ^ 53"
proof -
  let ?y = "x / pow2 (dexp x - 52)"
  have "round_even (of_int (2 ^ 52)) \<le> round_even ?y"
    using scaled_bounds(1) [OF assms] by (intro round_even_mono) simp
  then show "2 ^ 52 \<le> round_even ?y" by (simp only: round_even_of_int)
  have "round_even ?y \<le> round_even (of_int (2 ^ 53))"
    using scaled_bounds(2) [OF assms] by (intro round_even_mono) simp
  then show "round_even ?y \<le> 2 ^ 53" by (simp only: round_even_of_int)
qed

lemma fl_pos_bounds:
  assumes "0 < x"
  shows "pow2 (dexp x) \<le> fl_pos x" "fl_pos x \<le> pow2 (dexp x + 1)"
proof -
  let ?r = "round_even (x / pow2 (dexp x - 52))"
  have "(2 ^ 52 :: rat) \<le> of_int ?r"
    using round_scaled(1) [OF assms] by (metis of_int_le_iff of_int_numeral of_int_power)
  then have "2 ^ 52 * pow2 (dexp x - 52) \<le> fl_pos x"
    by (simp add: fl_pos_def Let_def mult_right_mono)
  then show "pow2 (dexp x) \<le> fl_pos x"
    using pow2_add [of 52 "dexp x - 52"] pow2_nat [of 52] by simp
  have "of_int ?r \<le> (2 ^ 53 :: rat)"
    using round_scaled(2) [OF assms] by (metis of_int_le_iff of_int_numeral of_int_power)
  then have "fl_pos x \<le> 2 ^ 53 * pow2 (dexp x - 52)"
    by (simp add: fl_pos_def Let_def mult_right_mono)
  then show "fl_pos x \<le> pow2 (dexp x + 1)"
    using pow2_add [of 53 "dexp x - 52"] pow2_nat [of 53] by (simp add: add.commute)
qed

lemma fl_pos_mono:
  assumes "0 < x" "x \<le> y"
  shows "fl_pos x \<le> fl_pos y"
proof (cases "dexp x = dexp y")
  case True
  have "x / pow2 (dexp y - 52) \<le> y / pow2 (dexp y - 52)"
    using assms(2) by (intro divide_right_mono) simp_all
  from round_even_mono [OF this] True show ?thesis
    by (simp add: fl_pos_def Let_def mult_right_mono)
next
  case False
  with dexp_mono [OF assms] have "dexp x + 1 \<le> dexp y" by linarith
  from pow2_mono [OF this] show ?thesis
    using fl_pos_bounds(2) [OF assms(1)] fl_pos_bounds(1) [of y] assms by linarith
qed

lemma fl_pos_pos: "0 < x \<Longrightarrow> 0 < fl_pos x"
  using fl_pos_bounds(1) [of x] pow2_pos [of "dexp x"] by linarith

lemma fl_mono: "x \<le> y \<Longrightarrow> fl x \<le> fl y"
  using fl_pos_mono [of x y] fl_pos_mono [of "- y" "- x"] fl_pos_pos [of y] fl_pos_pos [of "- x"]
  by (auto simp: fl_def)

section \<open>Representable numbers are not rounded\<close>

definition is_double :: "rat \<Rightarrow> bool" where
  "is_double x \<longleftrightarrow> (\<exists>m e. \<bar>m\<bar> \<le> 2 ^ 53 \<and> x = of_int m * pow2 e)"

lemma fl_pos_exact_aux:
  assumes "0 < m" "m < 2 ^ 53" "x = of_int m * pow2 e"
  shows "fl_pos x = x"
proof -
  have x: "0 < x" using assms(1,3) by simp
  have "(of_int m :: rat) < 2 ^ 53"
    using assms(2) by (metis of_int_less_iff of_int_numeral of_int_power)
  then have "x < 2 ^ 53 * pow2 e" by (simp add: assms(3))
  also have "\<dots> = pow2 (53 + e)" using pow2_add [of 53 e] pow2_nat [of 53] by simp
  finally have "dexp x < 53 + e"
    using dexp_bounds(1) [OF x] by (intro pow2_less_cancel) linarith
  then have ge: "0 \<le> e - (dexp x - 52)" by linarith
  have "x / pow2 (dexp x - 52) = of_int m * pow2 (e - (dexp x - 52))"
    by (simp add: assms(3) pow2_diff)
  also have "\<dots> = of_int (m * 2 ^ nat (e - (dexp x - 52)))"
    by (simp add: pow2_of_int [OF ge])
  finally have "of_int (round_even (x / pow2 (dexp x - 52))) = x / pow2 (dexp x - 52)"
    by (simp only: round_even_of_int)
  then show ?thesis
    using pow2_pos [of "dexp x - 52"] by (simp add: fl_pos_def Let_def)
qed

lemma fl_pos_exact:
  assumes "0 < m" "m \<le> 2 ^ 53" "x = of_int m * pow2 e"
  shows "fl_pos x = x"
proof (cases "m = 2 ^ 53")
  case True
  have "x = of_int 1 * pow2 (53 + e)"
    using pow2_add [of 53 e] pow2_nat [of 53] by (simp add: assms(3) True)
  from fl_pos_exact_aux [OF _ _ this] show ?thesis by simp
next
  case False
  with assms show ?thesis using fl_pos_exact_aux [of m x e] by simp
qed

lemma fl_exact: "is_double x \<Longrightarrow> fl x = x"
proof -
  assume "is_double x"
  then obtain m e where m: "\<bar>m\<bar> \<le> 2 ^ 53" and x: "x = of_int m * pow2 e"
    by (auto simp: is_double_def)
  consider "m = 0" | "0 < m" | "m < 0" by linarith
  then show ?thesis
  proof cases
    case 1
    then show ?thesis by (simp add: x)
  next
    case 2
    then show ?thesis using fl_pos_exact [OF 2 _ x] m by (simp add: fl_def x)
  next
    case 3
    then have "fl_pos (- x) = - x" using m by (intro fl_pos_exact [of "- m" _ e]) (auto simp: x)
    moreover have "x < 0" using 3 by (simp add: x mult_neg_pos)
    ultimately show ?thesis by (simp add: fl_def)
  qed
qed

lemma is_double_minus: "is_double x \<Longrightarrow> is_double (- x)"
  unfolding is_double_def by (metis abs_minus_cancel minus_mult_left of_int_minus)

lemma is_double_fl_pos: "0 < x \<Longrightarrow> is_double (fl_pos x)"
  using round_scaled [of x] unfolding is_double_def fl_pos_def Let_def
  by (intro exI [of _ "round_even (x / pow2 (dexp x - 52))"] exI [of _ "dexp x - 52"]) auto

lemma is_double_fl: "is_double (fl x)"
proof -
  have "is_double 0" unfolding is_double_def by (intro exI [of _ 0]) simp
  then show ?thesis
    using is_double_fl_pos [of x] is_double_minus [OF is_double_fl_pos [of "- x"]]
    by (auto simp: fl_def)
qed

lemma is_double_of_int: "\<bar>n\<bar> \<le> 2 ^ 53 \<Longrightarrow> is_double (of_int n)"
  unfolding is_double_def by (intro exI [of _ n] exI [of _ 0]) (simp add: pow2_def)

lemma fl_error: "\<bar>fl x - x\<bar> \<le> \<bar>x\<bar> / 2 ^ 53"
proof -
  have pos: "\<bar>fl_pos y - y\<bar> \<le> y / 2 ^ 53" if y: "0 < y" for y
  proof -
    let ?u = "pow2 (dexp y - 52)"
    have "fl_pos y - y = (of_int (round_even (y / ?u)) - y / ?u) * ?u"
      using pow2_pos [of "dexp y - 52"] by (simp add: fl_pos_def Let_def algebra_simps)
    then have "\<bar>fl_pos y - y\<bar> = \<bar>of_int (round_even (y / ?u)) - y / ?u\<bar> * ?u"
      using pow2_pos [of "dexp y - 52"] by (simp add: abs_mult)
    also have "\<dots> \<le> 1 / 2 * ?u"
      using round_even_error [of "y / ?u"] pow2_pos [of "dexp y - 52"]
      by (intro mult_right_mono) linarith+
    also have "\<dots> = pow2 (dexp y) / 2 ^ 53"
      using pow2_diff [of "dexp y" 52] pow2_nat [of 52] by simp
    also have "\<dots> \<le> y / 2 ^ 53"
      using dexp_bounds(1) [OF y] by (intro divide_right_mono) auto
    finally show ?thesis .
  qed
  have neg: "\<bar>- fl_pos (- x) - x\<bar> = \<bar>fl_pos (- x) - (- x)\<bar>"
    by linarith
  consider "x = 0" | "0 < x" | "x < 0" by linarith
  then show ?thesis
  proof cases
    case 2
    then show ?thesis using pos [of x] by (simp only: fl_def) simp
  next
    case 3
    then have "fl x = - fl_pos (- x)" by (simp add: fl_def)
    then show ?thesis using pos [of "- x"] 3 neg by simp
  qed simp
qed

section \<open>The laws of rounding\<close>

text \<open>
  What a client of double arithmetic may use: rounding keeps the order, leaves integers up to
  \<open>2^53\<close> and results of rounding alone, and its relative error is at most \<open>2^-53\<close>.
\<close>

locale rounding =
  fixes rnd :: "rat \<Rightarrow> rat"
  assumes rnd_mono: "x \<le> y \<Longrightarrow> rnd x \<le> rnd y"
    and rnd_int: "\<bar>n\<bar> \<le> 2 ^ 53 \<Longrightarrow> rnd (of_int n) = of_int n"
    and rnd_rnd: "rnd (rnd x) = rnd x"
    and rnd_error: "\<bar>rnd x - x\<bar> \<le> \<bar>x\<bar> / 2 ^ 53"
begin

lemma rnd_0 [simp]: "rnd 0 = 0"
  using rnd_int [of 0] by simp

lemma rnd_1 [simp]: "rnd 1 = 1"
  using rnd_int [of 1] by simp

lemma rnd_nonneg: "0 \<le> x \<Longrightarrow> 0 \<le> rnd x"
  using rnd_mono [of 0 x] by simp

lemma rnd_ge_int: "\<bar>n\<bar> \<le> 2 ^ 53 \<Longrightarrow> of_int n \<le> x \<Longrightarrow> of_int n \<le> rnd x"
  using rnd_mono [of "of_int n" x] by (simp add: rnd_int)

lemma rnd_ge_1: "1 \<le> x \<Longrightarrow> 1 \<le> rnd x"
  using rnd_mono [of 1 x] by simp

lemma rnd_sum_ge: "rnd t = t \<Longrightarrow> 0 \<le> d \<Longrightarrow> t \<le> rnd (t + d)"
  using rnd_mono [of t "t + d"] by simp

lemma rnd_pos: "0 < x \<Longrightarrow> 0 < rnd x"
  using rnd_error [of x] by (simp only: abs_le_iff abs_of_pos) (simp add: field_simps)

lemma rnd_le_scaled: "0 \<le> x \<Longrightarrow> rnd x \<le> x * (1 + 1 / 2 ^ 53)"
  using rnd_error [of x] by (simp only: abs_le_iff abs_of_nonneg) (simp add: field_simps)

lemma rnd_ge_scaled: "0 \<le> x \<Longrightarrow> x * (1 - 1 / 2 ^ 53) \<le> rnd x"
  using rnd_error [of x] by (simp only: abs_le_iff abs_of_nonneg) (simp add: field_simps)

end

interpretation fl: rounding fl
  by unfold_locales
     (simp_all only: fl_mono fl_exact is_double_of_int is_double_fl fl_error)

end
