(* ===== verification/RateLimiter.thy ===== *)
theory RateLimiter
  imports Float64
begin

text \<open>
  The token-bucket rate limiter, \<open>include/corvus/gateway/rate_limiter.h\<close> and
  \<open>src/gateway/rate_limiter.cpp\<close>. A \<open>steady_clock::time_point\<close> is its count of nanoseconds, a
  \<open>double\<close> a rational that every operation rounds with \<open>fl\<close>, the \<open>unordered_map\<close> an
  association list with distinct keys. Each member function reads the clock at most once,
  so the time it reads is an argument. The mutex makes every call one atomic step, which is
  why a concurrent run is a list of calls.
\<close>

section \<open>Configuration and state\<close>

record rate_limit_config =
  max_tokens :: nat
  refill_rate :: rat
  cleanup_interval :: int
  entry_ttl :: int

definition default_rate_limit_config :: rate_limit_config where
  "default_rate_limit_config =
     \<lparr>max_tokens = 100, refill_rate = 10, cleanup_interval = 300, entry_ttl = 600\<rparr>"

record token_bucket =
  tokens :: rat
  last_refill :: int
  last_access :: int

record rate_limiter =
  rl_config :: rate_limit_config
  buckets :: "(string \<times> token_bucket) list"
  last_cleanup :: int

definition new_rate_limiter :: "rate_limit_config \<Rightarrow> int \<Rightarrow> rate_limiter" where
  "new_rate_limiter cfg now = \<lparr>rl_config = cfg, buckets = [], last_cleanup = now\<rparr>"

text \<open>\<open>std::chrono::seconds\<close> compared with a difference of time points.\<close>

definition seconds_ns :: "int \<Rightarrow> int" where
  "seconds_ns s = s * 10 ^ 9"

text \<open>\<open>std::chrono::duration<double>(d).count()\<close>.\<close>

definition duration_secs :: "int \<Rightarrow> rat" where
  "duration_secs d = fl (fl (of_int d) / 10 ^ 9)"

text \<open>\<open>static_cast<double>(config_.max_tokens)\<close>.\<close>

definition capacity :: "rate_limit_config \<Rightarrow> rat" where
  "capacity cfg = fl (of_nat (max_tokens cfg))"

section \<open>Operations\<close>

definition refill :: "rate_limit_config \<Rightarrow> token_bucket \<Rightarrow> int \<Rightarrow> token_bucket" where
  "refill cfg b now =
     (let elapsed = duration_secs (now - last_refill b)
      in if elapsed \<le> 0 then b
         else b\<lparr>tokens := min (capacity cfg) (fl (tokens b + fl (elapsed * refill_rate cfg))),
                last_refill := now\<rparr>)"

definition maybe_cleanup :: "rate_limiter \<Rightarrow> int \<Rightarrow> rate_limiter" where
  "maybe_cleanup rl now =
     (if now - last_cleanup rl < seconds_ns (cleanup_interval (rl_config rl)) then rl
      else rl\<lparr>last_cleanup := now,
              buckets := filter (\<lambda>(k, b). \<not> seconds_ns (entry_ttl (rl_config rl)) < now - last_access b)
                           (buckets rl)\<rparr>)"

definition fresh_bucket :: "rate_limit_config \<Rightarrow> int \<Rightarrow> token_bucket" where
  "fresh_bucket cfg now = \<lparr>tokens = capacity cfg, last_refill = now, last_access = now\<rparr>"

definition allow :: "rate_limiter \<Rightarrow> string \<Rightarrow> int \<Rightarrow> bool \<times> rate_limiter" where
  "allow rl0 client_key now =
     (let rl = maybe_cleanup rl0 now;
          cfg = rl_config rl;
          bucket = (case map_of (buckets rl) client_key of
                      None \<Rightarrow> fresh_bucket cfg now
                    | Some b \<Rightarrow> refill cfg b now);
          bucket = bucket\<lparr>last_access := now\<rparr>
      in if 1 \<le> tokens bucket
         then (True, rl\<lparr>buckets := AList.update client_key
                          (bucket\<lparr>tokens := fl (tokens bucket - 1)\<rparr>) (buckets rl)\<rparr>)
         else (False, rl\<lparr>buckets := AList.update client_key bucket (buckets rl)\<rparr>))"

definition remaining :: "rate_limiter \<Rightarrow> string \<Rightarrow> int \<Rightarrow> nat" where
  "remaining rl client_key now =
     (case map_of (buckets rl) client_key of
        None \<Rightarrow> max_tokens (rl_config rl)
      | Some b \<Rightarrow> nat (max 0 \<lfloor>tokens (refill (rl_config rl) b now)\<rfloor>))"

text \<open>
  \<open>retry_after\<close> returns a double; \<open>None\<close> is the infinity that the division yields when the
  refill rate is 0.
\<close>

definition retry_after :: "rate_limiter \<Rightarrow> string \<Rightarrow> int \<Rightarrow> rat option" where
  "retry_after rl client_key now =
     (case map_of (buckets rl) client_key of
        None \<Rightarrow> Some 0
      | Some b \<Rightarrow>
          (let copy = refill (rl_config rl) b now
           in if 1 \<le> tokens copy then Some 0
              else let deficit = fl (1 - tokens copy)
                   in if refill_rate (rl_config rl) = 0 then None
                      else Some (of_int \<lceil>fl (deficit / refill_rate (rl_config rl))\<rceil>)))"

definition client_count :: "rate_limiter \<Rightarrow> nat" where
  "client_count rl = length (buckets rl)"

text \<open>A run: the calls in the order in which they hold the mutex, each with its time.\<close>

fun run_allow :: "rate_limiter \<Rightarrow> (string \<times> int) list \<Rightarrow> bool list \<times> rate_limiter" where
  "run_allow rl [] = ([], rl)"
| "run_allow rl ((k, t) # calls) =
     (let (ok, rl') = allow rl k t; (oks, rl'') = run_allow rl' calls in (ok # oks, rl''))"

text \<open>How many of the calls with key \<open>k\<close> return true.\<close>

fun admitted :: "rate_limiter \<Rightarrow> string \<Rightarrow> (string \<times> int) list \<Rightarrow> nat" where
  "admitted rl k [] = 0"
| "admitted rl k ((k', t) # calls) =
     (let (ok, rl') = allow rl k' t
      in (if ok \<and> k' = k then 1 else 0) + admitted rl' k calls)"

section \<open>Lemmas on single operations\<close>

definition config_ok :: "rate_limit_config \<Rightarrow> bool" where
  "config_ok cfg \<longleftrightarrow> max_tokens cfg \<le> 2 ^ 53 \<and> 0 \<le> refill_rate cfg \<and> 0 \<le> entry_ttl cfg"

lemma capacity_eq: "config_ok cfg \<Longrightarrow> capacity cfg = of_nat (max_tokens cfg)"
  using fl.rnd_int [of "int (max_tokens cfg)"] by (simp add: config_ok_def capacity_def)

lemma capacity_nonneg: "0 \<le> capacity cfg"
  unfolding capacity_def by (intro fl.rnd_nonneg) simp

lemma fl_capacity: "fl (capacity cfg) = capacity cfg"
  by (simp add: capacity_def fl.rnd_rnd)

lemma duration_secs_nonneg: "0 \<le> d \<Longrightarrow> 0 \<le> duration_secs d"
  unfolding duration_secs_def by (intro fl.rnd_nonneg divide_nonneg_pos) simp_all

lemma duration_secs_nonpos: "d \<le> 0 \<Longrightarrow> duration_secs d \<le> 0"
  using fl.rnd_mono [of "fl (of_int d) / 10 ^ 9" 0] fl.rnd_mono [of "of_int d" 0]
  by (simp add: duration_secs_def divide_nonpos_pos)

lemma duration_secs_ge:
  assumes "0 \<le> s" "s \<le> 2 ^ 20" "seconds_ns s \<le> d"
  shows "of_int s \<le> duration_secs d"
proof -
  have "of_int (seconds_ns s) \<le> fl (of_int d)"
    using assms by (intro fl.rnd_ge_int) (auto simp: seconds_ns_def)
  then have "of_int s \<le> fl (of_int d) / 10 ^ 9"
    by (simp add: seconds_ns_def field_simps)
  then show ?thesis
    unfolding duration_secs_def using assms by (intro fl.rnd_ge_int) auto
qed

text \<open>A bucket that the limiter can hold: its token count is a double between 0 and the capacity.\<close>

definition bucket_ok :: "rate_limit_config \<Rightarrow> token_bucket \<Rightarrow> bool" where
  "bucket_ok cfg b \<longleftrightarrow> 0 \<le> tokens b \<and> tokens b \<le> capacity cfg \<and> fl (tokens b) = tokens b
     \<and> last_refill b \<le> last_access b"

lemma refill_tokens_ok:
  assumes "config_ok cfg" "bucket_ok cfg b"
  shows "tokens b \<le> tokens (refill cfg b now)" "tokens (refill cfg b now) \<le> capacity cfg"
    "fl (tokens (refill cfg b now)) = tokens (refill cfg b now)"
proof -
  let ?e = "duration_secs (now - last_refill b)"
  have "0 < ?e \<Longrightarrow> 0 \<le> fl (?e * refill_rate cfg)"
    using assms(1) by (intro fl.rnd_nonneg mult_nonneg_nonneg) (auto simp: config_ok_def)
  then have "0 < ?e \<Longrightarrow> tokens b \<le> fl (tokens b + fl (?e * refill_rate cfg))"
    using assms(2) by (intro fl.rnd_sum_ge) (auto simp: bucket_ok_def)
  then show "tokens b \<le> tokens (refill cfg b now)"
    using assms(2) by (auto simp: refill_def Let_def bucket_ok_def)
  show "tokens (refill cfg b now) \<le> capacity cfg"
    using assms(2) by (auto simp: refill_def Let_def bucket_ok_def)
  show "fl (tokens (refill cfg b now)) = tokens (refill cfg b now)"
    using assms(2) by (auto simp: refill_def Let_def bucket_ok_def min_def fl_capacity fl.rnd_rnd)
qed

lemma refill_fields [simp]: "last_access (refill cfg b now) = last_access b"
  by (simp add: refill_def Let_def)

lemma refill_ok:
  assumes "config_ok cfg" "bucket_ok cfg b" "last_refill b \<le> now" "last_access b \<le> now"
  shows "bucket_ok cfg ((refill cfg b now)\<lparr>last_access := now\<rparr>)"
  using refill_tokens_ok [OF assms(1,2), of now] assms
  by (auto simp: bucket_ok_def refill_def Let_def)

text \<open>Taking one token is exact and keeps the bucket in range.\<close>

lemma take_token_ok:
  assumes "bucket_ok cfg b" "1 \<le> tokens b"
  shows "bucket_ok cfg (b\<lparr>tokens := fl (tokens b - 1)\<rparr>)"
proof -
  have "0 \<le> fl (tokens b - 1)" using assms(2) by (intro fl.rnd_nonneg) simp
  moreover have "fl (tokens b - 1) \<le> fl (tokens b)" by (intro fl.rnd_mono) simp
  ultimately show ?thesis using assms(1) by (simp add: bucket_ok_def fl.rnd_rnd)
qed

text \<open>A count of whole tokens is counted down exactly.\<close>

lemma take_token_whole: "n < 2 ^ 53 \<Longrightarrow> fl (of_nat (Suc n) - 1) = of_nat n"
  using fl.rnd_int [of "int n"] by simp

text \<open>Below \<open>2^53\<close> a decrement of a double that is at least 1 is not rounded.\<close>

lemma decrement_exact:
  assumes "fl x = x" "1 \<le> x" "x \<le> 2 ^ 53"
  shows "fl (x - 1) = x - 1"
proof -
  obtain m e where m: "\<bar>m\<bar> \<le> 2 ^ 53" and x: "x = of_int m * pow2 e"
    using is_double_fl [of x] assms(1) by (auto simp: is_double_def)
  show ?thesis
  proof (cases "0 \<le> e")
    case True
    then have xi: "x = of_int (m * 2 ^ nat e)" by (simp add: x pow2_of_int)
    have "of_int 1 \<le> x" "x \<le> of_int (2 ^ 53)" using assms(2,3) by simp_all
    then have "1 \<le> m * 2 ^ nat e" "m * 2 ^ nat e \<le> 2 ^ 53"
      unfolding xi by (simp_all only: of_int_le_iff)
    then have "\<bar>m * 2 ^ nat e - 1\<bar> \<le> 2 ^ 53" by simp
    from fl.rnd_int [OF this] show ?thesis by (simp add: xi)
  next
    case False
    then have one: "of_int (2 ^ nat (- e)) * pow2 e = 1" by (simp add: pow2_def)
    then have x1: "x - 1 = of_int (m - 2 ^ nat (- e)) * pow2 e"
      by (simp add: x algebra_simps)
    have "0 \<le> x - 1" using assms(2) by simp
    then have "0 \<le> (of_int (m - 2 ^ nat (- e)) :: rat)"
      unfolding x1 using pow2_pos [of e] by (simp only: zero_le_mult_iff) auto
    then have "0 \<le> m - 2 ^ nat (- e)" by (simp only: of_int_0_le_iff)
    moreover have "m - 2 ^ nat (- e) \<le> m" by simp
    ultimately have "\<bar>m - 2 ^ nat (- e)\<bar> \<le> 2 ^ 53" using m by linarith
    then have "is_double (x - 1)" unfolding is_double_def x1 by blast
    then show ?thesis by (rule fl_exact)
  qed
qed

section \<open>The invariant of the limiter\<close>

definition limiter_ok :: "rate_limiter \<Rightarrow> int \<Rightarrow> bool" where
  "limiter_ok rl now \<longleftrightarrow> distinct (map fst (buckets rl))
     \<and> (\<forall>(k, b) \<in> set (buckets rl). bucket_ok (rl_config rl) b \<and> last_access b \<le> now)"

lemma limiter_ok_mono: "limiter_ok rl t \<Longrightarrow> t \<le> t' \<Longrightarrow> limiter_ok rl t'"
  by (fastforce simp: limiter_ok_def)

lemma limiter_ok_new: "limiter_ok (new_rate_limiter cfg t) t"
  by (simp add: limiter_ok_def new_rate_limiter_def)

lemma limiter_ok_bucket:
  "limiter_ok rl t \<Longrightarrow> map_of (buckets rl) k = Some b \<Longrightarrow>
   bucket_ok (rl_config rl) b \<and> last_access b \<le> t"
  by (auto simp: limiter_ok_def dest: map_of_SomeD)

lemma maybe_cleanup_config [simp]: "rl_config (maybe_cleanup rl now) = rl_config rl"
  by (simp add: maybe_cleanup_def)

lemma maybe_cleanup_subset: "set (buckets (maybe_cleanup rl now)) \<subseteq> set (buckets rl)"
  by (auto simp: maybe_cleanup_def)

lemma maybe_cleanup_ok: "limiter_ok rl t \<Longrightarrow> limiter_ok (maybe_cleanup rl now) t"
  using maybe_cleanup_subset [of rl now]
  by (auto simp: limiter_ok_def maybe_cleanup_def distinct_keys_filter)

text \<open>Cleaning up keeps a bucket or, when it was idle for longer than \<open>entry_ttl\<close>, drops it.\<close>

lemma maybe_cleanup_lookup:
  assumes "distinct (map fst (buckets rl))"
  shows "map_of (buckets (maybe_cleanup rl now)) k = map_of (buckets rl) k
    \<or> (map_of (buckets (maybe_cleanup rl now)) k = None
       \<and> (\<exists>b. map_of (buckets rl) k = Some b
            \<and> seconds_ns (entry_ttl (rl_config rl)) < now - last_access b))"
  using map_of_filter_distinct [OF assms,
      of "\<lambda>b. \<not> seconds_ns (entry_ttl (rl_config rl)) < now - last_access b" k]
  by (auto simp: maybe_cleanup_def split: option.splits)

text \<open>The bucket that a call works on, before the token is taken.\<close>

definition current_bucket :: "rate_limiter \<Rightarrow> string \<Rightarrow> int \<Rightarrow> token_bucket" where
  "current_bucket rl k now =
     (case map_of (buckets (maybe_cleanup rl now)) k of
        None \<Rightarrow> fresh_bucket (rl_config rl) now
      | Some b \<Rightarrow> refill (rl_config rl) b now)\<lparr>last_access := now\<rparr>"

definition spent :: "token_bucket \<Rightarrow> token_bucket" where
  "spent b = (if 1 \<le> tokens b then b\<lparr>tokens := fl (tokens b - 1)\<rparr> else b)"

lemma allow_eq:
  "allow rl k now =
     (1 \<le> tokens (current_bucket rl k now),
      (maybe_cleanup rl now)\<lparr>buckets :=
         AList.update k (spent (current_bucket rl k now)) (buckets (maybe_cleanup rl now))\<rparr>)"
  by (simp add: allow_def current_bucket_def spent_def Let_def cong: option.case_cong)

lemma allow_config [simp]: "rl_config (snd (allow rl k now)) = rl_config rl"
  by (simp add: allow_eq)

lemma current_bucket_ok:
  assumes "config_ok (rl_config rl)" "limiter_ok rl t" "t \<le> now"
  shows "bucket_ok (rl_config rl) (current_bucket rl k now)"
    "last_access (current_bucket rl k now) = now"
proof -
  show "bucket_ok (rl_config rl) (current_bucket rl k now)"
  proof (cases "map_of (buckets (maybe_cleanup rl now)) k")
    case None
    then show ?thesis
      by (simp add: current_bucket_def fresh_bucket_def bucket_ok_def capacity_nonneg fl_capacity)
  next
    case (Some b)
    then have "bucket_ok (rl_config rl) b \<and> last_access b \<le> t"
      using limiter_ok_bucket [OF maybe_cleanup_ok [OF assms(2)]] by fastforce
    then show ?thesis
      using refill_ok [OF assms(1)] assms(3) Some by (simp add: current_bucket_def bucket_ok_def)
  qed
  show "last_access (current_bucket rl k now) = now"
    by (simp add: current_bucket_def)
qed

lemma spent_ok: "bucket_ok cfg b \<Longrightarrow> bucket_ok cfg (spent b)"
  by (simp add: spent_def take_token_ok)

lemma last_access_spent [simp]: "last_access (spent b) = last_access b"
  by (simp add: spent_def)

lemma allow_ok:
  assumes "config_ok (rl_config rl)" "limiter_ok rl t" "t \<le> now"
  shows "limiter_ok (snd (allow rl k now)) now"
proof -
  let ?bs = "buckets (maybe_cleanup rl now)" and ?b = "spent (current_bucket rl k now)"
  have old: "limiter_ok (maybe_cleanup rl now) now"
    using limiter_ok_mono [OF maybe_cleanup_ok [OF assms(2)] assms(3)] .
  have new: "bucket_ok (rl_config rl) ?b" "last_access ?b = now"
    using current_bucket_ok [OF assms] spent_ok by simp_all
  show ?thesis
    using old new set_AList_update [of k ?b ?bs] by (fastforce simp: allow_eq limiter_ok_def distinct_update)
qed

lemma run_allow_until:
  assumes "config_ok (rl_config rl)" "limiter_ok rl s" "sorted (s # map snd calls)" "s \<le> s'"
    "\<forall>c\<in>set calls. snd c \<le> s'"
  shows "limiter_ok (snd (run_allow rl calls)) s' \<and> rl_config (snd (run_allow rl calls)) = rl_config rl"
  using assms
proof (induction calls arbitrary: rl s)
  case Nil
  then show ?case by (auto intro: limiter_ok_mono)
next
  case (Cons c calls)
  obtain k now where c: "c = (k, now)" by (cases c)
  have "limiter_ok (snd (allow rl k now)) now"
    using Cons.prems by (intro allow_ok) (auto simp: c)
  with Cons.IH [of "snd (allow rl k now)" now] Cons.prems show ?case
    by (auto simp: c case_prod_unfold Let_def)
qed

lemma run_allow_ok:
  assumes "config_ok (rl_config rl)" "limiter_ok rl t" "sorted (t # map snd calls)"
  shows "\<exists>t'. limiter_ok (snd (run_allow rl calls)) t' \<and> rl_config (snd (run_allow rl calls)) = rl_config rl"
proof -
  let ?ts = "insert t (snd ` set calls)"
  have "t \<le> Max ?ts" and "\<forall>c\<in>set calls. snd c \<le> Max ?ts"
    by (simp_all only: Max_ge finite_insert finite_imageI finite_set insertI1 insertI2 imageI ball_simps)
       (simp add: Max_ge)
  from run_allow_until [OF assms this] show ?thesis by blast
qed

section \<open>How fast a bucket fills\<close>

text \<open>
  \<open>grow cfg d\<close> bounds the tokens added in \<open>d\<close> nanoseconds: the exact amount, times the
  relative errors of the four roundings on the way. \<open>slack cfg\<close> bounds the absolute error
  of the last addition.
\<close>

definition one_ulp :: rat where
  "one_ulp = 1 + 1 / 2 ^ 53"

definition grow :: "rate_limit_config \<Rightarrow> int \<Rightarrow> rat" where
  "grow cfg d = refill_rate cfg * (of_int d / 10 ^ 9) * one_ulp ^ 4"

definition slack :: "rate_limit_config \<Rightarrow> rat" where
  "slack cfg = capacity cfg / 2 ^ 53"

lemma one_ulp_ge: "1 \<le> one_ulp"
  by (simp add: one_ulp_def)

lemma slack_nonneg: "0 \<le> slack cfg"
  using capacity_nonneg [of cfg] by (simp add: slack_def)

lemma grow_nonneg: "config_ok cfg \<Longrightarrow> 0 \<le> d \<Longrightarrow> 0 \<le> grow cfg d"
  using one_ulp_ge by (auto simp: grow_def config_ok_def intro!: mult_nonneg_nonneg)

lemma grow_add: "grow cfg (c + d) = grow cfg c + grow cfg d"
  by (simp add: grow_def algebra_simps add_divide_distrib)

lemma grow_mono: "config_ok cfg \<Longrightarrow> c \<le> d \<Longrightarrow> grow cfg c \<le> grow cfg d"
  using grow_add [of cfg c "d - c"] grow_nonneg [of cfg "d - c"] by simp

lemma fl_le_ulp: "0 \<le> x \<Longrightarrow> fl x \<le> x * one_ulp"
  unfolding one_ulp_def by (rule fl.rnd_le_scaled)

lemma duration_secs_le:
  assumes "0 \<le> d"
  shows "duration_secs d \<le> of_int d / 10 ^ 9 * one_ulp ^ 2"
proof -
  define x where "x = fl (of_int d) / 10 ^ 9"
  have x: "x \<le> of_int d * one_ulp / 10 ^ 9"
    unfolding x_def using fl_le_ulp [of "of_int d"] assms by (intro divide_right_mono) simp_all
  have x0: "0 \<le> x"
    unfolding x_def using fl.rnd_nonneg [of "of_int d"] assms by simp
  have "duration_secs d = fl x" by (simp add: duration_secs_def x_def)
  also have "\<dots> \<le> x * one_ulp" by (rule fl_le_ulp [OF x0])
  also have "\<dots> \<le> of_int d * one_ulp / 10 ^ 9 * one_ulp"
    using x one_ulp_ge by (intro mult_right_mono) simp_all
  finally show ?thesis by (simp add: power2_eq_square)
qed

lemma refill_last:
  assumes "last_refill b \<le> now"
  shows "last_refill (refill cfg b now) = now"
proof (cases "last_refill b = now")
  case True
  then show ?thesis by (simp add: refill_def Let_def)
next
  case False
  with assms have "0 < duration_secs (now - last_refill b)"
    unfolding duration_secs_def by (intro fl.rnd_pos divide_pos_pos) simp_all
  then show ?thesis by (simp add: refill_def Let_def)
qed

lemma refill_gain:
  assumes "config_ok cfg" "bucket_ok cfg b" "last_refill b \<le> now"
  shows "tokens (refill cfg b now)
    \<le> min (capacity cfg) (tokens b + grow cfg (now - last_refill b)) + slack cfg"
proof -
  let ?d = "now - last_refill b" and ?r = "refill_rate cfg"
  let ?y = "fl (duration_secs ?d * ?r)"
  have d: "0 \<le> ?d" and r: "0 \<le> ?r" and t: "0 \<le> tokens b" "tokens b \<le> capacity cfg"
    using assms by (simp_all add: config_ok_def bucket_ok_def)
  have e: "0 \<le> duration_secs ?d * ?r" using duration_secs_nonneg [OF d] r by simp
  then have y0: "0 \<le> ?y" by (rule fl.rnd_nonneg)
  have "?y \<le> duration_secs ?d * ?r * one_ulp" by (rule fl_le_ulp [OF e])
  also have "\<dots> \<le> of_int ?d / 10 ^ 9 * one_ulp ^ 2 * ?r * one_ulp"
    using duration_secs_le [OF d] r one_ulp_ge by (intro mult_right_mono) auto
  finally have "?y * one_ulp \<le> of_int ?d / 10 ^ 9 * one_ulp ^ 2 * ?r * one_ulp * one_ulp"
    using one_ulp_ge by (intro mult_right_mono) auto
  then have y: "?y * one_ulp \<le> grow cfg ?d"
    by (simp add: grow_def power4_eq_xxxx power2_eq_square mult_ac)
  have "fl (tokens b + ?y) \<le> (tokens b + ?y) * one_ulp"
    using t y0 by (intro fl_le_ulp) simp
  also have "\<dots> = tokens b + tokens b / 2 ^ 53 + ?y * one_ulp"
    by (simp add: one_ulp_def algebra_simps)
  also have "\<dots> \<le> tokens b + slack cfg + grow cfg ?d"
    using y t(2) unfolding slack_def by (intro add_mono divide_right_mono) simp_all
  finally have up: "fl (tokens b + ?y) \<le> tokens b + grow cfg ?d + slack cfg" by simp
  show ?thesis
    using up t slack_nonneg [of cfg] grow_nonneg [OF assms(1) d]
    by (auto simp: refill_def Let_def min_def)
qed

text \<open>What a client can spend at time \<open>t\<close>, given its bucket (\<open>None\<close> when it has none yet).\<close>

definition potential :: "rate_limit_config \<Rightarrow> token_bucket option \<Rightarrow> int \<Rightarrow> rat" where
  "potential cfg bo t = (case bo of None \<Rightarrow> capacity cfg
     | Some b \<Rightarrow> min (capacity cfg) (tokens b + grow cfg (t - last_refill b)))"

lemma potential_le_capacity: "potential cfg bo t \<le> capacity cfg"
  by (auto simp: potential_def split: option.splits)

lemma potential_later:
  assumes "config_ok cfg" "t \<le> t'"
  shows "potential cfg bo t' \<le> potential cfg bo t + grow cfg (t' - t)"
proof -
  have g: "0 \<le> grow cfg (t' - t)" using assms by (simp add: grow_nonneg)
  show ?thesis
  proof (cases bo)
    case None
    with g show ?thesis by (simp add: potential_def)
  next
    case (Some b)
    have "grow cfg (t' - last_refill b) = grow cfg (t - last_refill b) + grow cfg (t' - t)"
      using grow_add [of cfg "t - last_refill b" "t' - t"] by simp
    with g Some show ?thesis by (simp add: potential_def min_def)
  qed
qed

text \<open>
  The configured eviction age is long enough for an empty bucket to fill completely, so that
  dropping the bucket gives a client nothing it would not have by waiting.
\<close>

definition eviction_safe :: "rate_limit_config \<Rightarrow> bool" where
  "eviction_safe cfg \<longleftrightarrow> of_nat (max_tokens cfg) \<le> refill_rate cfg * of_int (entry_ttl cfg)"

lemma grow_evicted:
  assumes "config_ok cfg" "eviction_safe cfg" "seconds_ns (entry_ttl cfg) < d"
  shows "capacity cfg \<le> grow cfg d"
proof -
  have "capacity cfg \<le> refill_rate cfg * (of_int (seconds_ns (entry_ttl cfg)) / 10 ^ 9)"
    using assms(2) by (simp add: capacity_eq [OF assms(1)] eviction_safe_def seconds_ns_def)
  also have "\<dots> \<le> grow cfg (seconds_ns (entry_ttl cfg))"
  proof -
    have "0 \<le> refill_rate cfg * (of_int (seconds_ns (entry_ttl cfg)) / 10 ^ 9)"
      using assms(1) by (simp add: config_ok_def seconds_ns_def)
    moreover have "1 \<le> one_ulp ^ 4" using one_ulp_ge by simp
    ultimately show ?thesis
      unfolding grow_def using mult_left_mono [of 1 "one_ulp ^ 4"] by (metis mult.right_neutral)
  qed
  also have "\<dots> \<le> grow cfg d" using assms by (intro grow_mono) simp_all
  finally show ?thesis .
qed

lemma potential_cleanup:
  assumes "config_ok (rl_config rl)" "eviction_safe (rl_config rl)" "limiter_ok rl t"
  shows "potential (rl_config rl) (map_of (buckets (maybe_cleanup rl now)) k) now
    = potential (rl_config rl) (map_of (buckets rl) k) now"
proof -
  let ?cfg = "rl_config rl"
  have dist: "distinct (map fst (buckets rl))" using assms(3) by (simp add: limiter_ok_def)
  from maybe_cleanup_lookup [OF dist, of now k] show ?thesis
  proof
    assume "map_of (buckets (maybe_cleanup rl now)) k = None \<and>
      (\<exists>b. map_of (buckets rl) k = Some b \<and> seconds_ns (entry_ttl ?cfg) < now - last_access b)"
    then obtain b where none: "map_of (buckets (maybe_cleanup rl now)) k = None"
      and b: "map_of (buckets rl) k = Some b" "seconds_ns (entry_ttl ?cfg) < now - last_access b"
      by blast
    have ok: "bucket_ok ?cfg b" using limiter_ok_bucket [OF assms(3) b(1)] by simp
    then have "seconds_ns (entry_ttl ?cfg) < now - last_refill b"
      using b(2) by (simp add: bucket_ok_def)
    from grow_evicted [OF assms(1,2) this] ok none b(1) show ?thesis
      by (simp add: potential_def bucket_ok_def)
  qed simp
qed

lemma current_bucket_tokens:
  assumes "config_ok (rl_config rl)" "eviction_safe (rl_config rl)" "limiter_ok rl t" "t \<le> now"
  shows "tokens (current_bucket rl k now)
    \<le> potential (rl_config rl) (map_of (buckets rl) k) now + slack (rl_config rl)"
    and "last_refill (current_bucket rl k now) = now"
proof -
  let ?cfg = "rl_config rl" and ?bo = "map_of (buckets (maybe_cleanup rl now)) k"
  have "tokens (current_bucket rl k now) \<le> potential ?cfg ?bo now + slack ?cfg
    \<and> last_refill (current_bucket rl k now) = now"
  proof (cases ?bo)
    case None
    then show ?thesis
      using slack_nonneg [of ?cfg] by (simp add: current_bucket_def fresh_bucket_def potential_def)
  next
    case (Some b)
    then have ok: "bucket_ok ?cfg b \<and> last_access b \<le> t"
      using limiter_ok_bucket [OF maybe_cleanup_ok [OF assms(3)]] by fastforce
    then have "last_refill b \<le> now" using assms(4) by (simp add: bucket_ok_def)
    with ok Some show ?thesis
      using refill_gain [OF assms(1), of b now] refill_last [of b now]
      by (simp add: current_bucket_def potential_def)
  qed
  then show "tokens (current_bucket rl k now)
      \<le> potential ?cfg (map_of (buckets rl) k) now + slack ?cfg"
    and "last_refill (current_bucket rl k now) = now"
    by (simp_all add: potential_cleanup [OF assms(1,2,3)])
qed

lemma spent_tokens:
  assumes "config_ok cfg" "bucket_ok cfg b"
  shows "tokens (spent b) = (if 1 \<le> tokens b then tokens b - 1 else tokens b)"
proof -
  have "(of_nat (max_tokens cfg) :: rat) \<le> of_nat (2 ^ 53)"
    using assms(1) unfolding config_ok_def by (simp only: of_nat_le_iff)
  then have "tokens b \<le> 2 ^ 53"
    using assms by (simp add: bucket_ok_def capacity_eq)
  then show ?thesis
    using assms(2) decrement_exact [of "tokens b"] by (simp add: spent_def bucket_ok_def)
qed

text \<open>The effect of one call on what client \<open>k\<close> can spend.\<close>

lemma allow_potential:
  assumes "config_ok (rl_config rl)" "eviction_safe (rl_config rl)" "limiter_ok rl t" "t \<le> now"
  shows "(if fst (allow rl k' now) \<and> k' = k then 1 else 0)
      + potential (rl_config rl) (map_of (buckets (snd (allow rl k' now))) k) now
    \<le> potential (rl_config rl) (map_of (buckets rl) k) t + grow (rl_config rl) (now - t)
      + slack (rl_config rl)"
proof -
  let ?cfg = "rl_config rl"
  have later: "potential ?cfg (map_of (buckets rl) k) now
      \<le> potential ?cfg (map_of (buckets rl) k) t + grow ?cfg (now - t)"
    by (rule potential_later [OF assms(1,4)])
  show ?thesis
  proof (cases "k' = k")
    case True
    let ?b = "current_bucket rl k now"
    have "potential ?cfg (Some (spent ?b)) now \<le> tokens (spent ?b)"
      using current_bucket_tokens(2) [OF assms, of k]
      by (simp add: potential_def spent_def grow_def)
    moreover have "tokens (spent ?b) = (if 1 \<le> tokens ?b then tokens ?b - 1 else tokens ?b)"
      by (rule spent_tokens [OF assms(1) current_bucket_ok(1) [OF assms(1,3,4)]])
    ultimately show ?thesis
      using True later current_bucket_tokens(1) [OF assms, of k]
      by (simp add: allow_eq split: if_splits)
  next
    case False
    then show ?thesis
      using later slack_nonneg [of ?cfg] potential_cleanup [OF assms(1,2,3), of now k]
      by (simp add: allow_eq)
  qed
qed

lemma admitted_potential:
  assumes "config_ok (rl_config rl)" "eviction_safe (rl_config rl)" "limiter_ok rl t"
    and "sorted (t # map snd calls)" "\<forall>c\<in>set calls. snd c \<le> T" "t \<le> T"
  shows "of_nat (admitted rl k calls)
    \<le> potential (rl_config rl) (map_of (buckets rl) k) t + grow (rl_config rl) (T - t)
      + of_nat (length calls) * slack (rl_config rl)"
  using assms
proof (induction calls arbitrary: rl t)
  case Nil
  have "0 \<le> potential (rl_config rl) (map_of (buckets rl) k) t"
    using Nil.prems capacity_nonneg [of "rl_config rl"] limiter_ok_bucket [OF Nil.prems(3), of k]
    by (auto simp: potential_def bucket_ok_def intro!: add_nonneg_nonneg grow_nonneg
        split: option.splits)
  then show ?case using grow_nonneg [of "rl_config rl" "T - t"] Nil.prems by simp
next
  case (Cons c calls)
  obtain k' now where c: "c = (k', now)" by (cases c)
  obtain ok rl' where al: "allow rl k' now = (ok, rl')" by (cases "allow rl k' now")
  let ?cfg = "rl_config rl"
  have cfg: "rl_config rl' = ?cfg" using allow_config [of rl k' now] al by simp
  have le: "t \<le> now" "now \<le> T" using Cons.prems c by auto
  have ok': "limiter_ok rl' now" using allow_ok [OF Cons.prems(1,3) le(1), of k'] al by simp
  have IH: "of_nat (admitted rl' k calls)
      \<le> potential ?cfg (map_of (buckets rl') k) now + grow ?cfg (T - now)
        + of_nat (length calls) * slack ?cfg"
    using Cons.IH [of rl' now] Cons.prems ok' cfg c le by auto
  have step: "(if ok \<and> k' = k then 1 else 0) + potential ?cfg (map_of (buckets rl') k) now
      \<le> potential ?cfg (map_of (buckets rl) k) t + grow ?cfg (now - t) + slack ?cfg"
    using allow_potential [OF Cons.prems(1,2,3) le(1), of k' k] al by simp
  have "grow ?cfg (T - t) = grow ?cfg (T - now) + grow ?cfg (now - t)"
    using grow_add [of ?cfg "T - now" "now - t"] by simp
  moreover have "(of_nat (admitted rl k (c # calls)) :: rat)
      = (if ok \<and> k' = k then 1 else 0) + of_nat (admitted rl' k calls)"
    by (simp add: c al)
  moreover have "of_nat (length (c # calls)) * slack ?cfg
      = of_nat (length calls) * slack ?cfg + slack ?cfg"
    by (simp add: algebra_simps)
  ultimately show ?case using IH step by linarith
qed

section \<open>When a call is admitted\<close>

text \<open>
  With at least one token per second, room for one token and an eviction age of at least one
  second, as in the default configuration, whether a call is admitted depends on the
  bucket alone: cleaning up never changes an answer.
\<close>

definition serving_config :: "rate_limit_config \<Rightarrow> bool" where
  "serving_config cfg \<longleftrightarrow> config_ok cfg \<and> 1 \<le> refill_rate cfg \<and> 1 \<le> max_tokens cfg
     \<and> 1 \<le> entry_ttl cfg"

lemma default_serving: "serving_config default_rate_limit_config"
  by (simp add: serving_config_def config_ok_def default_rate_limit_config_def)

lemma capacity_ge_1: "serving_config cfg \<Longrightarrow> 1 \<le> capacity cfg"
  by (simp add: serving_config_def capacity_eq)

lemma duration_secs_mono: "c \<le> d \<Longrightarrow> duration_secs c \<le> duration_secs d"
  unfolding duration_secs_def by (intro fl.rnd_mono divide_right_mono) simp_all

lemma refill_after_second:
  assumes "serving_config cfg" "bucket_ok cfg b" "seconds_ns 1 \<le> now - last_refill b"
  shows "1 \<le> tokens (refill cfg b now)"
proof -
  have e: "1 \<le> duration_secs (now - last_refill b)"
    using duration_secs_ge [of 1] assms(3) by simp
  have "1 * 1 \<le> duration_secs (now - last_refill b) * refill_rate cfg"
    using e assms(1) by (intro mult_mono) (auto simp: serving_config_def)
  then have "1 \<le> fl (duration_secs (now - last_refill b) * refill_rate cfg)"
    by (intro fl.rnd_ge_1) simp
  then have "1 \<le> fl (tokens b + fl (duration_secs (now - last_refill b) * refill_rate cfg))"
    using assms(2) by (intro fl.rnd_ge_1) (simp add: bucket_ok_def)
  then show ?thesis
    using e capacity_ge_1 [OF assms(1)] by (simp add: refill_def Let_def)
qed

lemma refill_later:
  assumes "config_ok cfg" "bucket_ok cfg b" "now \<le> now'"
  shows "tokens (refill cfg b now) \<le> tokens (refill cfg b now')"
proof (cases "duration_secs (now - last_refill b) \<le> 0")
  case True
  then show ?thesis
    using refill_tokens_ok(1) [OF assms(1,2), of now'] by (simp add: refill_def [of _ _ now])
next
  case False
  have d: "duration_secs (now - last_refill b) \<le> duration_secs (now' - last_refill b)"
    using assms(3) by (intro duration_secs_mono) simp
  have "fl (tokens b + fl (duration_secs (now - last_refill b) * refill_rate cfg))
    \<le> fl (tokens b + fl (duration_secs (now' - last_refill b) * refill_rate cfg))"
    using d assms(1) by (intro fl.rnd_mono add_left_mono mult_right_mono) (auto simp: config_ok_def)
  then show ?thesis
    using False d by (auto simp: refill_def Let_def)
qed

lemma allow_iff:
  assumes "serving_config (rl_config rl)" "limiter_ok rl t" "t \<le> now"
  shows "fst (allow rl k now) \<longleftrightarrow>
    (case map_of (buckets rl) k of None \<Rightarrow> True | Some b \<Rightarrow> 1 \<le> tokens (refill (rl_config rl) b now))"
proof -
  let ?cfg = "rl_config rl"
  have dist: "distinct (map fst (buckets rl))" using assms(2) by (simp add: limiter_ok_def)
  from maybe_cleanup_lookup [OF dist, of now k] show ?thesis
  proof
    assume "map_of (buckets (maybe_cleanup rl now)) k = map_of (buckets rl) k"
    then show ?thesis
      using capacity_ge_1 [OF assms(1)]
      by (auto simp: allow_eq current_bucket_def fresh_bucket_def split: option.splits)
  next
    assume "map_of (buckets (maybe_cleanup rl now)) k = None \<and>
      (\<exists>b. map_of (buckets rl) k = Some b \<and> seconds_ns (entry_ttl ?cfg) < now - last_access b)"
    then obtain b where none: "map_of (buckets (maybe_cleanup rl now)) k = None"
      and b: "map_of (buckets rl) k = Some b" "seconds_ns (entry_ttl ?cfg) < now - last_access b"
      by blast
    have ok: "bucket_ok ?cfg b" using limiter_ok_bucket [OF assms(2) b(1)] by simp
    have "seconds_ns 1 \<le> seconds_ns (entry_ttl ?cfg)"
      using assms(1) by (simp add: serving_config_def seconds_ns_def)
    then have "1 \<le> tokens (refill ?cfg b now)"
      using b(2) ok by (intro refill_after_second [OF assms(1)]) (auto simp: bucket_ok_def)
    with none b(1) capacity_ge_1 [OF assms(1)] show ?thesis
      by (simp add: allow_eq current_bucket_def fresh_bucket_def)
  qed
qed

lemma same_instant:
  assumes "config_ok (rl_config rl)" "limiter_ok rl t" "map_of (buckets rl) k = Some b"
    "last_refill b = t" "last_access b = t" "tokens b = of_nat j" "j \<le> 2 ^ 53"
  shows "fst (run_allow rl (replicate n (k, t))) = replicate (min n j) True @ replicate (n - j) False"
  using assms
proof (induction n arbitrary: rl b j)
  case (Suc n)
  let ?cfg = "rl_config rl"
  have dist: "distinct (map fst (buckets rl))" using Suc.prems by (simp add: limiter_ok_def)
  have keep: "map_of (buckets (maybe_cleanup rl t)) k = Some b"
    using maybe_cleanup_lookup [OF dist, of t k] Suc.prems
    by (auto simp: seconds_ns_def config_ok_def)
  have cur: "current_bucket rl k t = b"
    using keep Suc.prems by (simp add: current_bucket_def refill_def duration_secs_def)
  let ?rl = "snd (allow rl k t)"
  have next_ok: "config_ok (rl_config ?rl)" "limiter_ok ?rl t"
    using Suc.prems allow_ok [OF Suc.prems(1,2), of t k] by simp_all
  have look: "map_of (buckets ?rl) k = Some (spent b)"
    by (simp add: allow_eq cur)
  show ?case
  proof (cases j)
    case 0
    then have sp: "spent b = b" "fst (allow rl k t) = False"
      using Suc.prems by (simp_all add: spent_def allow_eq cur)
    from Suc.IH [OF next_ok look [unfolded sp(1)]] Suc.prems 0 sp show ?thesis
      by (simp add: case_prod_unfold)
  next
    case (Suc i)
    have "(1 :: rat) \<le> of_nat (Suc i)" by simp
    then have sp: "spent b = b\<lparr>tokens := of_nat i\<rparr>" "fst (allow rl k t) = True"
      using Suc.prems Suc take_token_whole [of i]
      by (simp_all add: spent_def allow_eq cur del: of_nat_Suc)
    from Suc.IH [OF next_ok look, of i] Suc.prems Suc sp show ?thesis
      by (simp add: case_prod_unfold)
  qed
qed simp

lemma admitted_bound:
  assumes "config_ok cfg" "of_nat (max_tokens cfg) \<le> refill_rate cfg * of_int (entry_ttl cfg)"
    and "sorted (t0 # map snd before @ t # map snd calls)"
    and "\<forall>c\<in>set calls. snd c \<le> T" "t \<le> T"
  shows "of_nat (admitted (snd (run_allow (new_rate_limiter cfg t0) before)) k calls)
    \<le> of_nat (max_tokens cfg)
      + refill_rate cfg * (of_int (T - t) / 10 ^ 9) * (1 + 1 / 2 ^ 53) ^ 4
      + of_nat (length calls) * of_nat (max_tokens cfg) / 2 ^ 53"
proof -
  let ?start = "new_rate_limiter cfg t0" and ?rl = "snd (run_allow (new_rate_limiter cfg t0) before)"
  have cfg0: "rl_config ?start = cfg" by (simp add: new_rate_limiter_def)
  have "limiter_ok ?rl t \<and> rl_config ?rl = rl_config ?start"
    by (rule run_allow_until [of _ t0]) (use assms(1,3) cfg0 limiter_ok_new in \<open>auto simp: sorted_append\<close>)
  then have ok: "limiter_ok ?rl t" "rl_config ?rl = cfg"
    by (rule conjunct1, rule trans [OF conjunct2 cfg0])
  have "of_nat (admitted ?rl k calls)
      \<le> potential cfg (map_of (buckets ?rl) k) t + grow cfg (T - t) + of_nat (length calls) * slack cfg"
    using admitted_potential [of ?rl t calls T k] assms ok
    by (simp add: eviction_safe_def sorted_append)
  with potential_le_capacity [of cfg "map_of (buckets ?rl) k" t] show ?thesis
    by (simp add: capacity_eq [OF assms(1)] grow_def slack_def one_ulp_def)
qed

text \<open>With a rate of at least one token a second, what is missing to one token is there after one second.\<close>

lemma wait_is_one_second:
  assumes "1 \<le> rate" "0 \<le> x" "x < 1"
  shows "\<lceil>fl (fl (1 - x) / rate)\<rceil> = 1"
proof (rule antisym)
  have "fl (1 - x) \<le> fl 1" using assms(2) by (intro fl.rnd_mono) simp
  then have "fl (1 - x) \<le> 1" using fl.rnd_int [of 1] by simp
  then have "fl (1 - x) / rate \<le> 1" using assms(1) by (simp add: divide_le_eq)
  then have "fl (fl (1 - x) / rate) \<le> fl 1" by (rule fl.rnd_mono)
  then show "\<lceil>fl (fl (1 - x) / rate)\<rceil> \<le> 1" using fl.rnd_int [of 1] by (simp add: ceiling_le_iff)
  have "0 < fl (fl (1 - x) / rate)" using assms by (intro fl.rnd_pos divide_pos_pos) auto
  then show "1 \<le> \<lceil>fl (fl (1 - x) / rate)\<rceil>" by (simp add: less_ceiling_iff int_one_le_iff_zero_less)
qed

lemma retry_after_result:
  assumes "serving_config (rl_config rl)" "limiter_ok rl t" "t \<le> now"
  shows "\<exists>n. retry_after rl k now = Some (of_int n) \<and> 0 \<le> n \<and> n \<le> 1
    \<and> (n = 0 \<longleftrightarrow> fst (allow rl k now))
    \<and> (\<forall>later. now + n * 10 ^ 9 \<le> later \<longrightarrow> fst (allow rl k later))"
proof (cases "map_of (buckets rl) k")
  case None
  have adm: "fst (allow rl k s)" if "t \<le> s" for s
    using allow_iff [OF assms(1,2) that, of k] None by simp
  show ?thesis
    using adm assms(3) None by (intro exI [of _ 0]) (auto simp: retry_after_def)
next
  case (Some b)
  let ?cfg = "rl_config rl"
  have cfg: "config_ok ?cfg" "1 \<le> refill_rate ?cfg" using assms(1) by (auto simp: serving_config_def)
  have ok: "bucket_ok ?cfg b" "last_refill b \<le> now"
    using limiter_ok_bucket [OF assms(2) Some] assms(3) by (auto simp: bucket_ok_def)
  have adm: "fst (allow rl k s) \<longleftrightarrow> 1 \<le> tokens (refill ?cfg b s)" if "now \<le> s" for s
    using allow_iff [OF assms(1,2), of s k] that assms(3) Some by simp
  show ?thesis
  proof (cases "1 \<le> tokens (refill ?cfg b now)")
    case True
    then have "fst (allow rl k later)" if "now \<le> later" for later
      using adm [OF that] refill_later [OF cfg(1) ok(1) that] by linarith
    with True adm Some show ?thesis
      by (intro exI [of _ 0]) (auto simp: retry_after_def Let_def)
  next
    case False
    have t0: "0 \<le> tokens (refill ?cfg b now)"
      using refill_tokens_ok(1) [OF cfg(1) ok(1), of now] ok(1) by (simp add: bucket_ok_def)
    have "retry_after rl k now = Some (of_int 1)"
      using False Some cfg(2) wait_is_one_second [OF cfg(2) t0] by (auto simp: retry_after_def Let_def)
    moreover have "fst (allow rl k later)" if "now + 10 ^ 9 \<le> later" for later
      using that adm [of later] refill_after_second [OF assms(1) ok(1), of later] ok(2) by (simp add: seconds_ns_def)
    ultimately show ?thesis using False adm [of now] by (intro exI [of _ 1]) auto
  qed
qed

section \<open>Properties\<close>

text \<open>
  Token range: whatever calls are made on a new limiter, in any order of keys and at any
  non-decreasing times, no client has two buckets and every bucket holds a representable
  token count between 0 and \<open>max_tokens\<close>.
\<close>

theorem limiter_tokens_in_range:
  assumes "config_ok cfg" "sorted (t0 # map snd calls)"
  shows "let rl = snd (run_allow (new_rate_limiter cfg t0) calls)
    in distinct (map fst (buckets rl)) \<and> rl_config rl = cfg
       \<and> (\<forall>(k, b) \<in> set (buckets rl). 0 \<le> tokens b \<and> tokens b \<le> of_nat (max_tokens cfg)
            \<and> fl (tokens b) = tokens b)"
proof -
  have cfg: "rl_config (new_rate_limiter cfg t0) = cfg" by (simp add: new_rate_limiter_def)
  obtain t' where "limiter_ok (snd (run_allow (new_rate_limiter cfg t0) calls)) t'"
    "rl_config (snd (run_allow (new_rate_limiter cfg t0) calls)) = cfg"
    using run_allow_ok [of "new_rate_limiter cfg t0" t0 calls] assms limiter_ok_new cfg by auto
  then show ?thesis
    using capacity_eq [OF assms(1)] by (fastforce simp: limiter_ok_def bucket_ok_def Let_def)
qed

theorem limiter_tokens_in_range_witness:
  "let rl = snd (run_allow (new_rate_limiter default_rate_limit_config 0)
                   [(''10.0.0.1'', 5), (''10.0.0.2'', 7), (''10.0.0.1'', 2000000000)])
    in distinct (map fst (buckets rl)) \<and> rl_config rl = default_rate_limit_config
       \<and> (\<forall>(k, b) \<in> set (buckets rl). 0 \<le> tokens b
            \<and> tokens b \<le> of_nat (max_tokens default_rate_limit_config) \<and> fl (tokens b) = tokens b)"
  by (rule limiter_tokens_in_range)
     (simp_all add: config_ok_def default_rate_limit_config_def)

text \<open>
  C9. The rate limit: after any history of calls, the number of requests of one client that
  are admitted from time \<open>t\<close> to time \<open>T\<close> is at most \<open>max_tokens\<close> plus \<open>refill_rate\<close> times the
  seconds that pass, up to the error of double arithmetic (four roundings of the amount
  refilled, one for each call). Requests of other clients and evictions do not raise it.
\<close>

theorem rate_limit_bound:
  assumes "config_ok cfg" "of_nat (max_tokens cfg) \<le> refill_rate cfg * of_int (entry_ttl cfg)"
    and "sorted (t0 # map snd before @ t # map snd calls)"
    and "\<forall>c\<in>set calls. snd c \<le> T" "t \<le> T"
  shows "of_nat (admitted (snd (run_allow (new_rate_limiter cfg t0) before)) k calls)
    \<le> of_nat (max_tokens cfg)
      + refill_rate cfg * (of_int (T - t) / 10 ^ 9) * (1 + 1 / 2 ^ 53) ^ 4
      + of_nat (length calls) * of_nat (max_tokens cfg) / 2 ^ 53"
  using assms by (rule admitted_bound)

theorem rate_limit_bound_witness:
  "of_nat (admitted (snd (run_allow (new_rate_limiter default_rate_limit_config 0)
       [(''a'', 1)])) ''a'' [(''a'', 3), (''b'', 4), (''a'', 1000000000)])
    \<le> (of_nat (max_tokens default_rate_limit_config) :: rat)
      + refill_rate default_rate_limit_config * (of_int (1000000000 - 2) / 10 ^ 9) * (1 + 1 / 2 ^ 53) ^ 4
      + of_nat (length [(''a'', 3::int), (''b'', 4), (''a'', 1000000000)])
        * of_nat (max_tokens default_rate_limit_config) / 2 ^ 53"
  by (rule rate_limit_bound) (simp_all add: config_ok_def default_rate_limit_config_def)

text \<open>
  The burst is exact: of \<open>n\<close> requests that a client unknown to the limiter sends at one
  instant, the first \<open>max_tokens\<close> are admitted and all others are refused.
\<close>

theorem burst_exact:
  assumes "config_ok cfg" "t0 \<le> t"
  shows "fst (run_allow (new_rate_limiter cfg t0) (replicate n (k, t)))
    = replicate (min n (max_tokens cfg)) True @ replicate (n - max_tokens cfg) False"
proof (cases n)
  case (Suc n')
  let ?rl = "new_rate_limiter cfg t0" and ?m = "max_tokens cfg"
  let ?after = "snd (allow ?rl k t)"
  have cfg: "rl_config ?rl = cfg" by (simp add: new_rate_limiter_def)
  have cap: "capacity cfg = of_nat ?m" by (rule capacity_eq [OF assms(1)])
  have m: "?m \<le> 2 ^ 53" using assms(1) by (simp add: config_ok_def)
  have cur: "current_bucket ?rl k t = fresh_bucket cfg t"
    by (simp add: current_bucket_def maybe_cleanup_def fresh_bucket_def new_rate_limiter_def)
  have ok: "config_ok (rl_config ?after)" "limiter_ok ?after t"
    using assms allow_ok [of ?rl t0 t k] limiter_ok_new cfg by simp_all
  have look: "map_of (buckets ?after) k = Some (spent (fresh_bucket cfg t))"
    by (simp add: allow_eq cur)
  have fst: "fst (allow ?rl k t) \<longleftrightarrow> 1 \<le> ?m"
    by (simp add: allow_eq cur fresh_bucket_def cap)
  have rest: "fst (run_allow ?after (replicate n' (k, t)))
      = replicate (min n' (?m - 1)) True @ replicate (n' - (?m - 1)) False"
  proof (rule same_instant [OF ok look])
    show "tokens (spent (fresh_bucket cfg t)) = of_nat (?m - 1)"
      using m take_token_whole [of "?m - 1"]
      by (cases ?m) (auto simp: spent_def fresh_bucket_def cap simp del: of_nat_Suc)
  qed (use m in \<open>auto simp: fresh_bucket_def spent_def\<close>)
  show ?thesis
    using fst rest Suc by (cases ?m) (auto simp: case_prod_unfold)
qed simp

theorem burst_exact_witness:
  "fst (run_allow (new_rate_limiter default_rate_limit_config 0) (replicate 150 (''k'', 9)))
    = replicate (min 150 (max_tokens default_rate_limit_config)) True
      @ replicate (150 - max_tokens default_rate_limit_config) False"
  by (rule burst_exact) (simp_all add: config_ok_def default_rate_limit_config_def)

text \<open>
  \<open>retry_after\<close> is honest: it is 0 exactly when a call at the same time would be admitted,
  it is always finite, and a client that waits for as long as it says is admitted.
\<close>

theorem retry_after_honest:
  assumes "serving_config (rl_config rl)" "limiter_ok rl t" "t \<le> now"
  shows "\<exists>r. retry_after rl k now = Some r
    \<and> (r = 0 \<longleftrightarrow> fst (allow rl k now))
    \<and> (\<forall>later. of_int now + r * 10 ^ 9 \<le> (of_int later :: rat) \<longrightarrow> fst (allow rl k later))"
proof -
  obtain n where "retry_after rl k now = Some (of_int n)" "n = 0 \<longleftrightarrow> fst (allow rl k now)"
    and l: "\<forall>later. now + n * 10 ^ 9 \<le> later \<longrightarrow> fst (allow rl k later)"
    using retry_after_result [OF assms] by blast
  moreover have "fst (allow rl k later)" if "of_int now + of_int n * 10 ^ 9 \<le> (of_int later :: rat)" for later
  proof -
    have "(of_int (now + n * 10 ^ 9) :: rat) \<le> of_int later" using that by simp
    then show ?thesis using l by (simp only: of_int_le_iff)
  qed
  ultimately show ?thesis by (intro exI [of _ "of_int n"]) auto
qed

theorem retry_after_honest_witness:
  "let rl = \<lparr>rl_config = default_rate_limit_config,
              buckets = [(''a'', \<lparr>tokens = 0, last_refill = 0, last_access = 0\<rparr>)], last_cleanup = 0\<rparr>
   in \<exists>r. retry_after rl ''a'' 0 = Some r
    \<and> (r = 0 \<longleftrightarrow> fst (allow rl ''a'' 0))
    \<and> (\<forall>later. of_int 0 + r * 10 ^ 9 \<le> (of_int later :: rat) \<longrightarrow> fst (allow rl ''a'' later))"
  unfolding Let_def
  by (rule retry_after_honest [where t = 0])
     (simp_all add: default_serving limiter_ok_def bucket_ok_def capacity_nonneg)

text \<open>
  Clients are independent: a call by another client, at any time before, does not change
  whether a client's call is admitted, not even when the other client's call runs the
  clean-up that evicts this client's bucket.
\<close>

theorem clients_independent:
  assumes "serving_config (rl_config rl)" "limiter_ok rl t" "t \<le> now" "now \<le> now'" "k' \<noteq> k"
  shows "fst (allow (snd (allow rl k' now)) k now') = fst (allow rl k now')"
proof -
  let ?cfg = "rl_config rl" and ?rl = "snd (allow rl k' now)"
  have cfg: "config_ok ?cfg" using assms(1) by (simp add: serving_config_def)
  have ok: "limiter_ok ?rl now" using allow_ok [OF cfg assms(2,3)] .
  have dist: "distinct (map fst (buckets rl))" using assms(2) by (simp add: limiter_ok_def)
  have look: "map_of (buckets ?rl) k = map_of (buckets (maybe_cleanup rl now)) k"
    using assms(5) by (simp add: allow_eq)
  have after: "fst (allow ?rl k now') \<longleftrightarrow> (case map_of (buckets ?rl) k of None \<Rightarrow> True
      | Some b \<Rightarrow> 1 \<le> tokens (refill ?cfg b now'))"
    using allow_iff [OF _ ok assms(4), of k] assms(1) by (simp cong: option.case_cong)
  have before: "fst (allow rl k now') \<longleftrightarrow> (case map_of (buckets rl) k of None \<Rightarrow> True
      | Some b \<Rightarrow> 1 \<le> tokens (refill ?cfg b now'))"
    using allow_iff [OF assms(1,2), of now' k] assms(3,4) by simp
  from maybe_cleanup_lookup [OF dist, of now k] show ?thesis
  proof
    assume "map_of (buckets (maybe_cleanup rl now)) k = map_of (buckets rl) k"
    with after before look show ?thesis by simp
  next
    assume ev: "map_of (buckets (maybe_cleanup rl now)) k = None \<and>
      (\<exists>b. map_of (buckets rl) k = Some b \<and> seconds_ns (entry_ttl ?cfg) < now - last_access b)"
    then obtain b where b: "map_of (buckets rl) k = Some b"
      "seconds_ns (entry_ttl ?cfg) < now - last_access b" by blast
    have "bucket_ok ?cfg b" using limiter_ok_bucket [OF assms(2) b(1)] by simp
    moreover have "seconds_ns 1 \<le> seconds_ns (entry_ttl ?cfg)"
      using assms(1) by (simp add: serving_config_def seconds_ns_def)
    ultimately have "1 \<le> tokens (refill ?cfg b now')"
      using b(2) assms(4) by (intro refill_after_second [OF assms(1)]) (auto simp: bucket_ok_def)
    with ev b after before look show ?thesis by simp
  qed
qed

theorem clients_independent_witness:
  "let rl = new_rate_limiter default_rate_limit_config 0
   in fst (allow (snd (allow rl ''b'' 3)) ''a'' 900000000000) = fst (allow rl ''a'' 900000000000)"
  unfolding Let_def
  by (rule clients_independent [where t = 0])
     (simp_all add: default_serving limiter_ok_new new_rate_limiter_def limiter_ok_def)

end
