(* ===== verification/Gateway.thy ===== *)
theory Gateway
  imports RateLimiter Authenticator
begin

text \<open>
  The middlewares in front of the handlers: request identifiers
  (\<open>src/gateway/request_id_middleware.cpp\<close>), the size limit (\<open>src/gateway/request_size_limit.cpp\<close>), and
  the rate limit with its client keys (the second half of \<open>src/gateway/rate_limiter.cpp\<close>). An advice
  answers a request or lets it go on, as in \<open>Authenticator\<close>; \<open>rnd\<close> are the random draws of a call,
  \<open>now\<close> the time of its response.
\<close>

section \<open>Client keys\<close>

definition blanks :: "char list" where
  "blanks = [CHR '' '', CHR 0x09]"

definition trimmed :: "string \<Rightarrow> string option" where
  "trimmed entry = (case (find_first_not_of blanks entry, find_last_not_of blanks entry) of
      (Some f, Some l) \<Rightarrow> Some (substr entry f (l - f + 1))
    | _ \<Rightarrow> None)"

text \<open>The loop of \<open>trusted_proxies\<close> over the value of the variable, from position \<open>start\<close>.\<close>

function proxy_entries :: "string \<Rightarrow> nat \<Rightarrow> string list" where
  "proxy_entries value start =
     (if start \<le> length value
      then let comma = find_char_from CHR '','' value start;
               stop = (case comma of None \<Rightarrow> length value | Some c \<Rightarrow> c);
               rest = (case comma of None \<Rightarrow> [] | Some c \<Rightarrow> proxy_entries value (c + 1))
           in (case trimmed (substr value start (stop - start)) of Some e \<Rightarrow> e # rest | None \<Rightarrow> rest)
      else [])"
  by pat_completeness auto

termination
proof (relation "measure (\<lambda>(value, start). Suc (length value) - start)")
  fix "value" :: string and start comma stop c
  assume "start \<le> length value" "comma = find_char_from CHR '','' value start" "comma = Some c"
  then have "start \<le> c"
    by (cases "find_char CHR '','' (drop start value)") (simp_all add: find_char_from_def)
  then show "((value, c + 1), value, start) \<in> measure (\<lambda>(value, start). Suc (length value) - start)"
    using \<open>start \<le> length value\<close> by simp
qed simp

declare proxy_entries.simps [simp del]

text \<open>\<open>CORVUS_TRUSTED_PROXIES\<close> is read once.\<close>

definition trusted_proxies :: "string option \<Rightarrow> string list" where
  "trusted_proxies raw = (case raw of
      None \<Rightarrow> []
    | Some value \<Rightarrow> if value = [] then [] else proxy_entries value 0)"

definition client_key_from_request :: "string list \<Rightarrow> http_request \<Rightarrow> string" where
  "client_key_from_request proxies req =
     (let peer = rq_peer req in
      if peer \<notin> set proxies then peer
      else let xff = get_header req ''x-forwarded-for'' in
           if xff = [] then peer
           else let ip = (case find_char CHR '','' xff of Some comma \<Rightarrow> substr xff 0 comma | None \<Rightarrow> xff)
                in case trimmed ip of None \<Rightarrow> peer | Some key \<Rightarrow> key)"

section \<open>The rate limit\<close>

text \<open>
  \<open>static_cast<int>\<close> of a double; out of range the result is what the processor's conversion gives, the standard
  leaves it undefined.
\<close>

definition double_to_int :: "rat option \<Rightarrow> int" where
  "double_to_int x = (case x of
      Some q \<Rightarrow> if - (2 ^ 31) \<le> q \<and> q < 2 ^ 31 then (if 0 \<le> q then \<lfloor>q\<rfloor> else \<lceil>q\<rceil>) else - (2 ^ 31)
    | None \<Rightarrow> - (2 ^ 31))"

text \<open>The two clock readings are those of \<open>allow\<close> and of \<open>retry_after\<close>.\<close>

definition rate_limit_advice ::
  "string list \<Rightarrow> uuid_draws \<Rightarrow> int \<Rightarrow> int \<times> int \<Rightarrow> http_request \<Rightarrow> rate_limiter \<Rightarrow> advice \<times> rate_limiter" where
  "rate_limit_advice proxies rnd now clock req limiter =
     (let path = rq_path req in
      if path = ''/health'' \<or> path = ''/ready'' then (Next req, limiter)
      else
        let key = client_key_from_request proxies req in
        case allow limiter key (fst clock) of
          (True, limiter) \<Rightarrow> (Next req, limiter)
        | (False, limiter) \<Rightarrow>
            (let request_id = get_request_id req rnd;
                 retry_secs = retry_after limiter key (snd clock);
                 resp = respond_error EC_too_many_requests ''Rate limit exceeded. Try again later.'' request_id now;
                 resp = add_header ''x-ratelimit-limit'' (dec_nat (max_tokens (rl_config limiter))) resp;
                 resp = add_header ''x-ratelimit-remaining'' ''0'' resp;
                 resp = add_header ''retry-after''
                          (dec_int (double_to_int (map_option (\<lambda>s. of_int \<lceil>s\<rceil>) retry_secs))) resp
             in (Respond resp, limiter)))"

section \<open>The size limit\<close>

record request_size_limit_config =
  max_body_bytes :: "64 word"

definition default_size_limit :: request_size_limit_config where
  "default_size_limit = \<lparr>max_body_bytes = 1024 * 1024\<rparr>"

definition is_body_method :: "http_method \<Rightarrow> bool" where
  "is_body_method m \<longleftrightarrow> m \<noteq> Get \<and> m \<noteq> Head \<and> m \<noteq> Delete \<and> m \<noteq> Options"

definition make_413 :: "uuid_draws \<Rightarrow> int \<Rightarrow> http_request \<Rightarrow> 64 word \<Rightarrow> http_response" where
  "make_413 rnd now req max_bytes =
     add_header ''x-max-body-size'' (dec_nat (unat max_bytes))
       (respond_error EC_payload_too_large
          (''Request body exceeds the maximum allowed size of '' @ dec_nat (unat max_bytes) @ '' bytes.'')
          (get_request_id req rnd) now)"

definition content_length_advice ::
  "request_size_limit_config \<Rightarrow> uuid_draws \<Rightarrow> int \<Rightarrow> http_request \<Rightarrow> advice" where
  "content_length_advice config rnd now req =
     (if \<not> is_body_method (rq_method req) then Next req
      else let cl_str = get_header req ''content-length'' in
           if cl_str = [] then Next req
           else case stoull cl_str of
             Inl _ \<Rightarrow> Next req
           | Inr (cl, _) \<Rightarrow>
               if max_body_bytes config < cl then Respond (make_413 rnd now req (max_body_bytes config)) else Next req)"

definition body_size_advice ::
  "request_size_limit_config \<Rightarrow> uuid_draws \<Rightarrow> int \<Rightarrow> http_request \<Rightarrow> advice" where
  "body_size_advice config rnd now req =
     (if \<not> is_body_method (rq_method req) then Next req
      else if unat (max_body_bytes config) < length (rq_body req)
      then Respond (make_413 rnd now req (max_body_bytes config)) else Next req)"

section \<open>Request identifiers\<close>

definition request_id_advice :: "uuid_draws \<Rightarrow> http_request \<Rightarrow> advice" where
  "request_id_advice rnd req =
     (let header = get_header req ''x-request-id'';
          request_id = (if header \<noteq> [] then header else generate_uuid rnd)
      in Next (insert_attr kRequestIdKey request_id req))"

definition request_id_post :: "uuid_draws \<Rightarrow> http_request \<Rightarrow> http_response \<Rightarrow> http_response" where
  "request_id_post rnd req resp = add_header ''x-request-id'' (get_request_id req rnd) resp"

section \<open>Lemmas\<close>

subsection \<open>Trimming\<close>

definition blank :: "char \<Rightarrow> bool" where
  "blank c \<longleftrightarrow> c = CHR '' '' \<or> c = CHR 0x09"

definition trims_to :: "string \<Rightarrow> string \<Rightarrow> bool" where
  "trims_to s e \<longleftrightarrow> (\<exists>x y. s = x @ e @ y \<and> (\<forall>c\<in>set (x @ y). blank c)) \<and> e \<noteq> [] \<and> \<not> blank (hd e) \<and> \<not> blank (last e)"

lemma trims_to_parts:
  assumes "\<forall>c\<in>set (x @ y). blank c" "e \<noteq> []" "\<not> blank (hd e)" "\<not> blank (last e)"
  shows "trimmed (x @ e @ y) = Some e"
proof -
  let ?s = "x @ e @ y"
  have b: "c \<in> set blanks \<longleftrightarrow> blank c" for c by (simp add: blanks_def blank_def)
  obtain c e' where c: "e = c # e'" using assms(2) by (cases e) auto
  obtain d e'' where d: "e = e'' @ [d]" using assms(2) by (cases e rule: rev_cases) auto
  have xy: "\<forall>c\<in>set x. blank c" "\<forall>c\<in>set (rev y). blank c" using assms(1) by auto
  have f: "takeWhile (\<lambda>x. x \<in> set blanks) ?s = x"
    using assms(3) xy(1) c by (simp add: b takeWhile_append2)
  have "rev ?s = rev y @ d # rev e'' @ rev x" using d by simp
  then have l: "takeWhile (\<lambda>x. x \<in> set blanks) (rev ?s) = rev y"
    using assms(4) d takeWhile_append2 [of "rev y" blank "d # rev e'' @ rev x"] xy(2) by (simp only: b) simp
  have ex: "\<exists>z\<in>set ?s. z \<notin> set blanks" using assms(3) c by (auto simp: b)
  have "length x + length e + length y - Suc (length y) - length x + 1 = length e"
    using assms(2) by (cases e) simp_all
  then show ?thesis
    using ex f l by (simp add: trimmed_def find_first_not_of_def find_last_not_of_def substr_def)
qed

lemma trims_exist: "(\<exists>c\<in>set s. \<not> blank c) \<Longrightarrow> \<exists>e. trims_to s e"
proof -
  assume "\<exists>c\<in>set s. \<not> blank c"
  then obtain x c r where s: "s = x @ c # r" "\<not> blank c" "\<forall>z\<in>set x. blank z"
    using split_list_first_prop [of s "\<lambda>c. \<not> blank c"] by auto
  obtain e d y where e: "c # r = e @ d # y" "\<not> blank d" "\<forall>z\<in>set y. blank z"
    using split_list_last_prop [of "c # r" "\<lambda>c. \<not> blank c"] s(2) by auto
  have "hd (e @ [d]) = c" using e(1) by (cases e) auto
  moreover have "s = x @ (e @ [d]) @ y" using s(1) e(1) by simp
  ultimately have "trims_to s (e @ [d])" unfolding trims_to_def using s e by fastforce
  then show "\<exists>e. trims_to s e" by blast
qed

lemma trimmed_iff: "trimmed s = Some e \<longleftrightarrow> trims_to s e"
proof
  assume a: "trimmed s = Some e"
  then have "\<exists>c\<in>set s. \<not> blank c"
    by (auto simp: trimmed_def find_first_not_of_def blanks_def blank_def split: if_splits option.splits)
  then obtain e' where "trims_to s e'" using trims_exist by blast
  moreover from this have "trimmed s = Some e'" using trims_to_parts by (auto simp: trims_to_def)
  ultimately show "trims_to s e" using a by simp
next
  assume "trims_to s e"
  then show "trimmed s = Some e" using trims_to_parts by (auto simp: trims_to_def)
qed

lemma trimmed_None: "trimmed s = None \<longleftrightarrow> (\<forall>c\<in>set s. blank c)"
proof -
  have "(\<exists>e. trims_to s e) \<longleftrightarrow> (\<exists>c\<in>set s. \<not> blank c)"
    using trims_exist by (auto simp: trims_to_def) (metis append_self_conv2 in_set_conv_decomp list.set_sel(1))
  then show ?thesis using trimmed_iff by (metis not_None_eq option.distinct(1))
qed

subsection \<open>The entries of the list\<close>

text \<open>The reference: all pieces of a text between its commas.\<close>

fun commas :: "string \<Rightarrow> string list" where
  "commas [] = [[]]"
| "commas (c # s) = (if c = CHR '','' then [] # commas s
     else case commas s of p # ps \<Rightarrow> (c # p) # ps | [] \<Rightarrow> [[c]])"

lemma commas_not_Nil [simp]: "commas s \<noteq> []"
  by (induction s) (auto split: list.split)

lemma commas_alone: "CHR '','' \<notin> set s \<Longrightarrow> commas s = [s]"
  by (induction s) auto

lemma commas_append: "CHR '','' \<notin> set x \<Longrightarrow> commas (x @ CHR '','' # r) = x # commas r"
  by (induction x) auto

lemma proxy_entries_commas:
  "start \<le> length value \<Longrightarrow> proxy_entries value start = List.map_filter trimmed (commas (drop start value))"
proof (induction "value" start rule: proxy_entries.induct)
  case (1 "value" start)
  show ?case
  proof (cases "find_char CHR '','' (drop start value)")
    case None
    then have f: "find_char_from CHR '','' value start = None" by (simp add: find_char_from_def)
    have "commas (drop start value) = [drop start value]"
      using None by (simp add: find_char_None commas_alone)
    moreover have "substr value start (length value - start) = drop start value" by (simp add: substr_def)
    ultimately show ?thesis
      using "1.prems" f
      by (subst proxy_entries.simps) (simp add: List.map_filter_simps Let_def split: option.split)
  next
    case (Some i)
    note sp = find_char_split [OF Some]
    have f: "find_char_from CHR '','' value start = Some (start + i)" using Some by (simp add: find_char_from_def)
    have le: "start + i + 1 \<le> length value" using conjunct2 [OF conjunct2 [OF sp]] by simp
    have "proxy_entries value (start + i + 1) = List.map_filter trimmed (commas (drop (start + i + 1) value))"
      by (rule "1.IH" [OF "1.prems" refl refl f le])
    moreover have "commas (drop start value) = take i (drop start value) # commas (drop (start + i + 1) value)"
      using sp commas_append [of "take i (drop start value)" "drop (Suc i) (drop start value)"]
      by (simp add: ac_simps)
    moreover have "substr value start (start + i - start) = take i (drop start value)" by (simp add: substr_def)
    ultimately show ?thesis
      using "1.prems" f
      by (subst proxy_entries.simps) (simp add: List.map_filter_simps Let_def split: option.split)
  qed
qed

subsection \<open>Limiting a sequence of requests\<close>

lemma exempt_or_limited:
  "rate_limit_advice proxies rnd now clock req limiter =
     (if rq_path req \<in> {''/health'', ''/ready''} then (Next req, limiter)
      else let key = client_key_from_request proxies req; after = snd (allow limiter key (fst clock))
           in (if fst (allow limiter key (fst clock)) then Next req
               else Respond (add_header ''retry-after''
                 (dec_int (double_to_int (map_option (\<lambda>s. of_int \<lceil>s\<rceil>) (retry_after after key (snd clock)))))
                 (add_header ''x-ratelimit-remaining'' ''0''
                 (add_header ''x-ratelimit-limit'' (dec_nat (max_tokens (rl_config limiter)))
                 (respond_error EC_too_many_requests ''Rate limit exceeded. Try again later.'' (get_request_id req rnd) now)))),
               after))"
  using allow_config [of limiter "client_key_from_request proxies req" "fst clock"]
  by (cases "allow limiter (client_key_from_request proxies req) (fst clock)")
     (auto simp: rate_limit_advice_def Let_def split: bool.split)

text \<open>Requests in the order in which they reach the limiter, each with its draws, times and clocks.\<close>

fun run_limit ::
  "string list \<Rightarrow> rate_limiter \<Rightarrow> (uuid_draws \<times> int \<times> (int \<times> int) \<times> http_request) list \<Rightarrow> advice list \<times> rate_limiter" where
  "run_limit proxies rl [] = ([], rl)"
| "run_limit proxies rl ((rnd, now, clock, req) # rest) =
     (let (a, rl') = rate_limit_advice proxies rnd now clock req rl; (as, rl'') = run_limit proxies rl' rest
      in (a # as, rl''))"

fun limited_calls :: "string list \<Rightarrow> (uuid_draws \<times> int \<times> (int \<times> int) \<times> http_request) list \<Rightarrow> (string \<times> int) list" where
  "limited_calls proxies [] = []"
| "limited_calls proxies ((rnd, now, clock, req) # rest) =
     (if rq_path req \<in> {''/health'', ''/ready''} then limited_calls proxies rest
      else (client_key_from_request proxies req, fst clock) # limited_calls proxies rest)"

text \<open>The requests with key \<open>k\<close> that are limited and that pass.\<close>

fun passed :: "string list \<Rightarrow> string \<Rightarrow> rate_limiter \<Rightarrow> (uuid_draws \<times> int \<times> (int \<times> int) \<times> http_request) list \<Rightarrow> nat" where
  "passed proxies k rl [] = 0"
| "passed proxies k rl ((rnd, now, clock, req) # rest) =
     (case rate_limit_advice proxies rnd now clock req rl of
        (Next _, rl') \<Rightarrow> (if rq_path req \<notin> {''/health'', ''/ready''} \<and> client_key_from_request proxies req = k then 1 else 0)
          + passed proxies k rl' rest
      | (Respond _, rl') \<Rightarrow> passed proxies k rl' rest)"

lemma passed_admitted: "passed proxies k rl reqs = admitted rl k (limited_calls proxies reqs)"
  by (induction proxies reqs arbitrary: rl rule: limited_calls.induct)
     (auto simp: exempt_or_limited Let_def split: prod.split)

lemma rate_limit_advice_snd:
  "snd (rate_limit_advice proxies rnd now clock req rl) =
     (if rq_path req \<in> {''/health'', ''/ready''} then rl
      else snd (allow rl (client_key_from_request proxies req) (fst clock)))"
  by (simp add: exempt_or_limited Let_def)

lemma run_limit_snd [simp]:
  "snd (run_limit proxies rl ((rnd, now, clock, req) # rest))
     = snd (run_limit proxies (snd (rate_limit_advice proxies rnd now clock req rl)) rest)"
  by (simp split: prod.split)

lemma run_allow_snd [simp]: "snd (run_allow rl ((k, t) # calls)) = snd (run_allow (snd (allow rl k t)) calls)"
  by (simp split: prod.split)

lemma run_limit_allow: "snd (run_limit proxies rl reqs) = snd (run_allow rl (limited_calls proxies reqs))"
  by (induction proxies reqs arbitrary: rl rule: limited_calls.induct)
     (simp_all add: rate_limit_advice_snd del: run_limit.simps(2) run_allow.simps(2))

lemma limited_calls_times:
  "\<forall>c\<in>set (limited_calls proxies reqs). \<exists>(rnd, now, clock, req)\<in>set reqs. snd c = fst clock"
  by (induction proxies reqs rule: limited_calls.induct) auto

lemma limited_calls_sorted:
  "sorted (map (\<lambda>(rnd, now, clock, req). fst clock) reqs) \<Longrightarrow> sorted (map snd (limited_calls proxies reqs))"
proof (induction proxies reqs rule: limited_calls.induct)
  case (2 proxies rnd now clock req rest)
  have "\<forall>c\<in>set (limited_calls proxies rest). fst clock \<le> snd c"
    using 2(3) limited_calls_times [of proxies rest] by fastforce
  then show ?case using 2 by auto
qed simp

subsection \<open>The first piece\<close>

lemma hd_commas: "hd (commas s) = takeWhile (\<lambda>c. c \<noteq> CHR '','') s"
  by (induction s) (auto split: list.split)

lemma client_key_commas:
  "rq_peer req \<in> set proxies \<Longrightarrow> client_key_from_request proxies req =
     (case trimmed (hd (commas (get_header req ''x-forwarded-for''))) of None \<Rightarrow> rq_peer req | Some k \<Rightarrow> k)"
proof -
  let ?x = "get_header req ''x-forwarded-for''"
  assume t: "rq_peer req \<in> set proxies"
  have e: "trimmed [] = None" by (simp add: trimmed_None)
  show ?thesis
  proof (cases "find_char CHR '','' ?x")
    case None
    then have "hd (commas ?x) = ?x" by (simp add: find_char_None commas_alone)
    then show ?thesis using t None e by (simp add: client_key_from_request_def Let_def)
  next
    case (Some i)
    note sp = find_char_split [OF Some]
    have "commas ?x = take i ?x # commas (drop (Suc i) ?x)"
      using sp commas_append [of "take i ?x" "drop (Suc i) ?x"] by simp
    moreover have "?x \<noteq> []" using sp by auto
    ultimately show ?thesis using t Some by (simp add: client_key_from_request_def substr_def Let_def)
  qed
qed

fun passed_peer :: "string list \<Rightarrow> string \<Rightarrow> rate_limiter \<Rightarrow> (uuid_draws \<times> int \<times> (int \<times> int) \<times> http_request) list \<Rightarrow> nat" where
  "passed_peer proxies p rl [] = 0"
| "passed_peer proxies p rl ((rnd, now, clock, req) # rest) =
     (case rate_limit_advice proxies rnd now clock req rl of
        (Next _, rl') \<Rightarrow> (if rq_path req \<notin> {''/health'', ''/ready''} \<and> rq_peer req = p then 1 else 0)
          + passed_peer proxies p rl' rest
      | (Respond _, rl') \<Rightarrow> passed_peer proxies p rl' rest)"

lemma passed_peer_le: "p \<notin> set proxies \<Longrightarrow> passed_peer proxies p rl reqs \<le> passed proxies p rl reqs"
proof (induction proxies p rl reqs rule: passed_peer.induct)
  case (2 proxies p rl rnd now clock req rest)
  have "rq_peer req = p \<Longrightarrow> client_key_from_request proxies req = p"
    using 2(3) by (simp add: client_key_from_request_def)
  then show ?case using 2 by (auto split: prod.split advice.split)
qed simp

lemma limited_calls_le: "\<forall>(rnd, now, clock, req)\<in>set reqs. fst clock \<le> T \<Longrightarrow> \<forall>c\<in>set (limited_calls proxies reqs). snd c \<le> T"
  using limited_calls_times [of proxies reqs] by fastforce

lemma limited_calls_length: "length (limited_calls proxies reqs) \<le> length reqs"
  by (induction proxies reqs rule: limited_calls.induct) auto

lemma passed_peer_bound:
  assumes "config_ok cfg" "of_nat (max_tokens cfg) \<le> refill_rate cfg * of_int (entry_ttl cfg)"
    and "p \<notin> set proxies" "sorted (t # map (\<lambda>(rnd, now, clock, req). fst clock) reqs)"
    and "\<forall>(rnd, now, clock, req)\<in>set reqs. fst clock \<le> T" "t \<le> T"
  shows "of_nat (passed_peer proxies p (new_rate_limiter cfg t) reqs)
    \<le> of_nat (max_tokens cfg)
      + refill_rate cfg * (of_int (T - t) / 10 ^ 9) * (1 + 1 / 2 ^ 53) ^ 4
      + of_nat (length reqs) * of_nat (max_tokens cfg) / 2 ^ 53"
proof -
  let ?calls = "limited_calls proxies reqs" and ?rl = "new_rate_limiter cfg t"
  have "\<forall>c\<in>set ?calls. t \<le> snd c" using limited_calls_times [of proxies reqs] assms(4) by fastforce
  then have s: "sorted (t # map snd [] @ t # map snd ?calls)"
    using limited_calls_sorted [of reqs proxies] assms(4) by simp
  have "of_nat (passed_peer proxies p ?rl reqs) \<le> (of_nat (admitted ?rl p ?calls) :: rat)"
    using passed_peer_le [OF assms(3), of ?rl reqs] by (simp add: passed_admitted)
  also have "\<dots> \<le> of_nat (max_tokens cfg) + refill_rate cfg * (of_int (T - t) / 10 ^ 9) * (1 + 1 / 2 ^ 53) ^ 4
      + of_nat (length ?calls) * of_nat (max_tokens cfg) / 2 ^ 53"
    using admitted_bound [OF assms(1,2) s limited_calls_le [OF assms(5)] assms(6)] by simp
  also have "\<dots> \<le> of_nat (max_tokens cfg) + refill_rate cfg * (of_int (T - t) / 10 ^ 9) * (1 + 1 / 2 ^ 53) ^ 4
      + of_nat (length reqs) * of_nat (max_tokens cfg) / 2 ^ 53"
    using limited_calls_length [of proxies reqs]
    by (intro add_left_mono divide_right_mono mult_right_mono) simp_all
  finally show ?thesis .
qed

section \<open>Properties\<close>

text \<open>
  C28. Client keys. The trusted proxies are exactly the trimmed non-blank pieces of the variable's value between
  its commas. A request from any other peer is limited under the peer's own address, whatever headers it sends; a request
  from a trusted proxy under the first piece of \<open>X-Forwarded-For\<close>, trimmed, or the proxy's address when that is blank.
\<close>

theorem client_key_exact:
  "trusted_proxies raw = (case raw of None \<Rightarrow> [] | Some v \<Rightarrow> List.map_filter trimmed (commas v))
   \<and> (trimmed s = Some e \<longleftrightarrow>
        (\<exists>x y. s = x @ e @ y \<and> set x \<subseteq> {CHR '' '', CHR 0x09} \<and> set y \<subseteq> {CHR '' '', CHR 0x09})
        \<and> e \<noteq> [] \<and> hd e \<notin> {CHR '' '', CHR 0x09} \<and> last e \<notin> {CHR '' '', CHR 0x09})
   \<and> client_key_from_request proxies req =
       (if rq_peer req \<in> set proxies
        then case trimmed (takeWhile (\<lambda>c. c \<noteq> CHR '','') (get_header req ''x-forwarded-for'')) of
               None \<Rightarrow> rq_peer req | Some k \<Rightarrow> k
        else rq_peer req)"
proof (intro conjI)
  show "trusted_proxies raw = (case raw of None \<Rightarrow> [] | Some v \<Rightarrow> List.map_filter trimmed (commas v))"
  proof (cases raw)
    case (Some v)
    have "trimmed [] = None" by (simp add: trimmed_None)
    then show ?thesis
      using Some proxy_entries_commas [of 0 v] by (auto simp: trusted_proxies_def List.map_filter_simps)
  qed (simp add: trusted_proxies_def)
  have b: "(\<forall>c\<in>set x. blank c) \<longleftrightarrow> set x \<subseteq> {CHR '' '', CHR 0x09}" "blank c \<longleftrightarrow> c \<in> {CHR '' '', CHR 0x09}" for x c
    by (auto simp: blank_def)
  show "trimmed s = Some e \<longleftrightarrow>
        (\<exists>x y. s = x @ e @ y \<and> set x \<subseteq> {CHR '' '', CHR 0x09} \<and> set y \<subseteq> {CHR '' '', CHR 0x09})
        \<and> e \<noteq> [] \<and> hd e \<notin> {CHR '' '', CHR 0x09} \<and> last e \<notin> {CHR '' '', CHR 0x09}"
    unfolding trimmed_iff trims_to_def set_append ball_Un b by blast
  show "client_key_from_request proxies req =
       (if rq_peer req \<in> set proxies
        then case trimmed (takeWhile (\<lambda>c. c \<noteq> CHR '','') (get_header req ''x-forwarded-for'')) of
               None \<Rightarrow> rq_peer req | Some k \<Rightarrow> k
        else rq_peer req)"
    using client_key_commas [of req proxies] by (simp add: hd_commas) (simp add: client_key_from_request_def)
qed

text \<open>
  The limit per peer: of the requests that one untrusted peer sends, whatever headers and paths
  they have and however they interleave with those of others, those that are subject to the limit
  and pass it from time \<open>t\<close> to \<open>T\<close> are at most \<open>max_tokens\<close> plus the refill of that time, up to rounding.
\<close>

theorem peer_rate_bound:
  assumes "config_ok cfg" "of_nat (max_tokens cfg) \<le> refill_rate cfg * of_int (entry_ttl cfg)"
    and "p \<notin> set proxies" "sorted (t # map (\<lambda>(rnd, now, clock, req). fst clock) reqs)"
    and "\<forall>(rnd, now, clock, req)\<in>set reqs. fst clock \<le> T" "t \<le> T"
  shows "of_nat (passed_peer proxies p (new_rate_limiter cfg t) reqs)
    \<le> of_nat (max_tokens cfg)
      + refill_rate cfg * (of_int (T - t) / 10 ^ 9) * (1 + 1 / 2 ^ 53) ^ 4
      + of_nat (length reqs) * of_nat (max_tokens cfg) / 2 ^ 53"
  by (rule passed_peer_bound [OF assms])

definition sample_draws :: uuid_draws where
  "sample_draws = \<lparr>draw_a = 1, draw_b = 2, draw_c = 3, draw_d = 4, draw_e = 5, draw_f = 6\<rparr>"

definition sample_request :: http_request where
  "sample_request = \<lparr>rq_method = Post, rq_path = ''/v1/resources'', rq_headers = [(''x-forwarded-for'', ''1.2.3.4, 5.6.7.8'')],
     rq_attrs = [], rq_params = [], rq_body = ''{}'', rq_peer = ''9.9.9.9''\<rparr>"

theorem peer_rate_bound_witness:
  "of_nat (passed_peer [''10.0.0.1''] ''9.9.9.9'' (new_rate_limiter default_rate_limit_config 0)
       [(sample_draws, 0, (5, 6), sample_request), (sample_draws, 0, (7, 7), sample_request)])
    \<le> (of_nat (max_tokens default_rate_limit_config) :: rat)
      + refill_rate default_rate_limit_config * (of_int (10 - 0) / 10 ^ 9) * (1 + 1 / 2 ^ 53) ^ 4
      + of_nat (length [(sample_draws, 0 :: int, (5 :: int, 6 :: int), sample_request), (sample_draws, 0, (7, 7), sample_request)])
        * of_nat (max_tokens default_rate_limit_config) / 2 ^ 53"
  by (rule peer_rate_bound) (simp_all add: config_ok_def default_rate_limit_config_def)



text \<open>
  C38. Behind a trusted proxy that appends to \<open>X-Forwarded-For\<close>, the client chooses its key: for every
  address \<open>a\<close> that it writes in front, its request is limited under \<open>a\<close>, and passes when nothing was
  sent under \<open>a\<close> before. So a client that uses a new text for each request is never limited.
\<close>

theorem forwarded_for_spoofable:
  assumes "serving_config (rl_config limiter)" "limiter_ok limiter t" "t \<le> fst clock"
    and "rq_peer req \<in> set proxies" "get_header req ''x-forwarded-for'' = a @ '', '' @ others"
    and "CHR '','' \<notin> set a" "trimmed a = Some a" "map_of (buckets limiter) a = None"
  shows "client_key_from_request proxies req = a
    \<and> fst (rate_limit_advice proxies rnd now clock req limiter) = Next req"
proof -
  have k: "client_key_from_request proxies req = a"
    using client_key_commas [OF assms(4)] assms(5,6,7) commas_append [of a "CHR '' '' # others"] by simp
  have "fst (allow limiter a (fst clock))"
    using allow_iff [OF assms(1-3), of a] assms(8) by simp
  then show ?thesis using k by (simp add: exempt_or_limited Let_def)
qed

theorem forwarded_for_spoofable_witness:
  "fst (rate_limit_advice [''9.9.9.9''] sample_draws 0 (5, 5) sample_request (new_rate_limiter default_rate_limit_config 0))
     = Next sample_request"
proof -
  have "trimmed ''1.2.3.4'' = Some ''1.2.3.4''" by code_simp
  then show ?thesis
    using forwarded_for_spoofable [where limiter = "new_rate_limiter default_rate_limit_config 0" and t = 0
        and clock = "(5, 5)" and req = sample_request and proxies = "[''9.9.9.9'']" and a = "''1.2.3.4''" and others = "''5.6.7.8''"
        and rnd = sample_draws and now = 0]
    by (simp add: default_serving limiter_ok_new new_rate_limiter_def sample_request_def get_header_def lookup_or_empty_def
        limiter_ok_def)
qed

text \<open>
  The size limit: what passes both advices is unchanged, and with a method that carries a body it is at most
  \<open>max_body_bytes\<close> long, whatever \<open>Content-Length\<close> says. A decimal length that is announced is refused exactly when it is
  larger than the limit; one that is not a number passes the first advice; so does one with a sign,
  read modulo \<open>2 ^ 64\<close>. A refusal is 413 with the limit in a header.
\<close>

theorem size_limit_exact:
  assumes "is_body_method (rq_method req)" "n < 2 ^ 64"
  shows "(body_size_advice config rnd now req =
       (if length (rq_body req) \<le> unat (max_body_bytes config) then Next req
        else Respond (make_413 rnd now req (max_body_bytes config))))
    \<and> (get_header req ''content-length'' = dec_nat n \<longrightarrow>
         content_length_advice config rnd now req =
           (if n \<le> unat (max_body_bytes config) then Next req
            else Respond (make_413 rnd now req (max_body_bytes config))))
    \<and> (content_length_advice config rnd now req \<in> {Next req, Respond (make_413 rnd now req (max_body_bytes config))})
    \<and> rs_status (make_413 rnd now req (max_body_bytes config)) = 413
    \<and> map_of (rs_headers (make_413 rnd now req (max_body_bytes config))) ''x-max-body-size''
        = Some (dec_nat (unat (max_body_bytes config)))"
proof -
  have st: "stoull (dec_nat n) = Inr (of_nat n, length (dec_nat n))"
    using assms(2) by (simp add: stoull_def strto_scan_dec_nat)
  have lt: "max_body_bytes config < of_nat n \<longleftrightarrow> unat (max_body_bytes config) < n"
    using assms(2) by (simp add: word_less_nat_alt unsigned_of_nat take_bit_nat_eq_self)
  have "get_header req ''content-length'' = dec_nat n \<Longrightarrow> content_length_advice config rnd now req =
           (if n \<le> unat (max_body_bytes config) then Next req
            else Respond (make_413 rnd now req (max_body_bytes config)))"
    using assms(1) by (auto simp: content_length_advice_def st lt Let_def)
  moreover have "content_length_advice config rnd now req \<in> {Next req, Respond (make_413 rnd now req (max_body_bytes config))}"
    by (auto simp: content_length_advice_def Let_def split: sum.split)
  ultimately show ?thesis
    using assms(1) by (simp add: body_size_advice_def make_413_def response_simps)
qed

theorem size_limit_exact_witness:
  "content_length_advice default_size_limit sample_draws 0
      (sample_request\<lparr>rq_headers := [(''content-length'', dec_nat 1048577)]\<rparr>)
     = Respond (make_413 sample_draws 0 (sample_request\<lparr>rq_headers := [(''content-length'', dec_nat 1048577)]\<rparr>) 1048576)"
  using size_limit_exact [where req = "sample_request\<lparr>rq_headers := [(''content-length'', dec_nat 1048577)]\<rparr>"
      and n = 1048577 and config = default_size_limit and rnd = sample_draws and now = 0]
  by (simp add: sample_request_def is_body_method_def get_header_def lookup_or_empty_def default_size_limit_def)

text \<open>
  One identifier per request: after the first advice every later reading of the request's
  identifier gives the same text, whatever its random draws: the header's, if there is one, or the one generated
  then. The response's header carries it, and so does the envelope of every later refusal.
\<close>

theorem request_id_stable:
  "\<exists>req'. request_id_advice rnd req = Next req'
     \<and> get_request_id req' rnd' = (let h = get_header req ''x-request-id'' in if h \<noteq> [] then h else generate_uuid rnd)
     \<and> map_of (rs_headers (request_id_post rnd'' req' resp)) ''x-request-id'' = Some (get_request_id req' rnd')
     \<and> rq_method req' = rq_method req \<and> rq_path req' = rq_path req \<and> rq_headers req' = rq_headers req
     \<and> rq_body req' = rq_body req \<and> rq_peer req' = rq_peer req \<and> rq_params req' = rq_params req"
proof -
  have "generate_uuid rnd \<noteq> []" by (simp add: generate_uuid_def Let_def)
  then show ?thesis
    by (simp add: request_id_advice_def request_id_post_def get_request_id_def Let_def)
qed

end
