(* ===== verification/Endpoints.thy ===== *)
theory Endpoints
  imports Gateway Repository
begin

text \<open>
  The gateway's own endpoints: \<open>src/gateway/health_handler.cpp\<close>, \<open>readiness_handler.cpp\<close>,
  \<open>not_found_handler.cpp\<close>, their routes in \<open>router.cpp\<close>, and the handler of the framework's own errors in
  \<open>src/main.cpp\<close>. A handler calls its callback once, so it is a function to the response.
\<close>

definition version_string :: string where
  "version_string = ''0.1.0''"

definition health_handler :: "uuid_draws \<Rightarrow> int \<Rightarrow> http_request \<Rightarrow> http_response" where
  "health_handler rnd now req =
     (let request_id = get_request_id req rnd;
          body = jset ''status'' (JString ''ok'') JNull;
          body = jset ''version'' (JString version_string) body;
          body = jset ''path'' (JString (rq_path req)) body
      in respond_ok body request_id now)"

definition not_found_handler :: "uuid_draws \<Rightarrow> int \<Rightarrow> http_request \<Rightarrow> http_response" where
  "not_found_handler rnd now req =
     respond_error EC_not_found (''The request path '' @ [CHR 0x27] @ rq_path req @ [CHR 0x27] @ '' does not exist'')
       (get_request_id req rnd) now"

section \<open>Readiness\<close>

text \<open>The two \<open>try\<close> blocks: whether the check succeeds.\<close>

definition postgres_check :: "('c, 'w) pg_client \<Rightarrow> 'w \<Rightarrow> bool \<times> 'w" where
  "postgres_check pg w =
     (case in_transaction pg (\<lambda>c w. then_do (pg_exec pg c ''SELECT 1'' w) (\<lambda>_ w. pg_commit pg c w)) w of
        (Inr _, w) \<Rightarrow> (True, w)
      | (Inl _, w) \<Rightarrow> (False, w))"

definition redis_check :: "'w hiredis \<Rightarrow> redis_config \<Rightarrow> 'w \<Rightarrow> bool \<times> 'w" where
  "redis_check api cfg w = (case new_redis_connection api cfg w of
      (Inl _, w) \<Rightarrow> (False, w)
    | (Inr c, w) \<Rightarrow> (case redis_ping api c w of
        (Inr alive, c, w) \<Rightarrow> (alive, destroy_redis_connection api c w)
      | (Inl _, c, w) \<Rightarrow> (False, destroy_redis_connection api c w)))"

definition check_text :: "bool \<Rightarrow> jvalue" where
  "check_text fine = JString (if fine then ''ok'' else ''unavailable'')"

definition readiness_handler ::
  "('c, 'w) pg_client \<Rightarrow> 'w hiredis \<Rightarrow> redis_config \<Rightarrow> uuid_draws \<Rightarrow> int \<Rightarrow> http_request \<Rightarrow> 'w \<Rightarrow> http_response \<times> 'w" where
  "readiness_handler pg api cfg rnd now req w =
     (let request_id = get_request_id req rnd in
      case postgres_check pg w of (pg_fine, w) \<Rightarrow>
      case redis_check api cfg w of (redis_fine, w) \<Rightarrow>
        let checks = jset ''redis'' (check_text redis_fine) (jset ''postgres'' (check_text pg_fine) (JObject [])) in
        if \<not> (pg_fine \<and> redis_fine)
        then (add_header ''x-request-id'' request_id
                (respond_error EC_service_unavailable ''One or more dependencies are unavailable.'' request_id now), w)
        else (add_header ''x-request-id'' request_id
                (respond_ok (jset ''checks'' checks (jset ''status'' (JString ''ready'') (JObject []))) request_id now), w))"

section \<open>Routes\<close>

datatype gateway_endpoint = Health | Ready | CatchAll

definition all_methods :: "http_method list" where
  "all_methods = [Get, Post, Put, Patch, Delete, Options]"

text \<open>The tables of \<open>register_routes\<close>, \<open>register_readiness_route\<close> and \<open>register_catchall_routes\<close>.\<close>

definition gateway_routes :: "(string \<times> http_method list \<times> gateway_endpoint) list" where
  "gateway_routes = [(''/health'', [Get], Health)]"

definition readiness_route :: "(string \<times> http_method list \<times> gateway_endpoint) list" where
  "readiness_route = [(''/ready'', [Get], Ready)]"

definition catchall_routes :: "(string \<times> http_method list \<times> gateway_endpoint) list" where
  "catchall_routes =
     [(''/{a}'', all_methods, CatchAll), (''/{a}/{b}'', all_methods, CatchAll),
      (''/{a}/{b}/{c}'', all_methods, CatchAll), (''/{a}/{b}/{c}/{d}'', all_methods, CatchAll)]"

text \<open>The handler of errors that the framework itself raises, by their status.\<close>

definition custom_error_handler :: "uuid_draws \<Rightarrow> int \<Rightarrow> nat \<Rightarrow> http_request \<Rightarrow> http_response" where
  "custom_error_handler rnd now code req =
     (let request_id = get_request_id req rnd;
          resp = (if code = 404
                  then respond_error EC_not_found ''The requested resource does not exist.'' request_id now
                  else if code = 405 then respond_error EC_bad_request ''Method not allowed.'' request_id now
                  else respond_error EC_internal_error ''An unexpected error occurred.'' request_id now)
      in add_header ''x-request-id'' request_id resp)"

section \<open>Properties\<close>

lemma postgres_check_passes:
  "postgres_check pg w = (True, w') \<longleftrightarrow> (\<exists>c v1 v2 rows v3 v4. pg_acquire pg w = (Inr c, v1) \<and> pg_begin pg c v1 = (Inr (), v2)
     \<and> pg_exec pg c ''SELECT 1'' v2 = (Inr rows, v3) \<and> pg_commit pg c v3 = (Inr (), v4)
     \<and> w' = pg_release pg c (pg_end pg c v4))"
  by (auto simp: postgres_check_def in_transaction_def then_do_def split: prod.splits sum.splits)

lemma redis_check_passes:
  "redis_check api cfg w = (True, w') \<longleftrightarrow> (\<exists>conn v conn' v'. new_redis_connection api cfg w = (Inr conn, v)
     \<and> redis_ping api conn v = (Inr True, conn', v') \<and> w' = destroy_redis_connection api conn' v')"
  by (auto simp: redis_check_def split: prod.splits sum.splits)

text \<open>The answer, from the two checks, the second run after the first.\<close>

lemma readiness_answer:
  fixes rnd now req
  defines "rid \<equiv> get_request_id req rnd"
  defines "down \<equiv> add_header ''x-request-id'' rid
    (respond_error EC_service_unavailable ''One or more dependencies are unavailable.'' rid now)"
  assumes "postgres_check pg w = (b1, w1)" "redis_check api cfg w1 = (b2, w2)"
    and "readiness_handler pg api cfg rnd now req w = (resp, w')"
  shows "w' = w2 \<and> rs_status resp = (if b1 \<and> b2 then 200 else 503)
    \<and> map_of (rs_headers resp) ''x-request-id'' = Some rid \<and> (resp = down \<longleftrightarrow> \<not> (b1 \<and> b2))"
proof -
  have h: "resp = (if b1 \<and> b2 then add_header ''x-request-id'' rid
        (respond_ok (jset ''checks'' (jset ''redis'' (check_text b2) (jset ''postgres'' (check_text b1) (JObject [])))
           (jset ''status'' (JString ''ready'') (JObject []))) rid now) else down)" "w' = w2"
    using assms(3-5) by (auto simp: readiness_handler_def rid_def down_def Let_def simp del: jset.simps split: if_splits)
  have "rs_status down = 503" by (simp add: down_def response_simps)
  moreover have "map_of (rs_headers down) ''x-request-id'' = Some rid" by (simp add: down_def response_simps)
  ultimately show ?thesis using h(2) by (auto simp: h(1) response_simps simp del: jset.simps)
qed

text \<open>
  Readiness: the answer is 200 exactly when the pool gave a connection, a transaction with \<open>SELECT 1\<close>
  committed on it, and then, with that connection given back, a new Redis connection answered
  \<open>PING\<close> with \<open>PONG\<close>; otherwise 503, which does not say what failed. The identifier is always in the header. When it is
  ready, both connections are given back.
\<close>

theorem readiness_exact:
  "(rs_status (fst (readiness_handler pg api cfg rnd now req w)) = 200 \<longleftrightarrow>
     (\<exists>c w1 w2 rows w3 w4 conn w5 conn' w6.
        pg_acquire pg w = (Inr c, w1) \<and> pg_begin pg c w1 = (Inr (), w2)
        \<and> pg_exec pg c ''SELECT 1'' w2 = (Inr rows, w3) \<and> pg_commit pg c w3 = (Inr (), w4)
        \<and> new_redis_connection api cfg (pg_release pg c (pg_end pg c w4)) = (Inr conn, w5)
        \<and> redis_ping api conn w5 = (Inr True, conn', w6)
        \<and> snd (readiness_handler pg api cfg rnd now req w) = destroy_redis_connection api conn' w6))
   \<and> rs_status (fst (readiness_handler pg api cfg rnd now req w)) \<in> {200, 503}
   \<and> map_of (rs_headers (fst (readiness_handler pg api cfg rnd now req w))) ''x-request-id'' = Some (get_request_id req rnd)
   \<and> (rs_status (fst (readiness_handler pg api cfg rnd now req w)) = 503 \<longleftrightarrow>
        fst (readiness_handler pg api cfg rnd now req w) = add_header ''x-request-id'' (get_request_id req rnd)
          (respond_error EC_service_unavailable ''One or more dependencies are unavailable.'' (get_request_id req rnd) now))"
proof -
  obtain b1 w1 where p: "postgres_check pg w = (b1, w1)" by (rule prod.exhaust)
  obtain b2 w2 where r: "redis_check api cfg w1 = (b2, w2)" by (rule prod.exhaust)
  obtain resp w' where h: "readiness_handler pg api cfg rnd now req w = (resp, w')" by (rule prod.exhaust)
  have "b1 \<and> b2 \<longleftrightarrow> (\<exists>v. postgres_check pg w = (True, v) \<and> redis_check api cfg v = (True, w2))"
    using p r by auto
  also have "\<dots> \<longleftrightarrow> (\<exists>c v1 v2 rows v3 v4 conn v5 conn' v6.
        pg_acquire pg w = (Inr c, v1) \<and> pg_begin pg c v1 = (Inr (), v2)
        \<and> pg_exec pg c ''SELECT 1'' v2 = (Inr rows, v3) \<and> pg_commit pg c v3 = (Inr (), v4)
        \<and> new_redis_connection api cfg (pg_release pg c (pg_end pg c v4)) = (Inr conn, v5)
        \<and> redis_ping api conn v5 = (Inr True, conn', v6)
        \<and> w2 = destroy_redis_connection api conn' v6)"
    unfolding postgres_check_passes redis_check_passes by blast
  finally have passes: "b1 \<and> b2 \<longleftrightarrow> (\<exists>c v1 v2 rows v3 v4 conn v5 conn' v6.
        pg_acquire pg w = (Inr c, v1) \<and> pg_begin pg c v1 = (Inr (), v2)
        \<and> pg_exec pg c ''SELECT 1'' v2 = (Inr rows, v3) \<and> pg_commit pg c v3 = (Inr (), v4)
        \<and> new_redis_connection api cfg (pg_release pg c (pg_end pg c v4)) = (Inr conn, v5)
        \<and> redis_ping api conn v5 = (Inr True, conn', v6) \<and> w2 = destroy_redis_connection api conn' v6)" .
  have a: "w' = w2" "rs_status resp = (if b1 \<and> b2 then 200 else 503)" using readiness_answer [OF p r h] by blast+
  show ?thesis unfolding h fst_conv snd_conv a passes [symmetric] using readiness_answer [OF p r h] by auto
qed

text \<open>
  Errors of the framework: every one is answered with the envelope and the request's identifier, but only 404 keeps its
  status: 405 becomes 400, and everything else, the 413 for a body over the framework's own limit
  among them, becomes 500.
\<close>

theorem framework_errors:
  "let r = custom_error_handler rnd now code req
   in rs_status r = (if code = 404 then 404 else if code = 405 then 400 else 500)
     \<and> map_of (rs_headers r) ''x-request-id'' = Some (get_request_id req rnd)
     \<and> (\<exists>m. env_meta r = Some m \<and> jget m ''request_id'' = Some (JString (get_request_id req rnd)))
     \<and> (\<exists>e. env_error r = Some e \<and> jget e ''code'' = Some (JString (to_string
          (if code = 404 then EC_not_found else if code = 405 then EC_bad_request else EC_internal_error))))"
  by (simp add: custom_error_handler_def Let_def response_simps)
     (simp add: respond_defs response_simps error_def)

end
