(* ===== verification/KeyStore.thy ===== *)
theory KeyStore
  imports Repository Authenticator
begin

text \<open>
  The lookup of API keys in PostgreSQL, \<open>src/auth/pg_api_key_lookup.cpp\<close>, on the pool and libpqxx as
  \<open>pg_client\<close> (its transaction being the read-only one). Columns are read by position here; the
  conversion of a column to \<open>long long\<close> is libpqxx's. The properties put the lookup into the key
  validator and that behind the authentication middleware, as the server does.
\<close>

record ('c, 'w) key_store =
  ks_pg :: "('c, 'w) pg_client"
  ks_as_int64 :: "string \<Rightarrow> exn + int"

definition key_lookup_sql :: string where
  "key_lookup_sql = ''SELECT client_id::text, scopes, '' @ ''       extract(epoch FROM expires_at)::bigint ''
     @ ''FROM api_keys '' @ ''WHERE key_hash = $1 '' @ ''  AND is_active ''
     @ ''  AND (expires_at IS NULL OR expires_at > now())''"

definition field_at :: "pg_row \<Rightarrow> nat \<Rightarrow> string option" where
  "field_at row i = (if i < length row then snd (row ! i) else None)"

definition text_at :: "pg_row \<Rightarrow> nat \<Rightarrow> exn + string" where
  "text_at row i = (case field_at row i of
      Some s \<Rightarrow> Inr s
    | None \<Rightarrow> Inl (StdError ''Attempt to convert null to string.''))"

text \<open>
  Seconds become the nanoseconds of \<open>system_clock\<close> in 64 bits. The multiplication wraps where the
  code's overflows, from the year 2262 on.
\<close>

definition seconds_time :: "int \<Rightarrow> int" where
  "seconds_time s = sint (word_of_int (s * 1000000000) :: 64 word)"

definition record_of_row :: "('c, 'w) key_store \<Rightarrow> pg_row \<Rightarrow> exn + api_key_record" where
  "record_of_row ks row =
     sum_bind (text_at row 0) (\<lambda>client_id.
     sum_bind (text_at row 1) (\<lambda>scopes.
     sum_bind (case field_at row 2 of
         None \<Rightarrow> Inr None
       | Some s \<Rightarrow> sum_bind (ks_as_int64 ks s) (\<lambda>n. Inr (Some (seconds_time n)))) (\<lambda>expires.
       Inr \<lparr>kr_client_id = client_id, kr_scopes = scopes, kr_expires_at = expires\<rparr>)))"

definition pg_api_key_lookup :: "('c, 'w) key_store \<Rightarrow> 'w api_key_lookup" where
  "pg_api_key_lookup ks key_hash w =
     (case in_transaction (ks_pg ks) (\<lambda>c w.
             then_do (pg_exec_params (ks_pg ks) c key_lookup_sql [key_hash] w) (\<lambda>rows w.
               (if rows = [] then Inr None
                else sum_bind (record_of_row ks (first_row rows)) (\<lambda>r. Inr (Some r)), w))) w of
        (Inl e, w) \<Rightarrow> (Inl (ApiKeyBackendError (''API key store unavailable: '' @ what e)), w)
      | (Inr r, w) \<Rightarrow> (Inr r, w))"

section \<open>Lemmas\<close>

lemma seconds_time_exact:
  assumes "- 9223372036 \<le> s" "s \<le> 9223372036"
  shows "seconds_time s = s * 1000000000"
proof -
  have "sint (word_of_int k :: 64 word) = k" if "- (2 ^ 63) \<le> k" "k < 2 ^ 63" for k
    using that by (simp add: signed_of_int signed_take_bit_int_eq_self)
  moreover have "- (2 ^ 63) \<le> s * 1000000000" "s * 1000000000 < 2 ^ 63" using assms by simp_all
  ultimately show ?thesis unfolding seconds_time_def by blast
qed

lemma pg_lookup_errors:
  "pg_api_key_lookup ks h w = (Inl e, w') \<Longrightarrow> \<exists>m. e = ApiKeyBackendError m"
  by (auto simp: pg_api_key_lookup_def split: prod.splits sum.splits)

lemma validate_via_lookup_errors:
  assumes "validate_via_lookup env hashed rkey v w = (Inl e, v', w')"
  shows "(\<exists>m. e = ApiKeyValidationError m) \<or> (\<exists>lookup w1 w2. kv_lookup v = Some lookup \<and> lookup hashed w1 = (Inl e, w2))"
  using assms
  by (auto simp: validate_via_lookup_def require_client_def
      split: option.splits prod.splits sum.splits if_splits)

lemma validate_errors:
  assumes "validate env raw_key v w = (Inl e, v', w')"
  shows "(\<exists>m. e = ApiKeyValidationError m \<or> e = ApiKeyBackendError m)
    \<or> (\<exists>lookup w1 w2. kv_lookup v = Some lookup \<and> lookup (hash_key env raw_key) w1 = (Inl e, w2))"
proof (cases "raw_key = []")
  case True
  then show ?thesis using assms by (auto simp: validate_def)
next
  case False
  obtain r1 v1 w1 where f: "from_cache env (redis_key (hash_key env raw_key)) v w = (r1, v1, w1)"
    by (rule prod_cases3)
  have look: "kv_lookup v1 = kv_lookup v" using from_cache_lookup [OF f] .
  consider (down) e' where "r1 = Inl e'" | (miss) "r1 = Inr None" | (hit) i where "r1 = Inr (Some i)"
    by (cases r1) (auto simp: option.split)
  then show ?thesis
  proof cases
    case down
    show ?thesis
    proof (cases "kv_lookup v")
      case None
      then show ?thesis using assms False f look down by (auto simp: validate_def Let_def)
    next
      case (Some lookup)
      have "validate_via_lookup env (hash_key env raw_key) (redis_key (hash_key env raw_key)) v1 w1 = (Inl e, v', w')"
        using assms False f look down Some by (simp add: validate_def Let_def)
      from validate_via_lookup_errors [OF this] look show ?thesis by auto
    qed
  next
    case miss
    have "validate_via_lookup env (hash_key env raw_key) (redis_key (hash_key env raw_key)) v1 w1 = (Inl e, v', w')"
      using assms False f miss by (simp add: validate_def Let_def)
    from validate_via_lookup_errors [OF this] look show ?thesis by auto
  next
    case hit
    then show ?thesis
      using assms False f by (auto simp: validate_def require_client_def Let_def split: if_splits)
  qed
qed

lemma authenticate_escapes:
  assumes "authenticate creds check_jwt check_key w = (Inl e, w')"
  shows "((\<exists>w2. check_key (cr_api_key creds) w = (Inl e, w2)) \<and> (\<forall>m. e \<noteq> ApiKeyBackendError m \<and> e \<noteq> ApiKeyValidationError m))
    \<or> ((\<exists>t w1 w2. check_jwt t w1 = (Inl e, w2)) \<and> (\<forall>m. e \<noteq> JwtValidationError m))"
proof -
  obtain r1 w1 where k: "key_phase creds check_key no_principal w = (r1, w1)" by (rule prod.exhaust)
  have kp: "(\<exists>w2. check_key (cr_api_key creds) w = (Inl e, w2)) \<and> (\<forall>m. e \<noteq> ApiKeyBackendError m \<and> e \<noteq> ApiKeyValidationError m)"
    if "r1 = Inl e"
    using k that by (auto simp: key_phase_def split: if_splits prod.splits sum.splits exn.splits)
  have jp: "(\<exists>t w1 w2. check_jwt t w1 = (Inl e, w2)) \<and> (\<forall>m. e \<noteq> JwtValidationError m)"
    if "jwt_phase creds check_jwt p w = (Inl e, w')" for p w
    using that by (auto simp: jwt_phase_def split: if_splits prod.splits sum.splits exn.splits)
  show ?thesis
    using assms k kp jp by (auto simp: authenticate_def split: if_splits prod.splits sum.splits)
qed

lemma key_phase_backend:
  "cr_api_key creds \<noteq> [] \<Longrightarrow> fst (check_key (cr_api_key creds) w) = Inl (ApiKeyBackendError m) \<Longrightarrow>
     \<exists>err w'. authenticate creds check_jwt check_key w = (Inr (Inl err), w') \<and> af_kind err = AF_unavailable"
  by (cases "check_key (cr_api_key creds) w") (simp add: authenticate_def key_phase_def)

lemma in_transaction_Inr:
  "in_transaction pg body w = (Inr x, w') \<longleftrightarrow>
     (\<exists>c w1 w2 w3. pg_acquire pg w = (Inr c, w1) \<and> pg_begin pg c w1 = (Inr (), w2)
        \<and> body c w2 = (Inr x, w3) \<and> w' = pg_release pg c (pg_end pg c w3))"
  by (auto simp: in_transaction_def then_do_def split: prod.splits sum.splits)

lemma record_of_row_Inr:
  "record_of_row ks row = Inr r \<longleftrightarrow>
     field_at row 0 = Some (kr_client_id r) \<and> field_at row 1 = Some (kr_scopes r)
     \<and> (case kr_expires_at r of
          None \<Rightarrow> field_at row 2 = None
        | Some t \<Rightarrow> \<exists>s n. field_at row 2 = Some s \<and> ks_as_int64 ks s = Inr n \<and> t = seconds_time n)"
  by (cases r) (auto simp: record_of_row_def text_at_def sum_bind_Inr_iff split: option.splits)

lemma pg_lookup_Inr:
  "pg_api_key_lookup ks h w = (Inr x, w') \<longleftrightarrow>
     (\<exists>c w1 w2 rows w3. pg_acquire (ks_pg ks) w = (Inr c, w1) \<and> pg_begin (ks_pg ks) c w1 = (Inr (), w2)
        \<and> pg_exec_params (ks_pg ks) c key_lookup_sql [h] w2 = (Inr rows, w3)
        \<and> (case rows of [] \<Rightarrow> x = None | row # _ \<Rightarrow> \<exists>r. record_of_row ks row = Inr r \<and> x = Some r)
        \<and> w' = pg_release (ks_pg ks) c (pg_end (ks_pg ks) c w3))"
proof -
  have "pg_api_key_lookup ks h w = (Inr x, w') \<longleftrightarrow>
      in_transaction (ks_pg ks) (\<lambda>c w.
             then_do (pg_exec_params (ks_pg ks) c key_lookup_sql [h] w) (\<lambda>rows w.
               (if rows = [] then Inr None
                else sum_bind (record_of_row ks (first_row rows)) (\<lambda>r. Inr (Some r)), w))) w = (Inr x, w')"
    by (auto simp: pg_api_key_lookup_def split: prod.splits sum.splits)
  moreover have "then_do (pg_exec_params (ks_pg ks) c key_lookup_sql [h] w2) (\<lambda>rows w.
               (if rows = [] then Inr None
                else sum_bind (record_of_row ks (first_row rows)) (\<lambda>r. Inr (Some r)), w)) = (Inr x, w3)
      \<longleftrightarrow> (\<exists>rows. pg_exec_params (ks_pg ks) c key_lookup_sql [h] w2 = (Inr rows, w3)
        \<and> (case rows of [] \<Rightarrow> x = None | row # _ \<Rightarrow> \<exists>r. record_of_row ks row = Inr r \<and> x = Some r))" for c w2 w3
    by (cases "pg_exec_params (ks_pg ks) c key_lookup_sql [h] w2")
       (auto simp: then_do_def first_row_def sum_bind_Inr_iff split: sum.split list.split)
  ultimately show ?thesis unfolding in_transaction_Inr by blast
qed

lemma fst_iff: "fst p = x \<longleftrightarrow> (\<exists>y. p = (x, y))"
  by (cases p) auto

lemma answer_None:
  "(case rows of [] \<Rightarrow> (None :: 'a option) = None | row # _ \<Rightarrow> \<exists>r. P row r \<and> None = Some r) \<longleftrightarrow> rows = []"
  by (cases rows) simp_all

lemma answer_Some:
  "(case rows of [] \<Rightarrow> Some x = None | row # _ \<Rightarrow> \<exists>r. P row r \<and> Some x = Some r)
     \<longleftrightarrow> (\<exists>row rest. rows = row # rest \<and> P row x)"
  by (cases rows) simp_all

lemma auth_advice_total:
  assumes "kv_lookup v = None \<or> kv_lookup v = Some (pg_api_key_lookup ks)"
  shows "\<exists>adv s'. auth_advice (jwt_check_of lib jv clock) (key_check_of env) rnd now req (v, w) = (Inr adv, s')"
proof -
  obtain r s' where a: "auth_advice (jwt_check_of lib jv clock) (key_check_of env) rnd now req (v, w) = (r, s')"
    by (rule prod.exhaust)
  have "False" if r: "r = Inl e" for e
  proof -
    obtain creds s2 where "authenticate creds (jwt_check_of lib jv clock) (key_check_of env) (v, w) = (Inl e, s2)"
      using a r by (auto simp: auth_advice_def Let_def split: if_splits prod.splits sum.splits)
    from authenticate_escapes [OF this] show False
    proof
      assume k: "(\<exists>w2. key_check_of env (cr_api_key creds) (v, w) = (Inl e, w2))
        \<and> (\<forall>m. e \<noteq> ApiKeyBackendError m \<and> e \<noteq> ApiKeyValidationError m)"
      then obtain v' w' where "validate env (cr_api_key creds) v w = (Inl e, v', w')"
        by (auto simp: key_check_of_def split: prod.splits)
      from validate_errors [OF this] k assms pg_lookup_errors show False by fastforce
    next
      assume "(\<exists>t w1 w2. jwt_check_of lib jv clock t w1 = (Inl e, w2)) \<and> (\<forall>m. e \<noteq> JwtValidationError m)"
      then show False using jwt_validate_errors by (fastforce simp: jwt_check_of_def)
    qed
  qed
  then show ?thesis using a by (cases r) auto
qed

section \<open>Properties\<close>

text \<open>
  The lookup of a digest: "no such key" is exactly the answer of a successful statement with no
  row, a record exactly that of the first row (client and scopes not NULL, the expiry NULL or a
  number of seconds), and the statement is the fixed text with the digest as its parameter. Everything else, from an exhausted pool to a
  malformed row, is the backend error, so a store that is down never looks like an unknown key.
\<close>

theorem key_lookup_exact:
  "(fst (pg_api_key_lookup ks h w) = Inr None \<longleftrightarrow>
     (\<exists>c w1 w2 w3. pg_acquire (ks_pg ks) w = (Inr c, w1) \<and> pg_begin (ks_pg ks) c w1 = (Inr (), w2)
        \<and> pg_exec_params (ks_pg ks) c key_lookup_sql [h] w2 = (Inr [], w3)))
   \<and> (fst (pg_api_key_lookup ks h w) = Inr (Some r) \<longleftrightarrow>
     (\<exists>c w1 w2 row rows w3. pg_acquire (ks_pg ks) w = (Inr c, w1) \<and> pg_begin (ks_pg ks) c w1 = (Inr (), w2)
        \<and> pg_exec_params (ks_pg ks) c key_lookup_sql [h] w2 = (Inr (row # rows), w3)
        \<and> field_at row 0 = Some (kr_client_id r) \<and> field_at row 1 = Some (kr_scopes r)
        \<and> (case kr_expires_at r of
             None \<Rightarrow> field_at row 2 = None
           | Some t \<Rightarrow> \<exists>s n. field_at row 2 = Some s \<and> ks_as_int64 ks s = Inr n \<and> t = seconds_time n)))
   \<and> (case fst (pg_api_key_lookup ks h w) of Inl e \<Rightarrow> \<exists>m. e = ApiKeyBackendError m | Inr _ \<Rightarrow> True)"
proof (intro conjI)
  show "fst (pg_api_key_lookup ks h w) = Inr None \<longleftrightarrow>
     (\<exists>c w1 w2 w3. pg_acquire (ks_pg ks) w = (Inr c, w1) \<and> pg_begin (ks_pg ks) c w1 = (Inr (), w2)
        \<and> pg_exec_params (ks_pg ks) c key_lookup_sql [h] w2 = (Inr [], w3))"
    unfolding fst_iff pg_lookup_Inr answer_None by blast
  show "fst (pg_api_key_lookup ks h w) = Inr (Some r) \<longleftrightarrow>
     (\<exists>c w1 w2 row rows w3. pg_acquire (ks_pg ks) w = (Inr c, w1) \<and> pg_begin (ks_pg ks) c w1 = (Inr (), w2)
        \<and> pg_exec_params (ks_pg ks) c key_lookup_sql [h] w2 = (Inr (row # rows), w3)
        \<and> field_at row 0 = Some (kr_client_id r) \<and> field_at row 1 = Some (kr_scopes r)
        \<and> (case kr_expires_at r of
             None \<Rightarrow> field_at row 2 = None
           | Some t \<Rightarrow> \<exists>s n. field_at row 2 = Some s \<and> ks_as_int64 ks s = Inr n \<and> t = seconds_time n))"
    unfolding fst_iff pg_lookup_Inr record_of_row_Inr [symmetric] answer_Some by blast
  show "case fst (pg_api_key_lookup ks h w) of Inl e \<Rightarrow> \<exists>m. e = ApiKeyBackendError m | Inr _ \<Rightarrow> True"
    using pg_lookup_errors [of ks h w] by (cases "pg_api_key_lookup ks h w") (auto split: sum.split)
qed

text \<open>
  No exception leaves the authentication middleware of the server as it is put together: with
  the JWT validator, and the key validator with no lookup or with the one in PostgreSQL, every
  request is answered or goes on, whatever the two stores and the JWT library do.
\<close>

theorem auth_never_throws:
  assumes "kv_lookup v = None \<or> kv_lookup v = Some (pg_api_key_lookup ks)"
  shows "\<exists>adv s'. auth_advice (jwt_check_of lib jv clock) (key_check_of env) rnd now req (v, w) = (Inr adv, s')"
  by (rule auth_advice_total [OF assms])

theorem auth_never_throws_witness:
  "\<forall>lib jv clock rnd now req. \<exists>adv s'. auth_advice (jwt_check_of lib jv clock) (key_check_of down_env) rnd now req
     (sample_validator\<lparr>kv_lookup := None\<rparr>, ()) = (Inr adv, s')"
  by (intro allI, rule auth_never_throws [where ks = "\<lparr>ks_pg = demo_pg, ks_as_int64 = (\<lambda>_. Inr 0)\<rparr>"]) simp

text \<open>
  C24. Closed when the stores are down: if Redis refuses connections (and the validator has no open one) and
  the database gives no connection, every request under \<open>/v1/\<close> that carries an API key is answered 503,
  whatever token it carries as well; none is let through and none is told that its key is invalid.
\<close>

theorem stores_down_fail_closed:
  assumes "starts_with ''/v1/'' (rq_path req)" "get_header req ''x-api-key'' \<noteq> []"
    and "\<forall>w. \<exists>e w'. new_redis_connection (ke_redis env) (kv_config v) w = (Inl e, w')" "kv_idle v = []"
    and "kv_lookup v = None \<or> kv_lookup v = Some (pg_api_key_lookup ks)"
    and "\<forall>w. \<exists>e w'. pg_acquire (ks_pg ks) w = (Inl e, w')"
  shows "\<exists>resp s'. auth_advice (jwt_check_of lib jv clock) (key_check_of env) rnd now req (v, w) = (Inr (Respond resp), s')
    \<and> rs_status resp = 503 \<and> map_of (rs_headers resp) ''retry-after'' = Some ''5''"
proof -
  let ?k = "get_header req ''x-api-key''"
  let ?creds = "\<lparr>cr_method = method_string (rq_method req),
     cr_authorization = get_header req ''authorization'', cr_api_key = ?k\<rparr>"
  obtain e1 w1 where n: "new_redis_connection (ke_redis env) (kv_config v) w = (Inl e1, w1)" using assms(3) by blast
  have "acquire env v w = (Inl e1, v, w1)" using n assms(4) by (simp add: acquire_def)
  then have f: "from_cache env rk v w = (Inl e1, v, w1)" for rk by (simp add: from_cache_def read_hash_def)
  obtain e2 w2 where q: "pg_acquire (ks_pg ks) w1 = (Inl e2, w2)" using assms(6) by blast
  have "\<exists>m w2. validate env ?k v w = (Inl (ApiKeyBackendError m), v, w2)"
    using assms(5)
  proof
    assume "kv_lookup v = None"
    then show ?thesis using assms(2) f by (simp add: validate_def Let_def)
  next
    assume "kv_lookup v = Some (pg_api_key_lookup ks)"
    then show ?thesis
      using assms(2) f q
      by (simp add: validate_def validate_via_lookup_def pg_api_key_lookup_def in_transaction_def Let_def)
  qed
  then obtain m where "fst (key_check_of env (cr_api_key ?creds) (v, w)) = Inl (ApiKeyBackendError m)"
    by (auto simp: key_check_of_def)
  with assms(2) obtain err s' where "authenticate ?creds (jwt_check_of lib jv clock) (key_check_of env) (v, w) = (Inr (Inl err), s')"
    and "af_kind err = AF_unavailable"
    using key_phase_backend [of ?creds] by force
  then show ?thesis using assms(1) by (simp add: auth_advice_def response_simps add_header_def Let_def)
qed

definition demo_key_request :: http_request where
  "demo_key_request = \<lparr>rq_method = Get, rq_path = ''/v1/resources'', rq_headers = [(''x-api-key'', ''k'')],
     rq_attrs = [], rq_params = [], rq_body = [], rq_peer = ''10.0.0.1''\<rparr>"

theorem stores_down_fail_closed_witness:
  "\<forall>lib jv clock rnd now. \<exists>resp s'. auth_advice (jwt_check_of lib jv clock) (key_check_of down_env) rnd now demo_key_request
       (sample_validator\<lparr>kv_lookup := Some (pg_api_key_lookup
          \<lparr>ks_pg = demo_pg\<lparr>pg_acquire := (\<lambda>w. (Inl (DbPoolExhausted []), w))\<rparr>, ks_as_int64 = (\<lambda>_. Inr 0)\<rparr>)\<rparr>, ())
     = (Inr (Respond resp), s') \<and> rs_status resp = 503 \<and> map_of (rs_headers resp) ''retry-after'' = Some ''5''"
proof (intro allI, rule stores_down_fail_closed)
  show "starts_with ''/v1/'' (rq_path demo_key_request)" "get_header demo_key_request ''x-api-key'' \<noteq> []"
    by (simp_all add: demo_key_request_def starts_with_def get_header_def lookup_or_empty_def)
  show "\<forall>w. \<exists>e w'. new_redis_connection (ke_redis down_env) (kv_config (sample_validator\<lparr>kv_lookup := x\<rparr>)) w = (Inl e, w')" for x
    using down_connect by (simp add: down_env_def) metis
qed (auto simp: sample_validator_def)

end
