(* ===== verification/Migration.thy ===== *)
theory Migration
  imports Repository
begin

text \<open>
  The migration runner, \<open>include/corvus/db/migration_runner.h\<close> and \<open>src/db/migration_runner.cpp\<close>:
  discovering the numbered scripts of a directory, and applying those that the table
  \<open>schema_migrations\<close> does not list. The directory is a list of entries in the order of the
  iterator; statements outside a transaction and the conversion of a column to \<open>long long\<close> are
  libpqxx's, beside \<open>pg_client\<close>.
\<close>

record dir_entry =
  de_regular :: bool
  de_filename :: string
  de_content :: "string option"

record migration =
  mg_version :: int
  mg_name :: string
  mg_sql :: string
  mg_path :: string

record ('c, 'w) migration_env =
  me_pg :: "('c, 'w) pg_client"
  me_exec_plain :: "'c \<Rightarrow> string \<Rightarrow> 'w \<Rightarrow> (exn + unit) \<times> 'w"
  me_as_int64 :: "string \<Rightarrow> exn + int"
  me_exists :: "string \<Rightarrow> 'w \<Rightarrow> bool"
  me_entries :: "string \<Rightarrow> 'w \<Rightarrow> dir_entry list"

text \<open>The constructor; a runner is its directory here.\<close>

definition new_runner :: "('c, 'w) migration_env \<Rightarrow> string \<Rightarrow> 'w \<Rightarrow> exn + string" where
  "new_runner env dir w =
     (if \<not> me_exists env dir w then Inl (MigrationError (''Migration directory does not exist: '' @ dir))
      else Inr dir)"

section \<open>Discovery\<close>

definition sql_suffix :: string where
  "sql_suffix = ''.sql''"

text \<open>
  The match of the whole name against \<open>^(\d+)_(.+)\.sql$\<close>, and its first group: the digits are all
  the leading digits, since an underscore follows, and a dot matches no line terminator.
\<close>

definition match_name :: "string \<Rightarrow> string option" where
  "match_name filename =
     (let digits = takeWhile is_digit filename; rest = dropWhile is_digit filename
      in case rest of
           [] \<Rightarrow> None
         | c # tail \<Rightarrow>
             (let body = take (length tail - 4) tail
              in if digits \<noteq> [] \<and> c = CHR ''_'' \<and> 4 \<le> length tail \<and> drop (length tail - 4) tail = sql_suffix
                    \<and> body \<noteq> [] \<and> CHR 0x0A \<notin> set body \<and> CHR 0x0D \<notin> set body
                 then Some digits else None))"

text \<open>The stem of a name that matched ends before its last dot.\<close>

definition stem :: "string \<Rightarrow> string" where
  "stem filename = take (length filename - 4) filename"

text \<open>One turn of the loop over the directory: nothing, or a migration, or an exception.\<close>

definition read_entry :: "string \<Rightarrow> dir_entry \<Rightarrow> exn + migration option" where
  "read_entry dir en =
     (if \<not> de_regular en then Inr None
      else case match_name (de_filename en) of
        None \<Rightarrow> Inr None
      | Some digits \<Rightarrow> sum_bind (stoll digits) (\<lambda>(version, _).
          let path = dir @ ''/'' @ de_filename en in
          case de_content en of
            None \<Rightarrow> Inl (MigrationError (''Cannot open migration file: '' @ path))
          | Some sql \<Rightarrow>
              if sql = [] then Inl (MigrationError (''Migration file is empty: '' @ path))
              else Inr (Some \<lparr>mg_version = version, mg_name = stem (de_filename en), mg_sql = sql, mg_path = path\<rparr>)))"

fun read_entries :: "string \<Rightarrow> dir_entry list \<Rightarrow> exn + migration list" where
  "read_entries dir [] = Inr []"
| "read_entries dir (en # ens) = sum_bind (read_entry dir en) (\<lambda>m.
     sum_bind (read_entries dir ens) (\<lambda>ms. Inr (case m of Some m \<Rightarrow> m # ms | None \<Rightarrow> ms)))"

text \<open>
  \<open>std::sort\<close> by version; the order that it leaves between equal versions is not specified by the
  library, here it is the order of the directory.
\<close>

definition discover :: "('c, 'w) migration_env \<Rightarrow> string \<Rightarrow> 'w \<Rightarrow> exn + migration list" where
  "discover env dir w =
     sum_bind (read_entries dir (me_entries env dir w)) (\<lambda>ms. Inr (sort_key mg_version ms))"

section \<open>Statements\<close>

definition create_table_sql :: string where
  "create_table_sql = CHR 0x0A # unlines
     [''                CREATE TABLE IF NOT EXISTS schema_migrations ('',
      ''                    version    BIGINT      PRIMARY KEY,'',
      ''                    name       TEXT        NOT NULL,'',
      ''                    applied_at TIMESTAMPTZ NOT NULL DEFAULT now()'',
      ''                )''] @ ''            ''"

definition select_versions_sql :: string where
  "select_versions_sql = ''SELECT version FROM schema_migrations ORDER BY version''"

definition max_version_sql :: string where
  "max_version_sql = ''SELECT COALESCE(MAX(version), 0) FROM schema_migrations''"

definition record_sql :: string where
  "record_sql = ''INSERT INTO schema_migrations (version, name) VALUES ($1, $2)''
     @ '' ON CONFLICT (version) DO NOTHING''"

text \<open>A connection of the pool for the time of \<open>body\<close>.\<close>

definition with_connection ::
  "('c, 'w) pg_client \<Rightarrow> ('c \<Rightarrow> 'w \<Rightarrow> (exn + 'a) \<times> 'w) \<Rightarrow> 'w \<Rightarrow> (exn + 'a) \<times> 'w" where
  "with_connection pg body w =
     then_do (pg_acquire pg w) (\<lambda>c w. case body c w of (r, w) \<Rightarrow> (r, pg_release pg c w))"

text \<open>\<open>pqxx::work txn(conn); try { ... } catch\<close>, the exception being wrapped with a message.\<close>

definition in_work ::
  "('c, 'w) pg_client \<Rightarrow> string \<Rightarrow> ('c \<Rightarrow> 'w \<Rightarrow> (exn + 'a) \<times> 'w) \<Rightarrow> 'c \<Rightarrow> 'w \<Rightarrow> (exn + 'a) \<times> 'w" where
  "in_work pg message body c w =
     then_do (pg_begin pg c w) (\<lambda>_ w. case body c w of
         (Inl e, w) \<Rightarrow> (Inl (MigrationError (message @ what e)), pg_end pg c w)
       | (Inr x, w) \<Rightarrow> (Inr x, pg_end pg c w))"

definition ensure_migrations_table :: "('c, 'w) migration_env \<Rightarrow> 'c \<Rightarrow> 'w \<Rightarrow> (exn + unit) \<times> 'w" where
  "ensure_migrations_table env =
     in_work (me_pg env) ''Failed to create schema_migrations: '' (\<lambda>c w.
       then_do (pg_exec (me_pg env) c create_table_sql w) (\<lambda>_ w. pg_commit (me_pg env) c w))"

definition first_int :: "('c, 'w) migration_env \<Rightarrow> pg_row \<Rightarrow> exn + int" where
  "first_int env row = (case row of
      (_, Some s) # _ \<Rightarrow> me_as_int64 env s
    | _ \<Rightarrow> Inl (StdError ''Attempt to convert null to long long.''))"

fun version_list :: "('c, 'w) migration_env \<Rightarrow> pg_row list \<Rightarrow> exn + int list" where
  "version_list env [] = Inr []"
| "version_list env (row # rows) =
     sum_bind (first_int env row) (\<lambda>v. sum_bind (version_list env rows) (\<lambda>vs. Inr (v # vs)))"

text \<open>The two queries: make sure of the table, ask, commit, read the answer.\<close>

definition table_query ::
  "('c, 'w) migration_env \<Rightarrow> string \<Rightarrow> string \<Rightarrow> (pg_row list \<Rightarrow> exn + 'a) \<Rightarrow> 'w \<Rightarrow> (exn + 'a) \<times> 'w" where
  "table_query env message sql answer = with_connection (me_pg env) (\<lambda>c w.
     then_do (ensure_migrations_table env c w) (\<lambda>_ w.
       in_work (me_pg env) message (\<lambda>c w.
         then_do (pg_exec (me_pg env) c sql w) (\<lambda>rows w.
         then_do (pg_commit (me_pg env) c w) (\<lambda>_ w. (answer rows, w)))) c w))"

definition applied_versions :: "('c, 'w) migration_env \<Rightarrow> 'w \<Rightarrow> (exn + int list) \<times> 'w" where
  "applied_versions env =
     table_query env ''Failed to query schema_migrations: '' select_versions_sql (version_list env)"

definition current_version :: "('c, 'w) migration_env \<Rightarrow> 'w \<Rightarrow> (exn + int) \<times> 'w" where
  "current_version env =
     table_query env ''Failed to query current version: '' max_version_sql (\<lambda>rows. first_int env (first_row rows))"

section \<open>Applying\<close>

text \<open>The script runs outside any transaction of the runner; then its version is recorded.\<close>

definition apply_migration :: "('c, 'w) migration_env \<Rightarrow> migration \<Rightarrow> 'c \<Rightarrow> 'w \<Rightarrow> (exn + unit) \<times> 'w" where
  "apply_migration env m c w = (case me_exec_plain env c (mg_sql m) w of
      (Inl e, w) \<Rightarrow> (Inl (MigrationError (''Migration '' @ mg_name m @ '' failed: '' @ what e)), w)
    | (Inr _, w) \<Rightarrow>
        in_work (me_pg env) (''Failed to record migration '' @ mg_name m @ '': '') (\<lambda>c w.
          then_do (pg_exec_params (me_pg env) c record_sql [dec_int (mg_version m), mg_name m] w) (\<lambda>_ w.
            pg_commit (me_pg env) c w)) c w)"

fun migrate_loop ::
  "('c, 'w) migration_env \<Rightarrow> int list \<Rightarrow> migration list \<Rightarrow> int \<Rightarrow> 'w \<Rightarrow> (exn + int) \<times> 'w" where
  "migrate_loop env applied [] count w = (Inr count, w)"
| "migrate_loop env applied (m # ms) count w =
     (if mg_version m \<in> set (sort applied) then migrate_loop env applied ms count w
      else then_do (with_connection (me_pg env) (apply_migration env m) w) (\<lambda>_ w.
        migrate_loop env applied ms (count + 1) w))"

definition migrate :: "('c, 'w) migration_env \<Rightarrow> string \<Rightarrow> 'w \<Rightarrow> (exn + int) \<times> 'w" where
  "migrate env dir w = (case discover env dir w of
      Inl e \<Rightarrow> (Inl e, w)
    | Inr found \<Rightarrow> then_do (applied_versions env w) (\<lambda>applied w. migrate_loop env applied found 0 w))"

section \<open>Lemmas\<close>

lemma match_name_Some:
  "match_name f = Some d \<longleftrightarrow>
     (\<exists>body. f = d @ ''_'' @ body @ ''.sql'' \<and> d \<noteq> [] \<and> (\<forall>c\<in>set d. is_digit c)
        \<and> body \<noteq> [] \<and> CHR 0x0A \<notin> set body \<and> CHR 0x0D \<notin> set body)"
proof
  assume a: "match_name f = Some d"
  then obtain c tail where r: "dropWhile is_digit f = c # tail"
    by (auto simp: match_name_def Let_def split: list.splits)
  let ?body = "take (length tail - 4) tail"
  have b: "takeWhile is_digit f = d" "d \<noteq> []" "c = CHR ''_''" "drop (length tail - 4) tail = ''.sql''"
      "?body \<noteq> []" "CHR 0x0A \<notin> set ?body" "CHR 0x0D \<notin> set ?body"
    using a r by (auto simp: match_name_def sql_suffix_def Let_def split: if_splits)
  have "f = takeWhile is_digit f @ dropWhile is_digit f" by simp
  also have "\<dots> = d @ c # ?body @ drop (length tail - 4) tail" using r b(1) by simp
  finally have "f = d @ ''_'' @ ?body @ ''.sql''" using b(3,4) by simp
  moreover have "\<forall>c\<in>set d. is_digit c" using b(1) set_takeWhileD by metis
  ultimately show "\<exists>body. f = d @ ''_'' @ body @ ''.sql'' \<and> d \<noteq> [] \<and> (\<forall>c\<in>set d. is_digit c)
        \<and> body \<noteq> [] \<and> CHR 0x0A \<notin> set body \<and> CHR 0x0D \<notin> set body"
    using b by blast
next
  assume "\<exists>body. f = d @ ''_'' @ body @ ''.sql'' \<and> d \<noteq> [] \<and> (\<forall>c\<in>set d. is_digit c)
        \<and> body \<noteq> [] \<and> CHR 0x0A \<notin> set body \<and> CHR 0x0D \<notin> set body"
  then obtain body where f: "f = d @ ''_'' @ body @ ''.sql''" and d: "d \<noteq> []" "\<forall>c\<in>set d. is_digit c"
    and b: "body \<noteq> []" "CHR 0x0A \<notin> set body" "CHR 0x0D \<notin> set body" by blast
  have u: "\<not> is_digit CHR ''_''" by (simp add: is_digit_def)
  have "takeWhile is_digit f = d" "dropWhile is_digit f = CHR ''_'' # body @ ''.sql''"
    using d(2) u by (simp_all add: f takeWhile_append2 dropWhile_append2)
  then show "match_name f = Some d" using d(1) b by (simp add: match_name_def sql_suffix_def Let_def)
qed

lemma stoll_digits:
  assumes "d \<noteq> []" "\<forall>c\<in>set d. is_digit c"
  shows "stoll d = (if digits_value 0 d < 2 ^ 63 then Inr (int (digits_value 0 d), length d)
                    else Inl (OutOfRange ''stoll''))"
  using strto_scan_digits [OF assms, of "[]"] by (auto simp: stoll_def signed_value_def Let_def)

text \<open>The migration that an entry stands for, and the entries that stop the discovery.\<close>

definition is_migration :: "string \<Rightarrow> dir_entry \<Rightarrow> migration \<Rightarrow> bool" where
  "is_migration dir en m \<longleftrightarrow> de_regular en
     \<and> (\<exists>d body. de_filename en = d @ ''_'' @ body @ ''.sql'' \<and> d \<noteq> [] \<and> (\<forall>c\<in>set d. is_digit c)
          \<and> body \<noteq> [] \<and> CHR 0x0A \<notin> set body \<and> CHR 0x0D \<notin> set body
          \<and> mg_version m = int (digits_value 0 d) \<and> digits_value 0 d < 2 ^ 63 \<and> mg_name m = d @ ''_'' @ body)
     \<and> de_content en = Some (mg_sql m) \<and> mg_sql m \<noteq> [] \<and> mg_path m = dir @ ''/'' @ de_filename en"

lemma read_entry_Some: "read_entry dir en = Inr (Some m) \<longleftrightarrow> is_migration dir en m"
proof
  assume a: "read_entry dir en = Inr (Some m)"
  then obtain d where r: "de_regular en" "match_name (de_filename en) = Some d"
    by (auto simp: read_entry_def split: if_splits option.splits)
  then obtain body where b: "de_filename en = d @ ''_'' @ body @ ''.sql''" "d \<noteq> []" "\<forall>c\<in>set d. is_digit c"
      "body \<noteq> []" "CHR 0x0A \<notin> set body" "CHR 0x0D \<notin> set body"
    by (auto simp: match_name_Some)
  have "stem (de_filename en) = d @ ''_'' @ body" by (simp add: b(1) stem_def)
  then have "mg_version m = int (digits_value 0 d)" "digits_value 0 d < 2 ^ 63" "mg_name m = d @ ''_'' @ body"
      "de_content en = Some (mg_sql m)" "mg_sql m \<noteq> []" "mg_path m = dir @ ''/'' @ de_filename en"
    using a r stoll_digits [OF b(2,3)]
    by (auto simp: read_entry_def sum_bind_Inr_iff Let_def split: if_splits option.splits)
  then show "is_migration dir en m" unfolding is_migration_def using r(1) b by blast
next
  assume "is_migration dir en m"
  then obtain d body where e: "de_regular en" "de_filename en = d @ ''_'' @ body @ ''.sql''" "d \<noteq> []" "\<forall>c\<in>set d. is_digit c"
      "body \<noteq> []" "CHR 0x0A \<notin> set body" "CHR 0x0D \<notin> set body"
    and m: "mg_version m = int (digits_value 0 d)" "digits_value 0 d < 2 ^ 63" "mg_name m = d @ ''_'' @ body"
      "de_content en = Some (mg_sql m)" "mg_sql m \<noteq> []" "mg_path m = dir @ ''/'' @ de_filename en"
    unfolding is_migration_def by blast
  have "match_name (de_filename en) = Some d" using e by (auto simp: match_name_Some)
  moreover have "stem (de_filename en) = d @ ''_'' @ body" by (simp add: e(2) stem_def)
  ultimately show "read_entry dir en = Inr (Some m)"
    using e(1) m stoll_digits [OF e(3,4)] by (simp add: read_entry_def Let_def)
qed

lemma read_entry_Inl:
  assumes "read_entry dir en = Inl e"
  shows "de_regular en \<and> match_name (de_filename en) \<noteq> None
    \<and> (de_content en = None \<or> de_content en = Some [] \<or> (\<exists>m. e = OutOfRange m))"
proof -
  obtain d where r: "de_regular en" "match_name (de_filename en) = Some d"
    using assms by (auto simp: read_entry_def split: if_splits option.splits)
  then have "d \<noteq> []" "\<forall>c\<in>set d. is_digit c" by (auto simp: match_name_Some)
  from stoll_digits [OF this] r assms show ?thesis
    by (auto simp: read_entry_def sum_bind_Inl_iff Let_def split: if_splits option.splits)
qed

lemma read_entries_Inr:
  "read_entries dir ens = Inr ms \<Longrightarrow> set ms = {m. \<exists>en\<in>set ens. is_migration dir en m} \<and> length ms \<le> length ens"
proof (induction ens arbitrary: ms)
  case (Cons en ens)
  then obtain x ms' where x: "read_entry dir en = Inr x" and r: "read_entries dir ens = Inr ms'"
    and ms: "ms = (case x of Some m \<Rightarrow> m # ms' | None \<Rightarrow> ms')"
    by (auto simp: sum_bind_Inr_iff)
  have "is_migration dir en m \<longleftrightarrow> x = Some m" for m using x read_entry_Some [of dir en m] by simp
  then show ?case using Cons.IH [OF r] ms by (cases x) auto
qed simp

lemma read_entries_Inl: "read_entries dir ens = Inl e \<Longrightarrow> \<exists>en\<in>set ens. read_entry dir en = Inl e"
  by (induction ens) (auto simp: sum_bind_Inl_iff)

section \<open>The database\<close>

text \<open>
  What the properties rely on of PostgreSQL: the versions that the table holds, the one that the
  open transaction has inserted, and the scripts that ran. Only a script that succeeds counts as
  run, a commit that fails may or may not have taken effect, and scripts leave the table alone.
\<close>

record db_view =
  dv_applied :: "int set"
  dv_pending :: "int set"
  dv_ran :: "string list"

definition connection_laws :: "('c, 'w) pg_client \<Rightarrow> ('w \<Rightarrow> db_view) \<Rightarrow> bool" where
  "connection_laws pg vw \<longleftrightarrow>
     (\<forall>w. vw (snd (pg_acquire pg w)) = vw w) \<and> (\<forall>c w. vw (pg_release pg c w) = vw w)
     \<and> (\<forall>c w. vw (snd (pg_begin pg c w)) = (vw w)\<lparr>dv_pending := {}\<rparr>)
     \<and> (\<forall>c w. vw (pg_end pg c w) = (vw w)\<lparr>dv_pending := {}\<rparr>)
     \<and> (\<forall>c w. case pg_commit pg c w of
          (Inr _, w') \<Rightarrow> vw w' = (vw w)\<lparr>dv_applied := dv_applied (vw w) \<union> dv_pending (vw w), dv_pending := {}\<rparr>
        | (Inl _, w') \<Rightarrow> dv_ran (vw w') = dv_ran (vw w) \<and> dv_applied (vw w) \<subseteq> dv_applied (vw w')
            \<and> dv_applied (vw w') \<subseteq> dv_applied (vw w) \<union> dv_pending (vw w))"

definition statement_laws :: "('c, 'w) migration_env \<Rightarrow> ('w \<Rightarrow> db_view) \<Rightarrow> bool" where
  "statement_laws env vw \<longleftrightarrow>
     (\<forall>c w. vw (snd (pg_exec (me_pg env) c create_table_sql w)) = vw w)
     \<and> (\<forall>c w. case pg_exec (me_pg env) c select_versions_sql w of
          (Inr rows, w') \<Rightarrow> vw w' = vw w \<and> (\<exists>vs. version_list env rows = Inr vs \<and> set vs = dv_applied (vw w))
        | (Inl _, w') \<Rightarrow> vw w' = vw w)
     \<and> (\<forall>c w v n. case pg_exec_params (me_pg env) c record_sql [dec_int v, n] w of
          (Inr _, w') \<Rightarrow> vw w' = (vw w)\<lparr>dv_pending := insert v (dv_pending (vw w))\<rparr>
        | (Inl _, w') \<Rightarrow> vw w' = vw w)
     \<and> (\<forall>c w sql. case me_exec_plain env c sql w of
          (Inr _, w') \<Rightarrow> vw w' = (vw w)\<lparr>dv_ran := dv_ran (vw w) @ [sql]\<rparr>
        | (Inl _, w') \<Rightarrow> vw w' = vw w)"

lemma connection_lawsD:
  assumes "connection_laws pg vw"
  shows "pg_acquire pg w = (r, w') \<Longrightarrow> vw w' = vw w" "vw (pg_release pg c w) = vw w"
    "pg_begin pg c w = (r', w') \<Longrightarrow> vw w' = (vw w)\<lparr>dv_pending := {}\<rparr>" "vw (pg_end pg c w) = (vw w)\<lparr>dv_pending := {}\<rparr>"
    "pg_commit pg c w = (Inr u, w') \<Longrightarrow> vw w' = (vw w)\<lparr>dv_applied := dv_applied (vw w) \<union> dv_pending (vw w), dv_pending := {}\<rparr>"
    "pg_commit pg c w = (Inl e, w') \<Longrightarrow> dv_ran (vw w') = dv_ran (vw w) \<and> dv_applied (vw w) \<subseteq> dv_applied (vw w')
            \<and> dv_applied (vw w') \<subseteq> dv_applied (vw w) \<union> dv_pending (vw w)"
  using assms unfolding connection_laws_def by (metis snd_conv, blast, metis snd_conv, blast)
    (use assms in \<open>auto simp: connection_laws_def dest!: spec [of _ c] spec [of _ w]\<close>)

lemma statement_lawsD:
  assumes "statement_laws env vw"
  shows "pg_exec (me_pg env) c create_table_sql w = (r, w') \<Longrightarrow> vw w' = vw w"
    "pg_exec (me_pg env) c select_versions_sql w = (r, w') \<Longrightarrow> vw w' = vw w"
    "pg_exec (me_pg env) c select_versions_sql w = (Inr rows, w') \<Longrightarrow>
       \<exists>vs. version_list env rows = Inr vs \<and> set vs = dv_applied (vw w)"
    "pg_exec_params (me_pg env) c record_sql [dec_int v, n] w = (Inr rows, w') \<Longrightarrow>
       vw w' = (vw w)\<lparr>dv_pending := insert v (dv_pending (vw w))\<rparr>"
    "pg_exec_params (me_pg env) c record_sql [dec_int v, n] w = (Inl e, w') \<Longrightarrow> vw w' = vw w"
    "me_exec_plain env c sql w = (Inr u, w') \<Longrightarrow> vw w' = (vw w)\<lparr>dv_ran := dv_ran (vw w) @ [sql]\<rparr>"
    "me_exec_plain env c sql w = (Inl e, w') \<Longrightarrow> vw w' = vw w"
proof -
  note a = assms [unfolded statement_laws_def]
  show "pg_exec (me_pg env) c create_table_sql w = (r, w') \<Longrightarrow> vw w' = vw w" using a by (metis snd_conv)
  show "pg_exec (me_pg env) c select_versions_sql w = (r, w') \<Longrightarrow> vw w' = vw w"
    using conjunct1 [OF conjunct2 [OF a]] by (cases r) (auto dest!: spec [of _ c] spec [of _ w])
  show "pg_exec (me_pg env) c select_versions_sql w = (Inr rows, w') \<Longrightarrow>
       \<exists>vs. version_list env rows = Inr vs \<and> set vs = dv_applied (vw w)"
    using conjunct1 [OF conjunct2 [OF a]] by (auto dest!: spec [of _ c] spec [of _ w])
  show "pg_exec_params (me_pg env) c record_sql [dec_int v, n] w = (Inr rows, w') \<Longrightarrow>
       vw w' = (vw w)\<lparr>dv_pending := insert v (dv_pending (vw w))\<rparr>"
    "pg_exec_params (me_pg env) c record_sql [dec_int v, n] w = (Inl e, w') \<Longrightarrow> vw w' = vw w"
    using conjunct1 [OF conjunct2 [OF conjunct2 [OF a]]]
    by (auto dest!: spec [of _ c] spec [of _ w] spec [of _ v] spec [of _ n])
  show "me_exec_plain env c sql w = (Inr u, w') \<Longrightarrow> vw w' = (vw w)\<lparr>dv_ran := dv_ran (vw w) @ [sql]\<rparr>"
    "me_exec_plain env c sql w = (Inl e, w') \<Longrightarrow> vw w' = vw w"
    using conjunct2 [OF conjunct2 [OF conjunct2 [OF a]]]
    by (auto dest!: spec [of _ c] spec [of _ w] spec [of _ sql])
qed

text \<open>What is committed: everything but the pending version.\<close>

definition settled :: "db_view \<Rightarrow> int set \<times> string list" where
  "settled v = (dv_applied v, dv_ran v)"

lemma settled_pending [simp]: "settled (v\<lparr>dv_pending := x\<rparr>) = settled v"
  by (simp add: settled_def)

lemma settled_simps: "settled v = settled v' \<longleftrightarrow> dv_applied v = dv_applied v' \<and> dv_ran v = dv_ran v'"
  by (simp add: settled_def)

lemma in_work_Inr:
  "in_work pg msg body c w = (Inr x, w') \<longleftrightarrow>
     (\<exists>w1 w2. pg_begin pg c w = (Inr (), w1) \<and> body c w1 = (Inr x, w2) \<and> w' = pg_end pg c w2)"
  by (auto simp: in_work_def then_do_def split: prod.splits sum.splits)

lemma in_work_settled:
  assumes "connection_laws pg vw" "in_work pg msg body c w = (r, w')"
    and "\<And>w1 r w2. dv_pending (vw w1) = {} \<Longrightarrow> body c w1 = (r, w2) \<Longrightarrow> settled (vw w2) = settled (vw w1)"
  shows "settled (vw w') = settled (vw w)"
proof -
  note cl = connection_lawsD [OF assms(1)]
  obtain r1 w1 where b: "pg_begin pg c w = (r1, w1)" by (rule prod.exhaust)
  obtain r2 w2 where x: "body c w1 = (r2, w2)" by (rule prod.exhaust)
  have "settled (vw w2) = settled (vw w)" using assms(3) [OF _ x] cl(3) [OF b] by simp
  then show ?thesis
    using assms(2) b x cl(3) [OF b] by (cases r1; cases r2) (auto simp: in_work_def cl(4))
qed

lemma commit_settled:
  assumes "connection_laws pg vw" "dv_pending (vw w) = {}" "pg_commit pg c w = (r, w')"
  shows "settled (vw w') = settled (vw w)"
  using assms connection_lawsD(5,6) [OF assms(1), of c w _ w'] by (cases r) (auto simp: settled_simps)

text \<open>A statement that changes nothing, and a commit.\<close>

lemma query_settled:
  assumes "connection_laws pg vw" "\<And>w r w'. pg_exec pg c sql w = (r, w') \<Longrightarrow> vw w' = vw w"
    and "dv_pending (vw w) = {}"
    and "then_do (pg_exec pg c sql w) (\<lambda>rows w. then_do (pg_commit pg c w) (\<lambda>u w. (answer rows u, w))) = (r, w')"
  shows "settled (vw w') = settled (vw w)"
proof -
  obtain r1 w1 where x: "pg_exec pg c sql w = (r1, w1)" by (rule prod.exhaust)
  obtain r2 w2 where k: "pg_commit pg c w1 = (r2, w2)" by (rule prod.exhaust)
  have "vw w1 = vw w" by (rule assms(2) [OF x])
  moreover from this have "settled (vw w2) = settled (vw w)"
    using commit_settled [OF assms(1) _ k] assms(3) by simp
  ultimately show ?thesis using assms(4) x k by (cases r1; cases r2) auto
qed

lemma then_do_return: "then_do m (\<lambda>u w. (Inr u, w)) = m"
  by (auto simp: then_do_def split: prod.split sum.split)

lemma ensure_settled:
  assumes "connection_laws (me_pg env) vw" "statement_laws env vw" "ensure_migrations_table env c w = (r, w')"
  shows "settled (vw w') = settled (vw w)"
proof (rule in_work_settled [OF assms(1) assms(3) [unfolded ensure_migrations_table_def]])
  fix w1 r w2
  assume p: "dv_pending (vw w1) = {}"
    and x: "then_do (pg_exec (me_pg env) c create_table_sql w1) (\<lambda>_ w. pg_commit (me_pg env) c w) = (r, w2)"
  then have x': "then_do (pg_exec (me_pg env) c create_table_sql w1)
      (\<lambda>rows w. then_do (pg_commit (me_pg env) c w) (\<lambda>u w. (Inr u, w))) = (r, w2)"
    by (simp only: then_do_return)
  show "settled (vw w2) = settled (vw w1)"
    by (rule query_settled [OF assms(1) _ p x']) (rule statement_lawsD(1) [OF assms(2)])
qed

lemma applied_versions_settled:
  assumes "connection_laws (me_pg env) vw" "statement_laws env vw" "applied_versions env w = (r, w')"
  shows "settled (vw w') = settled (vw w)" "r = Inr vs \<Longrightarrow> set vs = dv_applied (vw w)"
proof -
  note cl = connection_lawsD [OF assms(1)] and sl = statement_lawsD [OF assms(2)]
  let ?pg = "me_pg env"
  let ?body = "\<lambda>c w. then_do (pg_exec ?pg c select_versions_sql w) (\<lambda>rows w.
         then_do (pg_commit ?pg c w) (\<lambda>_ w. (version_list env rows, w)))"
  let ?msg = "''Failed to query schema_migrations: ''"
  obtain r0 w0 where a: "pg_acquire ?pg w = (r0, w0)" by (rule prod.exhaust)
  have "settled (vw w') = settled (vw w) \<and> (\<forall>vs. r = Inr vs \<longrightarrow> set vs = dv_applied (vw w))"
  proof (cases r0)
    case (Inl e)
    then show ?thesis
      using assms(3) a cl(1) [OF a] by (auto simp: applied_versions_def table_query_def with_connection_def)
  next
    case (Inr c)
    obtain r1 w1 where n: "ensure_migrations_table env c w0 = (r1, w1)" by (rule prod.exhaust)
    have s1: "settled (vw w1) = settled (vw w)" using ensure_settled [OF assms(1,2) n] cl(1) [OF a] by simp
    obtain r2 w2 where q: "in_work ?pg ?msg ?body c w1 = (r2, w2)" by (rule prod.exhaust)
    have s2: "settled (vw w2) = settled (vw w1)"
      by (rule in_work_settled [OF assms(1) q], rule query_settled [OF assms(1) sl(2)]) assumption+
    have "set vs = dv_applied (vw w)" if v: "r2 = Inr vs" for vs
    proof -
      obtain w3 w4 where b: "pg_begin ?pg c w1 = (Inr (), w3)" and x: "?body c w3 = (Inr vs, w4)"
        using q [unfolded v in_work_Inr] by blast
      obtain rows w5 where e: "pg_exec ?pg c select_versions_sql w3 = (Inr rows, w5)" "version_list env rows = Inr vs"
        using x by (auto simp: then_do_def split: prod.splits sum.splits)
      show ?thesis using sl(3) [OF e(1)] e(2) cl(3) [OF b] s1 by (auto simp: settled_simps)
    qed
    moreover have "r = (case r1 of Inl e \<Rightarrow> Inl e | Inr _ \<Rightarrow> r2)"
      "w' = pg_release ?pg c (case r1 of Inl e \<Rightarrow> w1 | Inr _ \<Rightarrow> w2)"
      using assms(3) a Inr n q
      by (auto simp: applied_versions_def table_query_def with_connection_def split: sum.splits)
    ultimately show ?thesis using s1 s2 by (cases r1) (simp_all add: cl(2))
  qed
  then show "settled (vw w') = settled (vw w)" "r = Inr vs \<Longrightarrow> set vs = dv_applied (vw w)" by blast+
qed

text \<open>One migration: the script did not run, or it ran and its version is recorded or in doubt.\<close>

lemma apply_settled:
  assumes "connection_laws (me_pg env) vw" "statement_laws env vw"
    and "with_connection (me_pg env) (apply_migration env m) w = (r, w')"
  shows "r = Inr u \<Longrightarrow> settled (vw w') = (insert (mg_version m) (dv_applied (vw w)), dv_ran (vw w) @ [mg_sql m])"
    and "r = Inl e \<Longrightarrow> settled (vw w') = settled (vw w)
      \<or> dv_ran (vw w') = dv_ran (vw w) @ [mg_sql m] \<and> dv_applied (vw w) \<subseteq> dv_applied (vw w')
        \<and> dv_applied (vw w') \<subseteq> insert (mg_version m) (dv_applied (vw w))"
proof -
  note cl = connection_lawsD [OF assms(1)] and sl = statement_lawsD [OF assms(2)]
  let ?pg = "me_pg env" and ?args = "[dec_int (mg_version m), mg_name m]"
  let ?done = "settled (vw w') = (insert (mg_version m) (dv_applied (vw w)), dv_ran (vw w) @ [mg_sql m])"
    and ?half = "settled (vw w') = settled (vw w)
      \<or> dv_ran (vw w') = dv_ran (vw w) @ [mg_sql m] \<and> dv_applied (vw w) \<subseteq> dv_applied (vw w')
        \<and> dv_applied (vw w') \<subseteq> insert (mg_version m) (dv_applied (vw w))"
  obtain r0 w0 where a: "pg_acquire ?pg w = (r0, w0)" by (rule prod.exhaust)
  have "(\<forall>u. r = Inr u \<longrightarrow> ?done) \<and> (\<forall>e. r = Inl e \<longrightarrow> ?half)"
  proof (cases r0)
    case (Inl e)
    then show ?thesis using assms(3) a cl(1) [OF a] by (auto simp: with_connection_def)
  next
    case (Inr c)
    obtain r1 w1 where s: "me_exec_plain env c (mg_sql m) w0 = (r1, w1)" by (rule prod.exhaust)
    obtain r2 w2 where b: "pg_begin ?pg c w1 = (r2, w2)" by (rule prod.exhaust)
    obtain r3 w3 where x: "pg_exec_params ?pg c record_sql ?args w2 = (r3, w3)" by (rule prod.exhaust)
    obtain r4 w4 where k: "pg_commit ?pg c w3 = (r4, w4)" by (rule prod.exhaust)
    show ?thesis
    proof (cases r1)
      case (Inl e)
      then show ?thesis
        using assms(3) a Inr s cl(1) [OF a] sl(7) [of c "mg_sql m" w0 e w1]
        by (auto simp: with_connection_def apply_migration_def cl(2))
    next
      case ran: (Inr u)
      have v1: "vw w1 = (vw w)\<lparr>dv_ran := dv_ran (vw w) @ [mg_sql m]\<rparr>"
        using sl(6) [of c "mg_sql m" w0 u w1] s ran cl(1) [OF a] by simp
      have v2: "vw w2 = (vw w1)\<lparr>dv_pending := {}\<rparr>" by (rule cl(3) [OF b])
      have v3: "vw w3 = (case r3 of Inr _ \<Rightarrow> (vw w1)\<lparr>dv_pending := {mg_version m}\<rparr> | Inl _ \<Rightarrow> (vw w1)\<lparr>dv_pending := {}\<rparr>)"
        using x v2 sl(4,5) [of c "mg_version m" "mg_name m" w2 _ w3] by (cases r3) auto
      have v4: "\<forall>y z. r3 = Inr y \<and> r4 = Inr z \<longrightarrow> settled (vw w4) = (insert (mg_version m) (dv_applied (vw w)), dv_ran (vw w) @ [mg_sql m])"
        using k v3 v1 cl(5) [of c w3 _ w4] by (auto simp: settled_def)
      have d4: "\<forall>y z. r3 = Inr y \<and> r4 = Inl z \<longrightarrow> dv_ran (vw w4) = dv_ran (vw w) @ [mg_sql m]
          \<and> dv_applied (vw w) \<subseteq> dv_applied (vw w4) \<and> dv_applied (vw w4) \<subseteq> insert (mg_version m) (dv_applied (vw w))"
        using k v3 v1 cl(6) [of c w3 _ w4] by auto
      show ?thesis
        using assms(3) a Inr s ran b x k v1 v2 v3 v4 d4
        by (cases r2; cases r3; cases r4)
           (auto simp: with_connection_def apply_migration_def in_work_def cl(2,4))
    qed
  qed
  then show "r = Inr u \<Longrightarrow> ?done" "r = Inl e \<Longrightarrow> ?half" by blast+
qed

definition todo :: "int set \<Rightarrow> migration list \<Rightarrow> migration list" where
  "todo applied ms = filter (\<lambda>m. mg_version m \<notin> applied) ms"

text \<open>The versions recorded behind one more script lie between those of the scripts that ended and those that began.\<close>

lemma recorded_Cons:
  assumes "A1 = insert (f m) A" "A1 \<union> f ` set (take (k - 1) ts) \<subseteq> A'" "A' \<subseteq> A1 \<union> f ` set (take k ts)"
  shows "A \<union> f ` set (take (Suc k - 1) (m # ts)) \<subseteq> A'" "A' \<subseteq> A \<union> f ` set (take (Suc k) (m # ts))"
proof -
  have "f ` set (take k (m # ts)) \<subseteq> insert (f m) (f ` set (take (k - 1) ts))" by (cases k) auto
  then show "A \<union> f ` set (take (Suc k - 1) (m # ts)) \<subseteq> A'" using assms(1,2) by (simp only: diff_Suc_1) blast
  show "A' \<subseteq> A \<union> f ` set (take (Suc k) (m # ts))" using assms(1,3) by auto
qed

lemma migrate_loop_result:
  assumes "connection_laws (me_pg env) vw" "statement_laws env vw"
  shows "migrate_loop env applied ms n w = (r, w') \<Longrightarrow>
    \<exists>k \<le> length (todo (set applied) ms).
      dv_ran (vw w') = dv_ran (vw w) @ map mg_sql (take k (todo (set applied) ms))
      \<and> dv_applied (vw w) \<union> mg_version ` set (take (k - 1) (todo (set applied) ms)) \<subseteq> dv_applied (vw w')
      \<and> dv_applied (vw w') \<subseteq> dv_applied (vw w) \<union> mg_version ` set (take k (todo (set applied) ms))
      \<and> (\<forall>x. r = Inr x \<longrightarrow> k = length (todo (set applied) ms) \<and> x = n + int k
           \<and> dv_applied (vw w') = dv_applied (vw w) \<union> mg_version ` set (todo (set applied) ms))"
proof (induction ms arbitrary: n w)
  case Nil
  then show ?case by (auto simp: todo_def)
next
  case (Cons m ms)
  show ?case
  proof (cases "mg_version m \<in> set applied")
    case True
    then show ?thesis using Cons by (simp add: todo_def)
  next
    case False
    let ?t = "todo (set applied) ms"
    have t: "todo (set applied) (m # ms) = m # ?t" using False by (simp add: todo_def)
    obtain r1 w1 where a: "with_connection (me_pg env) (apply_migration env m) w = (r1, w1)" by (rule prod.exhaust)
    show ?thesis
    proof (cases r1)
      case (Inl e)
      then have w1: "r = Inl e" "w' = w1" using Cons.prems False a by auto
      from apply_settled(2) [OF assms a Inl] show ?thesis
      proof
        assume "settled (vw w1) = settled (vw w)"
        then show ?thesis unfolding t by (intro exI [of _ 0]) (simp add: w1 settled_simps)
      next
        assume "dv_ran (vw w1) = dv_ran (vw w) @ [mg_sql m] \<and> dv_applied (vw w) \<subseteq> dv_applied (vw w1)
          \<and> dv_applied (vw w1) \<subseteq> insert (mg_version m) (dv_applied (vw w))"
        then show ?thesis unfolding t by (intro exI [of _ 1]) (simp add: w1)
      qed
    next
      case (Inr u)
      then have l: "migrate_loop env applied ms (n + 1) w1 = (r, w')" using Cons.prems False a by simp
      have s: "dv_applied (vw w1) = insert (mg_version m) (dv_applied (vw w))"
          "dv_ran (vw w1) = dv_ran (vw w) @ [mg_sql m]"
        using apply_settled(1) [OF assms a Inr] by (simp_all add: settled_def)
      obtain k where k: "k \<le> length ?t" "dv_ran (vw w') = dv_ran (vw w1) @ map mg_sql (take k ?t)"
          "dv_applied (vw w1) \<union> mg_version ` set (take (k - 1) ?t) \<subseteq> dv_applied (vw w')"
          "dv_applied (vw w') \<subseteq> dv_applied (vw w1) \<union> mg_version ` set (take k ?t)"
          "\<forall>x. r = Inr x \<longrightarrow> k = length ?t \<and> x = n + 1 + int k
             \<and> dv_applied (vw w') = dv_applied (vw w1) \<union> mg_version ` set ?t"
        using Cons.IH [OF l] by (elim exE conjE) (rule that; assumption)
      note low_up = recorded_Cons [of _ mg_version m, OF s(1) k(3,4)]
      have all: "\<forall>x. r = Inr x \<longrightarrow> Suc k = length (m # ?t) \<and> x = n + int (Suc k)
           \<and> dv_applied (vw w') = dv_applied (vw w) \<union> mg_version ` set (m # ?t)"
        using k(5) s(1) by (cases r) simp_all
      have ran: "dv_ran (vw w') = dv_ran (vw w) @ map mg_sql (take (Suc k) (m # ?t))" using k(2) s(2) by simp
      have "Suc k \<le> length (m # ?t)" using k(1) by simp
      with ran low_up all show ?thesis unfolding t by (intro exI [of _ "Suc k"] conjI)
    qed
  qed
qed

lemma discover_stable: "me_entries env dir w = me_entries env dir w' \<Longrightarrow> discover env dir w = discover env dir w'"
  by (simp add: discover_def)

lemma migrate_result:
  assumes "connection_laws (me_pg env) vw" "statement_laws env vw"
    and "discover env dir w = Inr found" "migrate env dir w = (r, w')"
  shows "\<exists>k \<le> length (todo (dv_applied (vw w)) found).
      dv_ran (vw w') = dv_ran (vw w) @ map mg_sql (take k (todo (dv_applied (vw w)) found))
      \<and> dv_applied (vw w) \<union> mg_version ` set (take (k - 1) (todo (dv_applied (vw w)) found)) \<subseteq> dv_applied (vw w')
      \<and> dv_applied (vw w') \<subseteq> dv_applied (vw w) \<union> mg_version ` set (take k (todo (dv_applied (vw w)) found))
      \<and> (\<forall>n. r = Inr n \<longrightarrow> k = length (todo (dv_applied (vw w)) found) \<and> n = int k
           \<and> dv_applied (vw w') = dv_applied (vw w) \<union> mg_version ` set (todo (dv_applied (vw w)) found))"
proof -
  obtain r1 w1 where a: "applied_versions env w = (r1, w1)" by (rule prod.exhaust)
  have s: "dv_applied (vw w1) = dv_applied (vw w)" "dv_ran (vw w1) = dv_ran (vw w)"
    using applied_versions_settled(1) [OF assms(1,2) a] by (simp_all add: settled_simps)
  show ?thesis
  proof (cases r1)
    case (Inl e)
    then show ?thesis using assms(3,4) a s by (intro exI [of _ 0]) (auto simp: migrate_def)
  next
    case (Inr vs)
    then have v: "set vs = dv_applied (vw w)" by (rule applied_versions_settled(2) [OF assms(1,2) a])
    have "migrate_loop env vs found 0 w1 = (r, w')" using assms(3,4) a Inr by (simp add: migrate_def)
    from migrate_loop_result [OF assms(1,2) this] show ?thesis by (simp add: v s)
  qed
qed

section \<open>Properties\<close>

text \<open>
  Discovery: the migrations come in ascending order of version, one for each regular file whose
  name is digits, an underscore, a name and \<open>.sql\<close>, with the number of its digits as version, the
  name without \<open>.sql\<close> and the whole content; nothing else is taken. It fails only for such a file that is
  empty, cannot be opened, or whose number does not fit \<open>long long\<close>.
\<close>

theorem discover_exact:
  "case discover env dir w of
     Inr ms \<Rightarrow> sorted (map mg_version ms)
       \<and> (\<forall>m. m \<in> set ms \<longleftrightarrow> (\<exists>en \<in> set (me_entries env dir w). de_regular en
            \<and> (\<exists>d body. de_filename en = d @ ''_'' @ body @ ''.sql'' \<and> d \<noteq> [] \<and> list_all is_digit d
                 \<and> body \<noteq> [] \<and> CHR 0x0A \<notin> set body \<and> CHR 0x0D \<notin> set body
                 \<and> mg_version m = int (digits_value 0 d) \<and> digits_value 0 d < 2 ^ 63 \<and> mg_name m = d @ ''_'' @ body)
            \<and> de_content en = Some (mg_sql m) \<and> mg_sql m \<noteq> [] \<and> mg_path m = dir @ ''/'' @ de_filename en))
   | Inl e \<Rightarrow> \<exists>en \<in> set (me_entries env dir w). de_regular en \<and> match_name (de_filename en) \<noteq> None
       \<and> (de_content en = None \<or> de_content en = Some [] \<or> (\<exists>m. e = OutOfRange m))"
proof (cases "read_entries dir (me_entries env dir w)")
  case (Inl e)
  then show ?thesis using read_entries_Inl [OF Inl] read_entry_Inl by (fastforce simp: discover_def)
next
  case (Inr ms)
  have "set ms = {m. \<exists>en\<in>set (me_entries env dir w). is_migration dir en m}"
    using read_entries_Inr [OF Inr] by blast
  then show ?thesis by (simp add: discover_def Inr is_migration_def list_all_iff)
qed

text \<open>A directory and a database in memory.\<close>

record memory_db =
  md_applied :: "int list"
  md_pending :: "int list"
  md_ran :: "string list"

definition memory_view :: "memory_db \<Rightarrow> db_view" where
  "memory_view w = \<lparr>dv_applied = set (md_applied w), dv_pending = set (md_pending w), dv_ran = md_ran w\<rparr>"

definition read_int :: "string \<Rightarrow> int" where
  "read_int s = (if hd s = CHR ''-'' then - int (digits_value 0 (tl s)) else int (digits_value 0 s))"

definition memory_env :: "dir_entry list \<Rightarrow> (unit, memory_db) migration_env" where
  "memory_env entries = \<lparr>
     me_pg = \<lparr>pg_acquire = (\<lambda>w. (Inr (), w)), pg_begin = (\<lambda>_ w. (Inr (), w\<lparr>md_pending := []\<rparr>)),
       pg_exec_params = (\<lambda>_ _ args w. (Inr [], w\<lparr>md_pending := read_int (hd args) # md_pending w\<rparr>)),
       pg_exec = (\<lambda>_ sql w. (Inr (if sql = select_versions_sql
                    then map (\<lambda>v. [(''version'', Some (dec_int v))]) (md_applied w) else []), w)),
       pg_quote = (\<lambda>_. id),
       pg_commit = (\<lambda>_ w. (Inr (), w\<lparr>md_applied := md_pending w @ md_applied w, md_pending := []\<rparr>)),
       pg_end = (\<lambda>_ w. w\<lparr>md_pending := []\<rparr>), pg_release = (\<lambda>_ w. w)\<rparr>,
     me_exec_plain = (\<lambda>_ sql w. (Inr (), w\<lparr>md_ran := md_ran w @ [sql]\<rparr>)),
     me_as_int64 = (\<lambda>s. Inr (read_int s)), me_exists = (\<lambda>_ _. True), me_entries = (\<lambda>_ _. entries)\<rparr>"

lemma read_int_dec [simp]: "read_int (dec_int i) = i"
proof -
  have "hd (dec_nat n) \<noteq> CHR ''-''" for n
    using dec_nat_digits [of "hd (dec_nat n)" n] by (auto simp: is_digit_def)
  then show ?thesis by (simp add: read_int_def dec_int_def digits_value_dec_nat)
qed

lemma memory_laws:
  "connection_laws (me_pg (memory_env entries)) memory_view" "statement_laws (memory_env entries) memory_view"
proof -
  have v: "version_list (memory_env entries) (map (\<lambda>v. [(''version'', Some (dec_int v))]) vs) = Inr vs" for vs
    by (induction vs) (simp_all add: first_int_def memory_env_def)
  show "connection_laws (me_pg (memory_env entries)) memory_view"
    by (auto simp: connection_laws_def memory_env_def memory_view_def)
  have "create_table_sql \<noteq> select_versions_sql" by (simp add: create_table_sql_def select_versions_sql_def)
  then show "statement_laws (memory_env entries) memory_view"
    using v by (simp add: statement_laws_def) (simp add: memory_env_def memory_view_def)
qed

definition two_scripts :: "dir_entry list" where
  "two_scripts = [\<lparr>de_regular = True, de_filename = ''10_b.sql'', de_content = Some ''B''\<rparr>,
     \<lparr>de_regular = True, de_filename = ''2_a.sql'', de_content = Some ''A''\<rparr>]"

definition empty_db :: memory_db where
  "empty_db = \<lparr>md_applied = [], md_pending = [], md_ran = []\<rparr>"

lemma discover_two:
  "discover (memory_env two_scripts) dir w = Inr
     [\<lparr>mg_version = 2, mg_name = ''2_a'', mg_sql = ''A'', mg_path = dir @ ''/2_a.sql''\<rparr>,
      \<lparr>mg_version = 10, mg_name = ''10_b'', mg_sql = ''B'', mg_path = dir @ ''/10_b.sql''\<rparr>]"
proof -
  have m: "match_name ''10_b.sql'' = Some ''10''" "match_name ''2_a.sql'' = Some ''2''"
    "stoll ''10'' = Inr (10, 2)" "stoll ''2'' = Inr (2, 1)" "stem ''10_b.sql'' = ''10_b''" "stem ''2_a.sql'' = ''2_a''"
    by code_simp+
  show ?thesis by (simp add: discover_def memory_env_def two_scripts_def read_entry_def m Let_def)
qed


lemma memory_applied:
  "md_pending w = [] \<Longrightarrow> applied_versions (memory_env es) w = (Inr (md_applied w), w)"
proof -
  have v: "version_list (memory_env es) (map (\<lambda>v. [(''version'', Some (dec_int v))]) vs) = Inr vs" for vs
    by (induction vs) (simp_all add: first_int_def memory_env_def)
  have "create_table_sql \<noteq> select_versions_sql" by (simp add: create_table_sql_def select_versions_sql_def)
  then show "md_pending w = [] \<Longrightarrow> applied_versions (memory_env es) w = (Inr (md_applied w), w)"
    using v by (simp add: applied_versions_def table_query_def with_connection_def ensure_migrations_table_def in_work_def)
      (simp add: memory_env_def)
qed

lemma memory_apply:
  "with_connection (me_pg (memory_env es)) (apply_migration (memory_env es) m) w
     = (Inr (), w\<lparr>md_applied := mg_version m # md_applied w, md_pending := [], md_ran := md_ran w @ [mg_sql m]\<rparr>)"
  by (simp add: with_connection_def apply_migration_def in_work_def memory_env_def)

lemma memory_loop:
  "md_pending w = [] \<Longrightarrow> migrate_loop (memory_env es) applied ms n w =
     (Inr (n + int (length (todo (set applied) ms))),
      w\<lparr>md_applied := rev (map mg_version (todo (set applied) ms)) @ md_applied w,
        md_ran := md_ran w @ map mg_sql (todo (set applied) ms)\<rparr>)"
  by (induction ms arbitrary: n w) (simp_all add: todo_def memory_apply)

lemma memory_migrate:
  assumes "discover (memory_env es) dir w = Inr ms" "md_pending w = []"
  shows "migrate (memory_env es) dir w = (Inr (int (length (todo (set (md_applied w)) ms))),
      w\<lparr>md_applied := rev (map mg_version (todo (set (md_applied w)) ms)) @ md_applied w,
        md_ran := md_ran w @ map mg_sql (todo (set (md_applied w)) ms)\<rparr>)"
  using assms by (simp add: migrate_def memory_applied memory_loop)

lemma migrate_two:
  "migrate (memory_env two_scripts) ''d'' empty_db
     = (Inr 2, \<lparr>md_applied = [10, 2], md_pending = [], md_ran = [''A'', ''B'']\<rparr>)"
  using memory_migrate [OF discover_two, of empty_db "''d''"] by (simp add: empty_db_def todo_def)


text \<open>
  Migrating is idempotent: after a successful run, with the directory unchanged, another run that
  succeeds applies nothing, runs no script, records nothing and returns 0.
\<close>

theorem migrate_idempotent:
  assumes "connection_laws (me_pg env) vw" "statement_laws env vw"
    and "migrate env dir w = (Inr n, w1)" "me_entries env dir w1 = me_entries env dir w"
    and "migrate env dir w1 = (Inr n', w2)"
  shows "n' = 0 \<and> dv_ran (vw w2) = dv_ran (vw w1) \<and> dv_applied (vw w2) = dv_applied (vw w1)"
proof -
  obtain found where d: "discover env dir w = Inr found"
    using assms(3) by (cases "discover env dir w") (auto simp: migrate_def)
  have d1: "discover env dir w1 = Inr found" using discover_stable [OF assms(4)] d by simp
  have "dv_applied (vw w1) = dv_applied (vw w) \<union> mg_version ` set (todo (dv_applied (vw w)) found)"
    using migrate_result [OF assms(1,2) d assms(3)] by blast
  then have "\<forall>m\<in>set found. mg_version m \<in> dv_applied (vw w1)" by (auto simp: todo_def)
  then have "todo (dv_applied (vw w1)) found = []" by (simp add: todo_def filter_empty_conv)
  with migrate_result [OF assms(1,2) d1 assms(5)] show ?thesis by auto
qed

theorem migrate_idempotent_witness:
  "\<exists>w1. migrate (memory_env two_scripts) ''d'' empty_db = (Inr 2, w1)
     \<and> (\<forall>n w2. migrate (memory_env two_scripts) ''d'' w1 = (Inr n, w2) \<longrightarrow> n = 0)"
proof -
  have e: "me_entries (memory_env two_scripts) ''d'' w = me_entries (memory_env two_scripts) ''d'' w'" for w w'
    by (simp add: memory_env_def)
  show ?thesis using migrate_two migrate_idempotent [OF memory_laws migrate_two e] by blast
qed

text \<open>Two scripts whose numbers have the same value.\<close>

definition same_number :: "dir_entry list" where
  "same_number = [\<lparr>de_regular = True, de_filename = ''7_a.sql'', de_content = Some ''A''\<rparr>,
     \<lparr>de_regular = True, de_filename = ''007_b.sql'', de_content = Some ''B''\<rparr>]"

lemma discover_same:
  "discover (memory_env same_number) dir w = Inr
     [\<lparr>mg_version = 7, mg_name = ''7_a'', mg_sql = ''A'', mg_path = dir @ ''/7_a.sql''\<rparr>,
      \<lparr>mg_version = 7, mg_name = ''007_b'', mg_sql = ''B'', mg_path = dir @ ''/007_b.sql''\<rparr>]"
proof -
  have m: "match_name ''7_a.sql'' = Some ''7''" "match_name ''007_b.sql'' = Some ''007''"
    "stoll ''7'' = Inr (7, 1)" "stoll ''007'' = Inr (7, 3)" "stem ''7_a.sql'' = ''7_a''" "stem ''007_b.sql'' = ''007_b''"
    by code_simp+
  show ?thesis by (simp add: discover_def memory_env_def same_number_def read_entry_def m Let_def)
qed


end
