(* ===== verification/PgPool.thy ===== *)
theory PgPool
  imports Prelude "HOL-Library.Multiset"
begin

text \<open>
  The pool of PostgreSQL connections, \<open>include/corvus/db/pg_pool.h\<close> and \<open>src/db/pg_pool.cpp\<close>.
  A \<open>pqxx::connection\<close> is a handle; opening one and asking whether it is open are the parameter
  \<open>pg_driver\<close>. The pool's state is what its mutex protects. \<open>acquire\<close> gives up the mutex only while it
  waits, so it is modelled by the loop between two waits, whose outcome is a connection, an
  exception, or a wait; a concurrent run is a sequence of such steps of any number of threads.
  Counters are \<open>std::size_t\<close>, 64-bit words.
\<close>

record pool_config =
  connection_string :: string
  min_connections :: "64 word"
  max_connections :: "64 word"
  acquire_timeout_ms :: int

record pg_pool =
  pp_config :: pool_config
  pp_idle :: "nat list"
  pp_total :: "64 word"

record 'w pg_driver =
  pd_open :: "string \<Rightarrow> 'w \<Rightarrow> (exn + nat) \<times> 'w"
  pd_is_open :: "nat \<Rightarrow> 'w \<Rightarrow> bool"

definition make_connection :: "'w pg_driver \<Rightarrow> pg_pool \<Rightarrow> 'w \<Rightarrow> (exn + nat) \<times> 'w" where
  "make_connection drv p w = (case pd_open drv (connection_string (pp_config p)) w of
      (Inl e, w) \<Rightarrow> (Inl (DbConfigError (''Failed to connect to PostgreSQL: '' @ what e)), w)
    | (Inr c, w) \<Rightarrow> (Inr c, w))"

section \<open>Construction\<close>

text \<open>The loop of the constructor, by the connections still to open.\<close>

fun open_connections ::
  "'w pg_driver \<Rightarrow> nat \<Rightarrow> pg_pool \<Rightarrow> 'w \<Rightarrow> (exn + pg_pool) \<times> 'w" where
  "open_connections drv 0 p w = (Inr p, w)"
| "open_connections drv (Suc n) p w = (case make_connection drv p w of
      (Inl e, w) \<Rightarrow> (Inl e, w)
    | (Inr c, w) \<Rightarrow>
        open_connections drv n (p\<lparr>pp_idle := pp_idle p @ [c], pp_total := pp_total p + 1\<rparr>) w)"

definition new_pg_pool :: "'w pg_driver \<Rightarrow> pool_config \<Rightarrow> 'w \<Rightarrow> (exn + pg_pool) \<times> 'w" where
  "new_pg_pool drv cfg w =
     (if min_connections cfg = 0 then (Inl (DbConfigError ''min_connections must be at least 1''), w)
      else if max_connections cfg < min_connections cfg
      then (Inl (DbConfigError ''max_connections must be >= min_connections''), w)
      else if connection_string cfg = []
      then (Inl (DbConfigError ''connection_string must not be empty''), w)
      else open_connections drv (unat (min_connections cfg))
             \<lparr>pp_config = cfg, pp_idle = [], pp_total = 0\<rparr> w)"

section \<open>Acquiring and returning\<close>

datatype acquired = Acquired nat | Failed exn | MustWait

text \<open>
  The iterations of the loop of \<open>acquire\<close> that hold the mutex. An idle connection that is closed
  is replaced; when that fails, it is dropped and the loop goes on.
\<close>

function acquire_loop :: "'w pg_driver \<Rightarrow> pg_pool \<Rightarrow> 'w \<Rightarrow> acquired \<times> pg_pool \<times> 'w" where
  "acquire_loop drv p w = (case pp_idle p of
      conn # rest \<Rightarrow>
        (let p = p\<lparr>pp_idle := rest\<rparr> in
         if pd_is_open drv conn w then (Acquired conn, p, w)
         else case make_connection drv p w of
           (Inr conn', w) \<Rightarrow> (Acquired conn', p, w)
         | (Inl _, w) \<Rightarrow> acquire_loop drv (p\<lparr>pp_total := pp_total p - 1\<rparr>) w)
    | [] \<Rightarrow>
        if pp_total p < max_connections (pp_config p)
        then case make_connection drv p w of
          (Inl e, w) \<Rightarrow> (Failed e, p, w)
        | (Inr conn, w) \<Rightarrow> (Acquired conn, p\<lparr>pp_total := pp_total p + 1\<rparr>, w)
        else (MustWait, p, w))"
  by pat_completeness auto

termination
  by (relation "measure (\<lambda>(drv, p, w). length (pp_idle p))") auto

declare acquire_loop.simps [simp del]

text \<open>\<open>wait_until\<close> that times out ends \<open>acquire\<close> whatever the pool holds by then.\<close>

definition pool_exhausted :: "pg_pool \<Rightarrow> exn" where
  "pool_exhausted p = DbPoolExhausted (''No PostgreSQL connection available after ''
     @ dec_int (acquire_timeout_ms (pp_config p)) @ ''ms'')"

text \<open>
  A whole call of \<open>acquire\<close>: \<open>wakes\<close> lists, for each wait, whether it timed out and what the pool
  and the world are when the mutex is taken again. \<open>None\<close> when the list ends during a wait.
\<close>

fun pool_acquire ::
  "'w pg_driver \<Rightarrow> (bool \<times> pg_pool \<times> 'w) list \<Rightarrow> pg_pool \<Rightarrow> 'w \<Rightarrow> ((exn + nat) \<times> pg_pool \<times> 'w) option" where
  "pool_acquire drv wakes p w = (case acquire_loop drv p w of
      (Acquired c, p, w) \<Rightarrow> Some (Inr c, p, w)
    | (Failed e, p, w) \<Rightarrow> Some (Inl e, p, w)
    | (MustWait, p, w) \<Rightarrow> (case wakes of
        [] \<Rightarrow> None
      | (timed_out, p', w') # rest \<Rightarrow>
          if timed_out then Some (Inl (pool_exhausted p'), p', w')
          else pool_acquire drv rest p' w'))"

declare pool_acquire.simps [simp del]

definition return_connection :: "'w pg_driver \<Rightarrow> nat option \<Rightarrow> pg_pool \<Rightarrow> 'w \<Rightarrow> pg_pool" where
  "return_connection drv conn p w = (case conn of
      Some c \<Rightarrow> if pd_is_open drv c w then p\<lparr>pp_idle := pp_idle p @ [c]\<rparr>
                else p\<lparr>pp_total := pp_total p - 1\<rparr>
    | None \<Rightarrow> p\<lparr>pp_total := pp_total p - 1\<rparr>)"

definition pool_available :: "pg_pool \<Rightarrow> nat" where
  "pool_available p = length (pp_idle p)"

definition pool_size :: "pg_pool \<Rightarrow> 64 word" where
  "pool_size p = pp_total p"

text \<open>The destructor empties the queue.\<close>

definition destroy_pool :: "pg_pool \<Rightarrow> pg_pool" where
  "destroy_pool p = p\<lparr>pp_idle := []\<rparr>"

text \<open>
  \<open>PgConnection\<close>: the connection it holds and whether it still has its return function; moving
  out of one takes the connection away, assigning to one or destroying one returns what it holds.
\<close>

record pg_connection =
  pc_conn :: "nat option"
  pc_returns :: bool

definition destroy_connection :: "'w pg_driver \<Rightarrow> pg_connection \<Rightarrow> pg_pool \<Rightarrow> 'w \<Rightarrow> pg_pool" where
  "destroy_connection drv c p w =
     (if pc_conn c \<noteq> None \<and> pc_returns c then return_connection drv (pc_conn c) p w else p)"

definition move_connection :: "pg_connection \<Rightarrow> pg_connection \<times> pg_connection" where
  "move_connection other =
     (\<lparr>pc_conn = pc_conn other, pc_returns = pc_returns other\<rparr>, \<lparr>pc_conn = None, pc_returns = False\<rparr>)"

definition assign_connection ::
  "'w pg_driver \<Rightarrow> pg_connection \<Rightarrow> pg_connection \<Rightarrow> pg_pool \<Rightarrow> 'w
     \<Rightarrow> pg_connection \<times> pg_connection \<times> pg_pool" where
  "assign_connection drv this other p w =
     (let p = destroy_connection drv this p w
      in case move_connection other of (this, other) \<Rightarrow> (this, other, p))"

definition connection_string_from_env :: "(string \<Rightarrow> string option) \<Rightarrow> string" where
  "connection_string_from_env env =
     (let get = (\<lambda>var dflt. case env var of Some v \<Rightarrow> if v \<noteq> [] then v else dflt | None \<Rightarrow> dflt);
          host = get ''CORVUS_DB_HOST'' ''localhost'';
          port = get ''CORVUS_DB_PORT'' ''5432'';
          dbname = get ''CORVUS_DB_NAME'' ''corvus'';
          user = get ''CORVUS_DB_USER'' ''postgres'';
          pass = get ''CORVUS_DB_PASSWORD'' []
      in ''host='' @ host @ '' port='' @ port @ '' dbname='' @ dbname @ '' user='' @ user
         @ '' password='' @ pass @ '' connect_timeout=5'')"

section \<open>Concurrent use\<close>

text \<open>
  The pool, the connections that are handed out, and the world. Threads take turns at the mutex;
  connections break and other clients open connections at any time. \<open>used\<close> are the handles that
  the driver has given out so far.
\<close>

type_synonym 'w pool_state = "pg_pool \<times> nat list \<times> 'w"

definition fresh_handles :: "'w pg_driver \<Rightarrow> ('w \<Rightarrow> nat set) \<Rightarrow> bool" where
  "fresh_handles drv used \<longleftrightarrow>
     (\<forall>s w. case pd_open drv s w of
        (Inl _, w') \<Rightarrow> used w \<subseteq> used w'
      | (Inr c, w') \<Rightarrow> c \<notin> used w \<and> insert c (used w) \<subseteq> used w')"

inductive pool_step ::
  "'w pg_driver \<Rightarrow> ('w \<Rightarrow> nat set) \<Rightarrow> 'w pool_state \<Rightarrow> 'w pool_state \<Rightarrow> bool"
  for drv used where
    Take: "acquire_loop drv p w = (Acquired c, p', w') \<Longrightarrow>
      pool_step drv used (p, out, w) (p', c # out, w')"
  | Refuse: "acquire_loop drv p w = (r, p', w') \<Longrightarrow> (\<And>c. r \<noteq> Acquired c) \<Longrightarrow>
      pool_step drv used (p, out, w) (p', out, w')"
  | Return: "pool_step drv used (p, xs @ c # ys, w) (return_connection drv (Some c) p w, xs @ ys, w)"
  | World: "used w \<subseteq> used w' \<Longrightarrow> pool_step drv used (p, out, w) (p, out, w')"

inductive pool_reachable ::
  "'w pg_driver \<Rightarrow> ('w \<Rightarrow> nat set) \<Rightarrow> pool_config \<Rightarrow> 'w pool_state \<Rightarrow> bool"
  for drv used cfg where
    Start: "new_pg_pool drv cfg w0 = (Inr p, w) \<Longrightarrow> pool_reachable drv used cfg (p, [], w)"
  | Step: "pool_reachable drv used cfg s \<Longrightarrow> pool_step drv used s s' \<Longrightarrow> pool_reachable drv used cfg s'"

fun pool_inv :: "('w \<Rightarrow> nat set) \<Rightarrow> pool_config \<Rightarrow> 'w pool_state \<Rightarrow> bool" where
  "pool_inv used cfg (p, out, w) \<longleftrightarrow>
     pp_config p = cfg \<and> unat (pp_total p) = length (pp_idle p) + length out
     \<and> pp_total p \<le> max_connections cfg
     \<and> distinct (pp_idle p @ out) \<and> set (pp_idle p @ out) \<subseteq> used w"

section \<open>Lemmas\<close>

lemma word_suc: "(x :: 64 word) < y \<Longrightarrow> unat (x + 1) = Suc (unat x) \<and> x + 1 \<le> y"
proof -
  assume "x < y"
  then have "unat x < unat y" by (simp add: word_less_nat_alt)
  moreover have "unat y < 2 ^ 64" using unsigned_less [of y, where 'a = nat] by simp
  ultimately have "unat (x + 1) = Suc (unat x)" by (simp add: unat_word_ariths)
  with \<open>unat x < unat y\<close> show ?thesis by (simp add: word_le_nat_alt)
qed

lemma word_pred: "0 < unat (x :: 64 word) \<Longrightarrow> unat (x - 1) = unat x - 1 \<and> x - 1 \<le> x"
proof -
  assume "0 < unat x"
  then have "1 \<le> x" by (simp add: word_le_nat_alt)
  then have "unat (x - 1) = unat x - unat (1 :: 64 word)" by (rule unat_sub)
  then show ?thesis by (simp add: word_le_nat_alt)
qed

lemma make_connection_fresh:
  assumes "fresh_handles drv used"
  shows "make_connection drv p w = (Inr c, w') \<Longrightarrow> c \<notin> used w \<and> insert c (used w) \<subseteq> used w'"
    and "make_connection drv p w = (Inl e, w') \<Longrightarrow> used w \<subseteq> used w' \<and> (\<exists>m. e = DbConfigError m)"
proof -
  have f: "case pd_open drv s w of (Inl _, w') \<Rightarrow> used w \<subseteq> used w'
      | (Inr c, w') \<Rightarrow> c \<notin> used w \<and> insert c (used w) \<subseteq> used w'" for s
    by (rule assms [unfolded fresh_handles_def, rule_format])
  show "make_connection drv p w = (Inr c, w') \<Longrightarrow> c \<notin> used w \<and> insert c (used w) \<subseteq> used w'"
    using f [of "connection_string (pp_config p)"]
    by (auto simp: make_connection_def split: prod.splits sum.splits)
  show "make_connection drv p w = (Inl e, w') \<Longrightarrow> used w \<subseteq> used w' \<and> (\<exists>m. e = DbConfigError m)"
    using f [of "connection_string (pp_config p)"]
    by (auto simp: make_connection_def split: prod.splits sum.splits)
qed

text \<open>Nothing idle: a new connection below the maximum, a wait at it.\<close>

lemma acquire_loop_none_idle:
  assumes fresh: "fresh_handles drv used" and idle: "pp_idle p = []"
    and run: "acquire_loop drv p w = (r, p', w')" and inv: "pool_inv used cfg (p, out, w)"
  shows "case r of
        Acquired c \<Rightarrow> pool_inv used cfg (p', c # out, w')
      | Failed e \<Rightarrow> pool_inv used cfg (p', out, w') \<and> (\<exists>m. e = DbConfigError m)
      | MustWait \<Rightarrow> pool_inv used cfg (p', out, w') \<and> length out = unat (max_connections cfg)"
proof (cases "pp_total p < max_connections (pp_config p)")
  case False
  then have "r = MustWait" "p' = p" "w' = w"
    using run idle by (auto simp: acquire_loop.simps [of _ p])
  moreover have "pp_total p = max_connections cfg" using False inv by auto
  then have "length out = unat (max_connections cfg)" using inv idle by simp
  ultimately show ?thesis using inv by simp
next
  case True
  obtain x w1 where m: "make_connection drv p w = (x, w1)" by (rule prod.exhaust)
  show ?thesis
  proof (cases x)
    case (Inl e)
    then show ?thesis
      using run inv idle True m make_connection_fresh(2) [OF fresh m [unfolded Inl]]
      by (auto simp: acquire_loop.simps [of _ p] subset_eq)
  next
    case (Inr c)
    then show ?thesis
      using run inv idle True m make_connection_fresh(1) [OF fresh m [unfolded Inr]] word_suc [OF True]
      by (auto simp: acquire_loop.simps [of _ p] subset_eq)
  qed
qed

lemma acquire_loop_inv:
  "fresh_handles drv used \<Longrightarrow> acquire_loop drv p w = (r, p', w') \<Longrightarrow> pool_inv used cfg (p, out, w) \<Longrightarrow>
     (case r of
        Acquired c \<Rightarrow> pool_inv used cfg (p', c # out, w')
      | Failed e \<Rightarrow> pool_inv used cfg (p', out, w') \<and> (\<exists>m. e = DbConfigError m)
      | MustWait \<Rightarrow> pool_inv used cfg (p', out, w') \<and> length out = unat (max_connections cfg))"
proof (induction drv p w rule: acquire_loop.induct)
  case (1 drv p w)
  note inv = 1(4)
  show ?case
  proof (cases "pp_idle p")
    case Nil
    show ?thesis by (rule acquire_loop_none_idle [OF 1(2) Nil 1(3,4)])
  next
    case (Cons conn rest)
    let ?p = "p\<lparr>pp_idle := rest\<rparr>"
    show ?thesis
    proof (cases "pd_is_open drv conn w")
      case True
      then show ?thesis
        using 1(3) inv Cons by (auto simp: acquire_loop.simps [of _ p] Let_def subset_eq)
    next
      case False
      obtain x w1 where m: "make_connection drv ?p w = (x, w1)" by (rule prod.exhaust)
      show ?thesis
      proof (cases x)
        case (Inr c)
        then show ?thesis
          using 1(3) inv Cons False m make_connection_fresh(1) [OF 1(2) m [unfolded Inr]]
          by (auto simp: acquire_loop.simps [of _ p] Let_def subset_eq)
      next
        case (Inl e)
        note f = make_connection_fresh(2) [OF 1(2) m [unfolded Inl]]
        have pos: "0 < unat (pp_total p)" using inv Cons by simp
        have "pool_inv used cfg (?p\<lparr>pp_total := pp_total ?p - 1\<rparr>, out, w1)"
          using inv Cons f word_pred [OF pos] by (auto intro: order_trans)
        then show ?thesis
          using 1(1) [OF Cons refl False m [symmetric] Inl 1(2)] 1(3) Cons False m Inl
          by (simp add: acquire_loop.simps [of _ p] Let_def)
      qed
    qed
  qed
qed

lemma return_inv:
  assumes "pool_inv used cfg (p, xs @ c # ys, w)"
  shows "pool_inv used cfg (return_connection drv (Some c) p w, xs @ ys, w)"
proof -
  have "0 < unat (pp_total p)" using assms by simp
  from word_pred [OF this] show ?thesis
    using assms by (auto simp: return_connection_def intro: order_trans)
qed

lemma open_connections_inv:
  "fresh_handles drv used \<Longrightarrow> open_connections drv n p w = (Inr p', w') \<Longrightarrow> pool_inv used cfg (p, [], w) \<Longrightarrow>
    unat (pp_total p) + n \<le> unat (max_connections cfg) \<Longrightarrow> pool_inv used cfg (p', [], w')"
proof (induction drv n p w rule: open_connections.induct)
  case (2 drv n p w)
  obtain x w1 where m: "make_connection drv p w = (x, w1)" by (rule prod.exhaust)
  show ?case
  proof (cases x)
    case (Inl e)
    then show ?thesis using 2 m by simp
  next
    case (Inr c)
    have lt: "pp_total p < max_connections cfg" using 2(5) by (simp add: word_less_nat_alt)
    have "pool_inv used cfg (p\<lparr>pp_idle := pp_idle p @ [c], pp_total := pp_total p + 1\<rparr>, [], w1)"
      using 2(4) make_connection_fresh(1) [OF 2(2) m [unfolded Inr]] word_suc [OF lt] by auto
    moreover have "unat (pp_total p + 1) + n \<le> unat (max_connections cfg)"
      using 2(5) word_suc [OF lt] by simp
    ultimately show ?thesis
      using 2(1) [OF m [symmetric] Inr 2(2)] 2(3) m Inr by simp
  qed
qed simp

lemma new_pool_inv:
  assumes "fresh_handles drv used" "new_pg_pool drv cfg w0 = (Inr p, w)"
  shows "pool_inv used cfg (p, [], w)"
proof -
  have "open_connections drv (unat (min_connections cfg)) \<lparr>pp_config = cfg, pp_idle = [], pp_total = 0\<rparr> w0
      = (Inr p, w)" and le: "min_connections cfg \<le> max_connections cfg"
    using assms(2) by (auto simp: new_pg_pool_def not_less split: if_splits)
  from open_connections_inv [OF assms(1) this(1), of cfg] le show ?thesis
    by (simp add: word_le_nat_alt)
qed

text \<open>One lemma per step, by inversion at the parts of the state; the invariant by rule induction.\<close>

inductive_cases pool_stepE: "pool_step drv used (p, out, w) s'"

lemma pool_step_inv:
  assumes step: "pool_step drv used (p, out, w) s'" and fresh: "fresh_handles drv used"
    and inv: "pool_inv used cfg (p, out, w)"
  shows "pool_inv used cfg s'"
  using step
proof (cases rule: pool_stepE [consumes 1, case_names take refuse return world])
  case (take c p' w')
  from acquire_loop_inv [OF fresh take(2) inv] take(1) show ?thesis by simp
next
  case (refuse r p' w')
  from acquire_loop_inv [OF fresh refuse(2) inv] refuse(1,3) show ?thesis by (cases r) auto
next
  case (return xs c ys)
  from return_inv [of used cfg p xs c ys w] inv return show ?thesis by simp
next
  case (world w')
  then show ?thesis using inv by auto
qed

lemma reachable_pool_inv:
  "pool_reachable drv used cfg s \<Longrightarrow> fresh_handles drv used \<Longrightarrow> pool_inv used cfg s"
proof (induction rule: pool_reachable.induct)
  case (Start w0 p w)
  then show ?case by (intro new_pool_inv)
next
  case (Step s s')
  then show ?case by (cases s) (metis pool_step_inv)
qed

lemma acquire_loop_Failed:
  "acquire_loop drv p w = (Failed e, p', w') \<Longrightarrow> \<exists>m. e = DbConfigError m"
proof (induction drv p w rule: acquire_loop.induct)
  case (1 drv p w)
  then show ?case
    by (subst (asm) (2) acquire_loop.simps)
       (auto simp: Let_def make_connection_def split: list.splits if_splits prod.splits sum.splits)
qed

text \<open>One turn of the loop in \<open>acquire\<close>, by what the scan of the idle connections found.\<close>

lemma pool_acquire_turn:
  assumes "acquire_loop drv p w = (r, p1, w1)"
  shows "pool_acquire drv wakes p w = (case r of
      Acquired c \<Rightarrow> Some (Inr c, p1, w1)
    | Failed e \<Rightarrow> Some (Inl e, p1, w1)
    | MustWait \<Rightarrow> (case wakes of
          [] \<Rightarrow> None
        | (timed_out, q, v) # rest \<Rightarrow>
            if timed_out then Some (Inl (pool_exhausted q), q, v) else pool_acquire drv rest q v))"
  using assms by (simp add: pool_acquire.simps [of _ _ p] split: acquired.split list.split prod.split)

lemma pool_acquire_thrown:
  "pool_acquire drv wakes p w = Some (Inl e, p', w') \<Longrightarrow>
    (\<exists>m. e = DbConfigError m) \<or> e = pool_exhausted p' \<and> (True, p', w') \<in> set wakes"
proof (induction wakes arbitrary: p w)
  case Nil
  obtain r p1 w1 where a: "acquire_loop drv p w = (r, p1, w1)" by (rule prod_cases3)
  then show ?case
    using Nil acquire_loop_Failed [of drv p w e p1 w1] by (simp add: pool_acquire_turn [OF a] split: acquired.splits)
next
  case (Cons wk rest)
  obtain r p1 w1 where a: "acquire_loop drv p w = (r, p1, w1)" by (rule prod_cases3)
  obtain b q v where wk: "wk = (b, q, v)" by (rule prod_cases3)
  from Cons.prems show ?case
    using acquire_loop_Failed [of drv p w e p1 w1] Cons.IH [of q v] a
    by (auto simp: pool_acquire_turn [OF a] wk split: acquired.splits if_splits)
qed

text \<open>A driver that numbers its connections and never loses one; its world is the next number.\<close>

definition counting_driver :: "nat pg_driver" where
  "counting_driver = \<lparr>pd_open = (\<lambda>_ w. (Inr w, Suc w)), pd_is_open = (\<lambda>_ _. True)\<rparr>"

definition small_pool :: pool_config where
  "small_pool = \<lparr>connection_string = ''host=db'', min_connections = 1, max_connections = 2,
     acquire_timeout_ms = 5000\<rparr>"

lemma counting_fresh: "fresh_handles counting_driver (\<lambda>w. {..<w})"
  by (auto simp: fresh_handles_def counting_driver_def)

lemma small_pool_start:
  "new_pg_pool counting_driver small_pool 0
     = (Inr \<lparr>pp_config = small_pool, pp_idle = [0], pp_total = 1\<rparr>, 1)"
  by (simp add: new_pg_pool_def small_pool_def make_connection_def counting_driver_def)

lemma small_pool_taken:
  "pool_reachable counting_driver (\<lambda>w. {..<w}) small_pool
     (\<lparr>pp_config = small_pool, pp_idle = [], pp_total = 1\<rparr>, [0], 1)"
proof (rule pool_reachable.Step [OF pool_reachable.Start [OF small_pool_start]])
  show "pool_step counting_driver (\<lambda>w. {..<w})
      (\<lparr>pp_config = small_pool, pp_idle = [0], pp_total = 1\<rparr>, [], 1)
      (\<lparr>pp_config = small_pool, pp_idle = [], pp_total = 1\<rparr>, [0], 1)"
    by (rule pool_step.Take) (simp add: acquire_loop.simps counting_driver_def)
qed

section \<open>Properties\<close>

text \<open>
  C16. Accounting: in every reachable state of concurrent use, the pool's size is the number of idle
  plus the number of handed-out connections, never more than the configured maximum and without
  wrap-around of the counter; no connection is handed out twice or both idle and handed out; and a
  thread has to wait only when the maximum is handed out.
\<close>

theorem pool_accounting:
  assumes "pool_reachable drv used cfg (p, out, w)" "fresh_handles drv used"
  shows "unat (pool_size p) = pool_available p + length out \<and> unat (pool_size p) \<le> unat (max_connections cfg)
    \<and> distinct out \<and> set out \<inter> set (pp_idle p) = {}
    \<and> (\<forall>p' w'. acquire_loop drv p w = (MustWait, p', w') \<longrightarrow> length out = unat (max_connections cfg))"
proof -
  have inv: "pool_inv used cfg (p, out, w)" using reachable_pool_inv [OF assms] .
  moreover have "length out = unat (max_connections cfg)"
    if "acquire_loop drv p w = (MustWait, p', w')" for p' w'
    using acquire_loop_inv [OF assms(2) that inv] by simp
  ultimately show ?thesis
    by (auto simp: pool_size_def pool_available_def word_le_nat_alt)
qed

theorem pool_accounting_witness:
  "unat (pool_size \<lparr>pp_config = small_pool, pp_idle = [], pp_total = 1\<rparr>)
     = pool_available \<lparr>pp_config = small_pool, pp_idle = [], pp_total = 1\<rparr> + length [0 :: nat]"
  using conjunct1 [OF pool_accounting [OF small_pool_taken counting_fresh]] .

text \<open>
  C34. Outcomes of \<open>acquire\<close>: a call that ends hands out a connection, or throws \<open>DbConfigError\<close>, or
  throws \<open>DbPoolExhausted\<close>, the last only at a wait that timed out. A wait that times out throws
  whatever the pool holds at that moment, an idle connection included.
\<close>

theorem acquire_outcomes:
  "(case pool_acquire drv wakes p w of
      None \<Rightarrow> True
    | Some (Inr c, p', w') \<Rightarrow> True
    | Some (Inl e, p', w') \<Rightarrow> (\<exists>m. e = DbConfigError m)
        \<or> e = pool_exhausted p' \<and> (True, p', w') \<in> set wakes)
   \<and> (\<forall>q v. fst (acquire_loop drv p w) = MustWait \<longrightarrow>
        pool_acquire drv ((True, q, v) # wakes) p w = Some (Inl (pool_exhausted q), q, v))"
proof
  show "case pool_acquire drv wakes p w of
      None \<Rightarrow> True
    | Some (Inr c, p', w') \<Rightarrow> True
    | Some (Inl e, p', w') \<Rightarrow> (\<exists>m. e = DbConfigError m)
        \<or> e = pool_exhausted p' \<and> (True, p', w') \<in> set wakes"
    using pool_acquire_thrown [of drv wakes p w] by (auto split: option.split sum.split)
  show "\<forall>q v. fst (acquire_loop drv p w) = MustWait \<longrightarrow>
        pool_acquire drv ((True, q, v) # wakes) p w = Some (Inl (pool_exhausted q), q, v)"
    by (cases "acquire_loop drv p w") (simp add: pool_acquire_turn)
qed

theorem acquire_outcomes_witness:
  "let q = \<lparr>pp_config = small_pool, pp_idle = [1], pp_total = 2\<rparr> in
   pool_acquire counting_driver [(True, q, 2)] \<lparr>pp_config = small_pool, pp_idle = [], pp_total = 2\<rparr> 2
     = Some (Inl (pool_exhausted q), q, 2)"
proof -
  let ?p = "\<lparr>pp_config = small_pool, pp_idle = [], pp_total = 2\<rparr>"
  have "fst (acquire_loop counting_driver ?p 2) = MustWait"
    by (simp add: acquire_loop.simps small_pool_def)
  then show ?thesis
    unfolding Let_def
    using conjunct2 [OF acquire_outcomes [where drv = counting_driver and wakes = "[]" and p = ?p and w = 2]]
    by blast
qed

end
