(* ===== verification/HealthProbe.thy ===== *)
theory HealthProbe
  imports Prelude
begin

text \<open>
  The container's health check, \<open>include/corvus/gateway/health_probe.h\<close> and \<open>src/gateway/health_probe.cpp\<close>: one request
  to \<open>/health\<close> over a non-blocking socket, within a deadline. The system calls are the parameter
  \<open>'w socket_api\<close>, functions of an opaque world; a call that fails returns its \<open>errno\<close> as
  \<open>Inl\<close>. The clock counts nanoseconds. The loops run until the system lets them end, so they are
  partial: that they return is a theorem about a clock that advances.
\<close>

section \<open>System calls\<close>

record 'w socket_api =
  so_now :: "'w \<Rightarrow> int \<times> 'w"
  so_inet_pton :: "string \<Rightarrow> bool"
  so_socket :: "'w \<Rightarrow> (int + nat) \<times> 'w"
  so_nonblock :: "nat \<Rightarrow> 'w \<Rightarrow> 'w"
  so_connect :: "nat \<Rightarrow> string \<Rightarrow> 16 word \<Rightarrow> 'w \<Rightarrow> (int + unit) \<times> 'w"
  so_poll :: "nat \<Rightarrow> 16 word \<Rightarrow> int \<Rightarrow> 'w \<Rightarrow> (int + (int \<times> 16 word)) \<times> 'w"
  so_error :: "nat \<Rightarrow> 'w \<Rightarrow> int \<times> 'w"
  so_send :: "nat \<Rightarrow> string \<Rightarrow> 'w \<Rightarrow> (int + nat) \<times> 'w"
  so_recv :: "nat \<Rightarrow> nat \<Rightarrow> 'w \<Rightarrow> (int + string) \<times> 'w"
  so_close :: "nat \<Rightarrow> 'w \<Rightarrow> 'w"
  so_strerror :: "int \<Rightarrow> string"

definition EINTR :: int where "EINTR = 4"
definition EAGAIN :: int where "EAGAIN = 11"
definition EINPROGRESS :: int where "EINPROGRESS = 115"
definition POLLIN :: "16 word" where "POLLIN = 1"
definition POLLOUT :: "16 word" where "POLLOUT = 4"
definition POLLHUP :: "16 word" where "POLLHUP = 16"

section \<open>Waiting\<close>

text \<open>The milliseconds left, truncated towards zero and then to 32 bits.\<close>

definition remaining_ms :: "int \<Rightarrow> int \<Rightarrow> int" where
  "remaining_ms deadline now =
     (let left = (if now \<le> deadline then (deadline - now) div 1000000 else - ((now - deadline) div 1000000))
      in if left > 0 then sint (word_of_int left :: 32 word) else 0)"

unbundle bit_operations_syntax

partial_function (option) wait_for ::
  "'w socket_api \<Rightarrow> nat \<Rightarrow> 16 word \<Rightarrow> int \<Rightarrow> 'w \<Rightarrow> (bool \<times> 'w) option" where
  "wait_for api fd events deadline w =
     (case so_now api w of (now, w) \<Rightarrow>
      let ms = remaining_ms deadline now in
      if ms = 0 then Some (False, w)
      else case so_poll api fd events ms w of
             (Inr (rc, revents), w) \<Rightarrow>
               Some (rc > 0 \<and> (revents AND (events OR POLLHUP)) \<noteq> 0, w)
           | (Inl errno, w) \<Rightarrow>
               if errno \<noteq> EINTR then Some (False, w) else wait_for api fd events deadline w)"

section \<open>The probe\<close>

record health_probe_result =
  healthy :: bool
  detail :: string

definition probe_fail :: "string \<Rightarrow> health_probe_result" where
  "probe_fail why = \<lparr>healthy = False, detail = why\<rparr>"

definition probe_request :: "string \<Rightarrow> string \<Rightarrow> string" where
  "probe_request host path =
     ''GET '' @ path @ '' HTTP/1.1'' @ [CHR 0x0D, CHR 0x0A] @ ''Host: '' @ host @ [CHR 0x0D, CHR 0x0A]
       @ ''User-Agent: corvus-health-check'' @ [CHR 0x0D, CHR 0x0A]
       @ ''Connection: close'' @ [CHR 0x0D, CHR 0x0A, CHR 0x0D, CHR 0x0A]"

text \<open>The statements after \<open>fcntl\<close> up to the request: connected, or the reason to fail.\<close>

definition probe_connect ::
  "'w socket_api \<Rightarrow> nat \<Rightarrow> string \<Rightarrow> 16 word \<Rightarrow> int \<Rightarrow> 'w \<Rightarrow> ((string + unit) \<times> 'w) option" where
  "probe_connect api fd host port deadline w =
     (case so_connect api fd host port w of
        (Inr _, w) \<Rightarrow> Some (Inr (), w)
      | (Inl errno, w) \<Rightarrow>
          if errno \<noteq> EINPROGRESS then Some (Inl (''connect: '' @ so_strerror api errno), w)
          else Option.bind (wait_for api fd POLLOUT deadline w) (\<lambda>(writable, w).
            if \<not> writable then Some (Inl ''connect timed out'', w)
            else case so_error api fd w of (err, w) \<Rightarrow>
              if err \<noteq> 0 then Some (Inl (''connect: '' @ so_strerror api err), w)
              else Some (Inr (), w)))"

partial_function (option) send_loop ::
  "'w socket_api \<Rightarrow> nat \<Rightarrow> string \<Rightarrow> int \<Rightarrow> nat \<Rightarrow> 'w \<Rightarrow> ((string + unit) \<times> 'w) option" where
  "send_loop api fd request deadline sent w =
     (if sent < length request
      then Option.bind (wait_for api fd POLLOUT deadline w) (\<lambda>(writable, w).
        if \<not> writable then Some (Inl ''send timed out'', w)
        else case so_send api fd (drop sent request) w of
               (Inl errno, w) \<Rightarrow>
                 if errno = EAGAIN \<or> errno = EINTR then send_loop api fd request deadline sent w
                 else Some (Inl (''send: '' @ so_strerror api errno), w)
             | (Inr n, w) \<Rightarrow> send_loop api fd request deadline (sent + n) w)
      else Some (Inr (), w))"

text \<open>\<open>head.find("\r\n")\<close>.\<close>

fun find_crlf :: "string \<Rightarrow> nat option" where
  "find_crlf [] = None"
| "find_crlf (c # s) =
     (if c = CHR 0x0D \<and> s \<noteq> [] \<and> hd s = CHR 0x0A then Some 0 else map_option Suc (find_crlf s))"

partial_function (option) recv_loop ::
  "'w socket_api \<Rightarrow> nat \<Rightarrow> int \<Rightarrow> string \<Rightarrow> 'w \<Rightarrow> ((string + string) \<times> 'w) option" where
  "recv_loop api fd deadline head w =
     (if find_crlf head = None \<and> length head < 1024
      then Option.bind (wait_for api fd POLLIN deadline w) (\<lambda>(readable, w).
        if \<not> readable then Some (Inl ''no response before deadline'', w)
        else case so_recv api fd 256 w of
               (Inl errno, w) \<Rightarrow>
                 if errno = EAGAIN \<or> errno = EINTR then recv_loop api fd deadline head w
                 else Some (Inl (''recv: '' @ so_strerror api errno), w)
             | (Inr chunk, w) \<Rightarrow>
                 if chunk = [] then Some (Inr head, w) else recv_loop api fd deadline (head @ chunk) w)
      else Some (Inr head, w))"

definition status_result :: "string \<Rightarrow> health_probe_result" where
  "status_result head =
     (let status_line = (case find_crlf head of Some eol \<Rightarrow> substr head 0 eol | None \<Rightarrow> head) in
      if \<not> starts_with ''HTTP/1.'' status_line \<or> length status_line < 12
      then probe_fail (''malformed response: '' @ [CHR 0x27] @ status_line @ [CHR 0x27])
      else \<lparr>healthy = (substr status_line 9 3 = ''200''), detail = status_line\<rparr>)"

definition on_fail :: "((string + 'a) \<times> 'w) option \<Rightarrow> ('a \<Rightarrow> 'w \<Rightarrow> (health_probe_result \<times> 'w) option)
    \<Rightarrow> (health_probe_result \<times> 'w) option" where
  "on_fail r k = Option.bind r (\<lambda>(x, w). case x of Inl why \<Rightarrow> Some (probe_fail why, w) | Inr a \<Rightarrow> k a w)"

text \<open>The socket is closed on every way out of the function once it is open.\<close>

definition probe_http_health ::
  "'w socket_api \<Rightarrow> string \<Rightarrow> int \<Rightarrow> string \<Rightarrow> int \<Rightarrow> 'w \<Rightarrow> (health_probe_result \<times> 'w) option" where
  "probe_http_health api host port path timeout w =
     (case so_now api w of (now, w) \<Rightarrow>
      let deadline = now + timeout * 1000000 in
      if \<not> so_inet_pton api (c_str host) then Some (probe_fail (''invalid IPv4 address: '' @ host), w)
      else case so_socket api w of
        (Inl errno, w) \<Rightarrow> Some (probe_fail (''socket: '' @ so_strerror api errno), w)
      | (Inr fd, w) \<Rightarrow>
          map_option (\<lambda>(r, w). (r, so_close api fd w))
            (on_fail (probe_connect api fd (c_str host) (word_of_int port) deadline (so_nonblock api fd w)) (\<lambda>_ w.
             on_fail (send_loop api fd (probe_request host path) deadline 0 w) (\<lambda>_ w.
             on_fail (recv_loop api fd deadline [] w) (\<lambda>head w.
               Some (status_result head, w))))))"

definition default_probe_path :: string where "default_probe_path = ''/health''"

definition default_probe_timeout :: int where "default_probe_timeout = 2000"

section \<open>Lemmas\<close>

subsection \<open>Line ends\<close>

lemma find_crlf_append: "find_crlf s = Some i \<Longrightarrow> find_crlf (s @ t) = Some i"
proof (induction s arbitrary: i)
  case (Cons c s)
  then show ?case by (cases s) (auto split: if_splits)
qed simp

lemma find_crlf_take: "find_crlf s = Some i \<Longrightarrow> i + 2 \<le> n \<Longrightarrow> find_crlf (take n s) = Some i"
proof (induction s arbitrary: i n)
  case (Cons c s)
  obtain m where n: "n = Suc m" "1 \<le> m" using Cons.prems by (cases n) auto
  have h: "take m s \<noteq> [] \<longleftrightarrow> s \<noteq> []" "s \<noteq> [] \<Longrightarrow> hd (take m s) = hd s" using n(2) by auto
  show ?case using Cons h unfolding n(1) by (auto split: if_splits)
qed simp

lemma find_crlf_bound: "find_crlf s = Some i \<Longrightarrow> i + 2 \<le> length s"
  by (induction s arbitrary: i) (auto split: if_splits simp: Suc_le_eq)

lemma find_crlf_prefix_None: "find_crlf s = Some i \<Longrightarrow> find_crlf (take i s) = None"
proof (induction s arbitrary: i)
  case (Cons c s)
  show ?case
  proof (cases "c = CHR 0x0D \<and> s \<noteq> [] \<and> hd s = CHR 0x0A")
    case False
    then obtain j where j: "find_crlf s = Some j" "i = Suc j" using Cons.prems by auto
    have "take j s \<noteq> [] \<Longrightarrow> hd (take j s) = hd s" by (cases j) (simp_all add: hd_take)
    then show ?thesis using Cons.IH [OF j(1)] False j(2) by auto
  qed (use Cons.prems in auto)
qed simp

text \<open>The status line does not depend on where the reading stopped.\<close>

lemma status_result_stable:
  assumes "s = head @ rest" "find_crlf head \<noteq> None \<or> 1024 \<le> length head \<or> head = s"
    and "find_crlf s = Some p \<and> p + 2 \<le> 1024 \<or> find_crlf s = None \<and> length s < 1024"
  shows "status_result head = status_result s"
proof -
  have "find_crlf head = find_crlf s \<and> (find_crlf s = None \<longrightarrow> head = s)"
  proof (cases "find_crlf head")
    case (Some i)
    then show ?thesis using find_crlf_append [OF Some, of rest] assms(1) by simp
  next
    case None
    show ?thesis
    proof (cases "head = s")
      case False
      then have l: "1024 \<le> length head" using assms(2) None by simp
      then have "find_crlf s = Some p" "p + 2 \<le> length head" using assms(1,3) by auto
      then have "find_crlf (take (length head) s) = Some p" by (rule find_crlf_take)
      then show ?thesis using None assms(1) by simp
    qed simp
  qed
  moreover have "find_crlf head = Some i \<Longrightarrow> substr head 0 i = substr s 0 i" for i
    using find_crlf_bound [of head i] assms(1) by (simp add: substr_def)
  ultimately show ?thesis by (cases "find_crlf s") (simp_all add: status_result_def)
qed

lemma healthy_iff:
  "healthy (status_result head) \<longleftrightarrow> (\<exists>a b r. (case find_crlf head of Some eol \<Rightarrow> take eol head | None \<Rightarrow> head)
      = ''HTTP/1.'' @ [a, b] @ ''200'' @ r)"
proof -
  define line where "line = (case find_crlf head of Some eol \<Rightarrow> take eol head | None \<Rightarrow> head)"
  have "status_result head = (if \<not> starts_with ''HTTP/1.'' line \<or> length line < 12
      then probe_fail (''malformed response: '' @ [CHR 0x27] @ line @ [CHR 0x27])
      else \<lparr>healthy = (substr line 9 3 = ''200''), detail = line\<rparr>)"
    by (simp add: status_result_def line_def substr_def Let_def cong: option.case_cong)
  moreover have "starts_with ''HTTP/1.'' line \<and> 12 \<le> length line \<and> substr line 9 3 = ''200''
      \<longleftrightarrow> (\<exists>a b r. line = ''HTTP/1.'' @ [a, b] @ ''200'' @ r)"
  proof
    assume a: "starts_with ''HTTP/1.'' line \<and> 12 \<le> length line \<and> substr line 9 3 = ''200''"
    then obtain r1 where r1: "line = ''HTTP/1.'' @ r1" by (auto simp: starts_with_iff)
    obtain a b r2 where r2: "r1 = a # b # r2" using a r1 by (cases r1; cases "tl r1") auto
    have "r2 = ''200'' @ drop 3 r2"
      using a append_take_drop_id [of 3 r2] unfolding r1 r2 by (simp add: substr_def)
    then show "\<exists>a b r. line = ''HTTP/1.'' @ [a, b] @ ''200'' @ r" using r1 r2 by auto
  qed (auto simp: starts_with_def substr_def)
  ultimately show ?thesis unfolding line_def [symmetric] by (auto simp: probe_fail_def)
qed

subsection \<open>A clock that advances\<close>

text \<open>Waiting takes time, and nothing turns the clock back.\<close>

locale running_clock =
  fixes api :: "'w socket_api" and clock :: "'w \<Rightarrow> int"
  assumes now_reads: "so_now api w = (t, w') \<Longrightarrow> clock w \<le> t \<and> t \<le> clock w'"
    and poll_takes: "so_poll api fd e ms w = (r, w') \<Longrightarrow> clock w < clock w'"
    and send_keeps: "so_send api fd s w = (rs, w') \<Longrightarrow> clock w \<le> clock w'"
    and recv_keeps: "so_recv api fd n w = (rr, w') \<Longrightarrow> clock w \<le> clock w'"
begin

lemma wait_returns: "\<exists>b w'. wait_for api fd e deadline w = Some (b, w') \<and> (b \<longrightarrow> clock w < clock w' \<and> clock w < deadline)"
proof (induction "nat (deadline - clock w)" arbitrary: w rule: less_induct)
  case less
  obtain t w1 where n: "so_now api w = (t, w1)" by (rule prod.exhaust)
  show ?case
  proof (cases "remaining_ms deadline t = 0")
    case True
    then show ?thesis by (intro exI [of _ False] exI [of _ w1], subst wait_for.simps) (simp add: n)
  next
    case False
    then have t: "t < deadline" by (auto simp: remaining_ms_def Let_def split: if_splits)
    obtain r w2 where p: "so_poll api fd e (remaining_ms deadline t) w1 = (r, w2)" by (rule prod.exhaust)
    have c: "clock w < clock w2" "clock w < deadline" using now_reads [OF n] poll_takes [OF p] t by simp_all
    show ?thesis
    proof (cases r)
      case (Inl errno)
      have "\<exists>b w'. wait_for api fd e deadline w2 = Some (b, w') \<and> (b \<longrightarrow> clock w2 < clock w' \<and> clock w2 < deadline)"
        by (rule less) (use c in simp)
      then show ?thesis using c False Inl by (subst wait_for.simps) (force simp: n p Let_def)
    next
      case (Inr x)
      then show ?thesis using c False by (subst wait_for.simps) (cases x, simp add: n p Let_def)
    qed
  qed
qed

lemma send_returns: "\<exists>r. send_loop api fd request deadline sent w = Some r"
proof (induction "nat (deadline - clock w)" arbitrary: w sent rule: less_induct)
  case less
  obtain b w1 where w1: "wait_for api fd POLLOUT deadline w = Some (b, w1)"
      "b \<longrightarrow> clock w < clock w1 \<and> clock w < deadline"
    using wait_returns by blast
  obtain r w2 where s: "so_send api fd (drop sent request) w1 = (r, w2)" by (rule prod.exhaust)
  have "b \<Longrightarrow> \<exists>r. send_loop api fd request deadline n w2 = Some r" for n
    by (rule less) (use w1(2) send_keeps [OF s] in simp)
  then show ?case
    by (subst send_loop.simps) (cases b; cases r; simp add: w1 s)
qed

lemma recv_returns: "\<exists>r. recv_loop api fd deadline head w = Some r"
proof (induction "nat (deadline - clock w)" arbitrary: w head rule: less_induct)
  case less
  obtain b w1 where w1: "wait_for api fd POLLIN deadline w = Some (b, w1)"
      "b \<longrightarrow> clock w < clock w1 \<and> clock w < deadline"
    using wait_returns by blast
  obtain r w2 where s: "so_recv api fd 256 w1 = (r, w2)" by (rule prod.exhaust)
  have "b \<Longrightarrow> \<exists>r. recv_loop api fd deadline h w2 = Some r" for h
    by (rule less) (use w1(2) recv_keeps [OF s] in simp)
  then show ?case
    by (subst recv_loop.simps) (cases b; cases r; simp add: w1 s)
qed

lemma connect_returns: "\<exists>r. probe_connect api fd host port deadline w = Some r"
proof -
  obtain c w1 where c: "so_connect api fd host port w = (c, w1)" by (rule prod.exhaust)
  obtain b w2 where p: "wait_for api fd POLLOUT deadline w1 = Some (b, w2)" using wait_returns by blast
  obtain e w3 where e: "so_error api fd w2 = (e, w3)" by (rule prod.exhaust)
  show ?thesis by (cases c) (simp_all add: probe_connect_def c p e)
qed

lemma on_fail_returns: "\<exists>r. x = Some r \<Longrightarrow> (\<And>a w. \<exists>r. k a w = Some r) \<Longrightarrow> \<exists>r. on_fail x k = Some r"
  by (auto simp: on_fail_def split: prod.split sum.split)

lemma exchange_returns:
  "\<exists>r. on_fail (probe_connect api fd h p d v) (\<lambda>_ w. on_fail (send_loop api fd q d 0 w)
      (\<lambda>_ w. on_fail (recv_loop api fd d [] w) (\<lambda>head w. Some (status_result head, w)))) = Some r"
  by (intro on_fail_returns connect_returns send_returns recv_returns) simp

lemma probe_returns: "\<exists>r. probe_http_health api host port path timeout w = Some r"
proof -
  obtain t w1 where n: "so_now api w = (t, w1)" by (rule prod.exhaust)
  obtain s w2 where s: "so_socket api w1 = (s, w2)" by (rule prod.exhaust)
  show ?thesis
  proof (cases s)
    case (Inr fd)
    obtain r where "on_fail (probe_connect api fd (c_str host) (word_of_int port) (t + timeout * 1000000) (so_nonblock api fd w2))
       (\<lambda>_ w. on_fail (send_loop api fd (probe_request host path) (t + timeout * 1000000) 0 w)
      (\<lambda>_ w. on_fail (recv_loop api fd (t + timeout * 1000000) [] w) (\<lambda>head w. Some (status_result head, w)))) = Some r"
      using exchange_returns by blast
    then show ?thesis using Inr by (simp add: probe_http_health_def n s Let_def)
  qed (simp add: probe_http_health_def n s Let_def)
qed

end

subsection \<open>A peer that answers in time\<close>

text \<open>
  \<open>inp\<close> is what the peer will still send, \<open>out\<close> what it has received, in the order of the bytes; how
  the bytes are cut into pieces, in both directions, is up to the system. A call may also be
  interrupted or find nothing, but only \<open>patience\<close> times.
\<close>

locale answering_peer =
  fixes api :: "'w socket_api" and inp out :: "'w \<Rightarrow> string" and patience :: "'w \<Rightarrow> nat" and start timeout :: int
  assumes timeout: "0 < timeout" "timeout \<le> 2 ^ 30"
    and now_reads: "so_now api w = (t, w') \<Longrightarrow> start \<le> t \<and> t \<le> start + (timeout - 1) * 1000000
      \<and> inp w' = inp w \<and> out w' = out w \<and> patience w' \<le> patience w"
    and poll_ready: "so_poll api fd e ms w = (r, w') \<Longrightarrow> inp w' = inp w \<and> out w' = out w
      \<and> (r = Inl EINTR \<and> patience w' < patience w
          \<or> (\<exists>rc revents. r = Inr (rc, revents) \<and> 0 < rc \<and> (revents AND (e OR POLLHUP)) \<noteq> 0 \<and> patience w' \<le> patience w))"
    and opens: "so_socket api w = (ro, w') \<Longrightarrow> (\<exists>fd. ro = Inr fd) \<and> inp w' = inp w \<and> out w' = out w"
      "inp (so_nonblock api fd w) = inp w \<and> out (so_nonblock api fd w) = out w"
    and connects: "so_connect api fd h p w = (rc, w') \<Longrightarrow> (rc = Inr () \<or> rc = Inl EINPROGRESS) \<and> inp w' = inp w \<and> out w' = out w"
      "so_error api fd w = (err, w') \<Longrightarrow> err = 0 \<and> inp w' = inp w \<and> out w' = out w"
    and sends: "so_send api fd s w = (rs, w') \<Longrightarrow> inp w' = inp w
      \<and> ((rs = Inl EAGAIN \<or> rs = Inl EINTR) \<and> patience w' < patience w \<and> out w' = out w
          \<or> (\<exists>n. rs = Inr n \<and> n \<le> length s \<and> (s \<noteq> [] \<longrightarrow> 0 < n) \<and> patience w' \<le> patience w \<and> out w' = out w @ take n s))"
    and receives: "so_recv api fd m w = (rr, w') \<Longrightarrow> out w' = out w
      \<and> ((rr = Inl EAGAIN \<or> rr = Inl EINTR) \<and> patience w' < patience w \<and> inp w' = inp w
          \<or> (\<exists>chunk. rr = Inr chunk \<and> length chunk \<le> m \<and> (chunk = [] \<longrightarrow> inp w = [] \<or> m = 0) \<and> patience w' \<le> patience w
              \<and> inp w = chunk @ inp w'))"
    and closes: "inp (so_close api fd w) = inp w \<and> out (so_close api fd w) = out w"
begin

definition in_time :: "int \<Rightarrow> bool" where
  "in_time deadline \<longleftrightarrow> start + timeout * 1000000 \<le> deadline \<and> deadline \<le> start + (2 * timeout - 1) * 1000000"

lemma time_left: "in_time deadline \<Longrightarrow> start \<le> t \<Longrightarrow> t \<le> start + (timeout - 1) * 1000000 \<Longrightarrow> remaining_ms deadline t \<noteq> 0"
proof -
  assume d: "in_time deadline" and t: "start \<le> t" "t \<le> start + (timeout - 1) * 1000000"
  have l: "t \<le> deadline" "1 \<le> (deadline - t) div 1000000" "(deadline - t) div 1000000 < 2 ^ 31"
    using d t timeout by (simp_all add: in_time_def) linarith+
  then have "sint (word_of_int ((deadline - t) div 1000000) :: 32 word) = (deadline - t) div 1000000"
    by (simp add: signed_of_int signed_take_bit_int_eq_self)
  then show ?thesis using l by (simp add: remaining_ms_def)
qed

lemma wait_ready:
  assumes "in_time deadline"
  shows "\<exists>w'. wait_for api fd e deadline w = Some (True, w') \<and> inp w' = inp w \<and> out w' = out w \<and> patience w' \<le> patience w"
proof (induction "patience w" arbitrary: w rule: less_induct)
  case less
  obtain t w1 where n: "so_now api w = (t, w1)" by (rule prod.exhaust)
  obtain r w2 where p: "so_poll api fd e (remaining_ms deadline t) w1 = (r, w2)" by (rule prod.exhaust)
  note now = now_reads [OF n] and poll = poll_ready [OF p]
  have ms: "remaining_ms deadline t \<noteq> 0" using time_left [OF assms] now by blast
  show ?case
  proof (cases "r = Inl EINTR \<and> patience w2 < patience w1")
    case True
    then have "patience w2 < patience w" using now by simp
    then obtain w' where "wait_for api fd e deadline w2 = Some (True, w')" "inp w' = inp w2" "out w' = out w2" "patience w' \<le> patience w2"
      using less by blast
    then show ?thesis
      using True now poll ms by (intro exI [of _ w'], subst wait_for.simps) (simp add: n p Let_def)
  next
    case False
    then show ?thesis using now poll ms by (intro exI [of _ w2], subst wait_for.simps) (auto simp: n p Let_def)
  qed
qed

lemma send_delivers:
  assumes "in_time deadline" "sent \<le> length request"
  shows "\<exists>w'. send_loop api fd request deadline sent w = Some (Inr (), w') \<and> inp w' = inp w \<and> out w' = out w @ drop sent request"
  using assms(2)
proof (induction "patience w + (length request - sent)" arbitrary: w sent rule: less_induct)
  case less
  show ?case
  proof (cases "sent < length request")
    case False
    then show ?thesis by (subst send_loop.simps) simp
  next
    case True
    obtain w1 where w: "wait_for api fd POLLOUT deadline w = Some (True, w1)" "inp w1 = inp w" "out w1 = out w" "patience w1 \<le> patience w"
      using wait_ready [OF assms(1)] by blast
    obtain r w2 where s: "so_send api fd (drop sent request) w1 = (r, w2)" by (rule prod.exhaust)
    note sd = sends [OF s]
    show ?thesis
    proof (cases "\<exists>n. r = Inr n")
      case False
      then have f: "r = Inl EAGAIN \<or> r = Inl EINTR" "patience w2 < patience w1" "out w2 = out w1" "inp w2 = inp w1" using sd by auto
      have "patience w2 + (length request - sent) < patience w + (length request - sent)" using f(2) w(4) by simp
      from less.hyps [OF this less.prems] show ?thesis
        using f w True by (subst send_loop.simps) (auto simp: s)
    next
      case n: True
      then obtain n where r: "r = Inr n" by blast
      then have f: "n \<le> length request - sent" "0 < n" "patience w2 \<le> patience w1" "out w2 = out w1 @ take n (drop sent request)" "inp w2 = inp w1"
        using sd True by auto
      have m: "patience w2 + (length request - (sent + n)) < patience w + (length request - sent)" "sent + n \<le> length request"
        using f w(4) True by simp_all
      have "take n (drop sent request) @ drop (sent + n) request = drop sent request"
        using append_take_drop_id [of n "drop sent request"] by (simp add: add.commute)
      with less.hyps [OF m] show ?thesis
        using f w True r by (subst send_loop.simps) (auto simp: s)
    qed
  qed
qed

lemma recv_collects:
  assumes "in_time deadline"
  shows "\<exists>got w'. recv_loop api fd deadline head w = Some (Inr got, w') \<and> out w' = out w
    \<and> (\<exists>rest. head @ inp w = got @ rest) \<and> (find_crlf got \<noteq> None \<or> 1024 \<le> length got \<or> got = head @ inp w)"
proof (induction "patience w + length (inp w)" arbitrary: w head rule: less_induct)
  case less
  show ?case
  proof (cases "find_crlf head = None \<and> length head < 1024")
    case False
    then show ?thesis by (intro exI [of _ head] exI [of _ w], subst recv_loop.simps) auto
  next
    case True
    obtain w1 where w: "wait_for api fd POLLIN deadline w = Some (True, w1)" "inp w1 = inp w" "out w1 = out w" "patience w1 \<le> patience w"
      using wait_ready [OF assms] by blast
    obtain r w2 where s: "so_recv api fd 256 w1 = (r, w2)" by (rule prod.exhaust)
    note rc = receives [OF s]
    show ?thesis
    proof (cases "\<exists>c. r = Inr c")
      case False
      then have f: "r = Inl EAGAIN \<or> r = Inl EINTR" "patience w2 < patience w1" "out w2 = out w1" "inp w2 = inp w1" using rc by auto
      have "patience w2 + length (inp w2) < patience w + length (inp w)" using f w by simp
      from less [OF this, of head] show ?thesis
        using f w True by (subst recv_loop.simps) (auto simp: s)
    next
      case c: True
      then obtain c where r: "r = Inr c" by blast
      then have f: "c = [] \<longrightarrow> inp w1 = []" "patience w2 \<le> patience w1" "out w2 = out w1" "inp w1 = c @ inp w2"
        using rc by auto
      show ?thesis
      proof (cases "c = []")
        case e: True
        then show ?thesis using f w True r by (intro exI [of _ head] exI [of _ w2], subst recv_loop.simps) (simp add: s)
      next
        case ne: False
        have "patience w2 + length (inp w2) < patience w + length (inp w)" using f w ne by (cases c) auto
        from less [OF this, of "head @ c"] show ?thesis
          using f w True r ne by (subst recv_loop.simps) (auto simp: s)
      qed
    qed
  qed
qed

lemma probe_connects:
  "in_time deadline \<Longrightarrow> \<exists>w'. probe_connect api fd h p deadline w = Some (Inr (), w') \<and> inp w' = inp w \<and> out w' = out w"
proof -
  assume d: "in_time deadline"
  obtain c w1 where c: "so_connect api fd h p w = (c, w1)" by (rule prod.exhaust)
  obtain w2 where p: "wait_for api fd POLLOUT deadline w1 = Some (True, w2)" "inp w2 = inp w1" "out w2 = out w1"
    using wait_ready [OF d] by blast
  obtain e w3 where e: "so_error api fd w2 = (e, w3)" by (rule prod.exhaust)
  show ?thesis
    using connects(1) [OF c] connects(2) [OF e] c p e by (cases c) (auto simp: probe_connect_def)
qed

lemma probe_reads:
  assumes pton: "so_inet_pton api (c_str host)"
    and line: "find_crlf (inp w) = Some p \<and> p + 2 \<le> 1024 \<or> find_crlf (inp w) = None \<and> length (inp w) < 1024"
  shows "\<exists>w'. probe_http_health api host port path timeout w = Some (status_result (inp w), w')
    \<and> out w' = out w @ probe_request host path"
proof -
  obtain t w1 where n: "so_now api w = (t, w1)" by (rule prod.exhaust)
  obtain s w2 where s: "so_socket api w1 = (s, w2)" by (rule prod.exhaust)
  define deadline where "deadline = t + timeout * 1000000"
  have d: "in_time deadline"
    using now_reads [OF n] by (simp add: in_time_def deadline_def algebra_simps)
  obtain fd where fd: "s = Inr fd" using opens(1) [OF s] by blast
  obtain w3 where c: "probe_connect api fd (c_str host) (word_of_int port) deadline (so_nonblock api fd w2) = Some (Inr (), w3)"
      "inp w3 = inp w2" "out w3 = out w2"
    using probe_connects [OF d] opens(2) by metis
  obtain w4 where q: "send_loop api fd (probe_request host path) deadline 0 w3 = Some (Inr (), w4)"
      "inp w4 = inp w3" "out w4 = out w3 @ probe_request host path"
    using send_delivers [OF d, of 0 "probe_request host path" fd w3] by auto
  obtain got w5 rest where r: "recv_loop api fd deadline [] w4 = Some (Inr got, w5)" "out w5 = out w4"
      "inp w4 = got @ rest" "find_crlf got \<noteq> None \<or> 1024 \<le> length got \<or> got = inp w4"
    using recv_collects [OF d, of fd "[]" w4] by auto
  have i: "inp w4 = inp w" "out w2 = out w" using q c opens(1) [OF s] now_reads [OF n] by simp_all
  have "status_result got = status_result (inp w)"
    by (rule status_result_stable [OF _ _ line]) (use r i in auto)
  then have "probe_http_health api host port path timeout w = Some (status_result (inp w), so_close api fd w5)"
    using pton fd c(1) q(1) r(1)
    by (simp add: probe_http_health_def n s Let_def on_fail_def flip: deadline_def)
  then show ?thesis using closes r(2) q(3) c(3) i by auto
qed

end

subsection \<open>What makes a result healthy\<close>

lemma on_fail_Some:
  "on_fail x k = Some (r, w) \<Longrightarrow> (\<exists>why. r = probe_fail why) \<or> (\<exists>a v. k a v = Some (r, w))"
  by (cases x; cases "fst (the x)") (auto simp: on_fail_def)

lemma probe_result:
  "probe_http_health api host port path timeout w = Some (r, w') \<Longrightarrow> healthy r \<Longrightarrow> \<exists>head. r = status_result head"
  by (auto simp: probe_http_health_def Let_def probe_fail_def split: prod.splits if_splits sum.splits
      dest!: on_fail_Some)

lemma healthy_detail:
  assumes "healthy (status_result head)"
  shows "detail (status_result head) = (case find_crlf head of Some eol \<Rightarrow> take eol head | None \<Rightarrow> head)"
    and "find_crlf (detail (status_result head)) = None"
proof -
  show d: "detail (status_result head) = (case find_crlf head of Some eol \<Rightarrow> take eol head | None \<Rightarrow> head)"
    using assms by (auto simp: status_result_def Let_def probe_fail_def substr_def split: option.splits if_splits)
  show "find_crlf (detail (status_result head)) = None"
    unfolding d by (cases "find_crlf head") (simp_all add: find_crlf_prefix_None)
qed

section \<open>Systems that satisfy the laws\<close>

text \<open>
  A peer on a system that cuts the bytes as \<open>cut_out\<close> and \<open>cut_in\<close> say, and interrupts as many waits as the first
  component of the world counts.
\<close>

definition simulated_peer :: "(nat \<Rightarrow> nat) \<Rightarrow> (nat \<Rightarrow> nat) \<Rightarrow> (nat \<times> string \<times> string) socket_api" where
  "simulated_peer cut_out cut_in =
     \<lparr>so_now = (\<lambda>w. (0, w)), so_inet_pton = (\<lambda>_. True), so_socket = (\<lambda>w. (Inr 3, w)), so_nonblock = (\<lambda>_ w. w),
      so_connect = (\<lambda>_ _ _ w. (Inl EINPROGRESS, w)),
      so_poll = (\<lambda>_ e _ (k, io). if k = 0 then (Inr (1, POLLHUP), (k, io)) else (Inl EINTR, (k - 1, io))),
      so_error = (\<lambda>_ w. (0, w)),
      so_send = (\<lambda>_ s (k, i, ou). let n = min (Suc (cut_out (length s))) (length s) in (Inr n, (k, i, ou @ take n s))),
      so_recv = (\<lambda>_ m (k, i, ou). let n = min (Suc (cut_in (length i))) m in (Inr (take n i), (k, drop n i, ou))),
      so_close = (\<lambda>_ w. w), so_strerror = (\<lambda>_. [])\<rparr>"

text \<open>Any system, on a clock that moves by a nanosecond with each call of \<open>poll\<close> and of the data transfer.\<close>

definition with_clock :: "'w socket_api \<Rightarrow> ('w \<times> int) socket_api" where
  "with_clock api =
     \<lparr>so_now = (\<lambda>(w, t). (t, (w, t))), so_inet_pton = so_inet_pton api,
      so_socket = (\<lambda>(w, t). case so_socket api w of (r, w) \<Rightarrow> (r, (w, t))),
      so_nonblock = (\<lambda>fd (w, t). (so_nonblock api fd w, t)),
      so_connect = (\<lambda>fd h p (w, t). case so_connect api fd h p w of (r, w) \<Rightarrow> (r, (w, t))),
      so_poll = (\<lambda>fd e ms (w, t). case so_poll api fd e ms w of (r, w) \<Rightarrow> (r, (w, t + 1))),
      so_error = (\<lambda>fd (w, t). case so_error api fd w of (r, w) \<Rightarrow> (r, (w, t))),
      so_send = (\<lambda>fd s (w, t). case so_send api fd s w of (r, w) \<Rightarrow> (r, (w, t + 1))),
      so_recv = (\<lambda>fd m (w, t). case so_recv api fd m w of (r, w) \<Rightarrow> (r, (w, t + 1))),
      so_close = (\<lambda>fd (w, t). (so_close api fd w, t)), so_strerror = so_strerror api\<rparr>"

lemma pollhup_seen: "POLLHUP AND (e OR POLLHUP) \<noteq> 0"
proof
  assume "POLLHUP AND (e OR POLLHUP) = 0"
  then have "bit (POLLHUP AND (e OR POLLHUP)) 4 = bit (0 :: 16 word) 4" by simp
  then show False by (simp add: POLLHUP_def bit_simps)
qed

lemma simulated_recv:
  "so_recv (simulated_peer cut_out cut_in) fd m w = (rr, w') \<Longrightarrow> snd (snd w') = snd (snd w) \<and> fst w' = fst w
    \<and> (\<exists>chunk. rr = Inr chunk \<and> length chunk \<le> m \<and> (chunk = [] \<longrightarrow> fst (snd w) = [] \<or> m = 0) \<and> fst (snd w) = chunk @ fst (snd w'))"
  by (cases w) (auto simp: simulated_peer_def Let_def)

lemma simulated_poll:
  "so_poll (simulated_peer cut_out cut_in) fd e ms w = (r, w') \<Longrightarrow> snd w' = snd w
    \<and> (r = Inl EINTR \<and> fst w' < fst w
       \<or> (\<exists>rc revents. r = Inr (rc, revents) \<and> 0 < rc \<and> (revents AND (e OR POLLHUP)) \<noteq> 0 \<and> fst w' \<le> fst w))"
  using pollhup_seen [of e] by (cases w) (auto simp: simulated_peer_def split: if_splits)

interpretation simulated: answering_peer "simulated_peer cut_out cut_in" "\<lambda>w. fst (snd w)" "\<lambda>w. snd (snd w)" fst 0 2000
  for cut_out cut_in
proof unfold_locales
  show "so_poll (simulated_peer cut_out cut_in) fd e ms w = (r, w') \<Longrightarrow> fst (snd w') = fst (snd w) \<and> snd (snd w') = snd (snd w)
      \<and> (r = Inl EINTR \<and> fst w' < fst w
          \<or> (\<exists>rc revents. r = Inr (rc, revents) \<and> 0 < rc \<and> (revents AND (e OR POLLHUP)) \<noteq> 0 \<and> fst w' \<le> fst w))" for fd e ms w r w'
    using simulated_poll [of cut_out cut_in fd e ms w r w'] by simp
  show "so_recv (simulated_peer cut_out cut_in) fd m w = (rr, w') \<Longrightarrow> snd (snd w') = snd (snd w)
      \<and> ((rr = Inl EAGAIN \<or> rr = Inl EINTR) \<and> fst w' < fst w \<and> fst (snd w') = fst (snd w)
          \<or> (\<exists>chunk. rr = Inr chunk \<and> length chunk \<le> m \<and> (chunk = [] \<longrightarrow> fst (snd w) = [] \<or> m = 0) \<and> fst w' \<le> fst w
              \<and> fst (snd w) = chunk @ fst (snd w')))" for fd m w rr w'
    using simulated_recv [of cut_out cut_in fd m w rr w'] by auto
qed (auto simp: simulated_peer_def Let_def)

interpretation timed: running_clock "with_clock api" snd for api
  by unfold_locales (auto simp: with_clock_def split: prod.splits)

text \<open>A system on which every wait is interrupted and nothing is ever transferred.\<close>

definition stuck_system :: "unit socket_api" where
  "stuck_system =
     \<lparr>so_now = (\<lambda>w. (0, w)), so_inet_pton = (\<lambda>_. True), so_socket = (\<lambda>w. (Inr 3, w)), so_nonblock = (\<lambda>_ w. w),
      so_connect = (\<lambda>_ _ _ w. (Inl EINPROGRESS, w)), so_poll = (\<lambda>_ e ms w. (Inl EINTR, w)),
      so_error = (\<lambda>_ w. (0, w)), so_send = (\<lambda>_ s w. (Inl EAGAIN, w)), so_recv = (\<lambda>_ m w. (Inl EAGAIN, w)),
      so_close = (\<lambda>_ w. w), so_strerror = (\<lambda>_. [])\<rparr>"

section \<open>Properties\<close>

text \<open>
  The probe and its peer. Against a peer that answers before the deadline, the whole request is sent,
  whatever the system cuts it into, and the verdict depends on the bytes of the answer
  only, not on the pieces in which they arrive or on interrupted calls: healthy exactly when the first line is
  \<open>HTTP/1.\<close>, two characters and \<open>200\<close>. The line must end within the first 1024 bytes, or the whole answer be shorter.
\<close>

theorem probe_reads_status_line:
  assumes "answering_peer api inp out patience start timeout" and "so_inet_pton api (c_str host)"
    and "find_crlf (inp w) = Some p \<and> p + 2 \<le> 1024 \<or> find_crlf (inp w) = None \<and> length (inp w) < 1024"
  shows "\<exists>w'. probe_http_health api host port path timeout w = Some (status_result (inp w), w')
    \<and> out w' = out w @ probe_request host path
    \<and> (healthy (status_result (inp w)) \<longleftrightarrow> (\<exists>a b r. (case find_crlf (inp w) of Some eol \<Rightarrow> take eol (inp w) | None \<Rightarrow> inp w)
         = ''HTTP/1.'' @ [a, b] @ ''200'' @ r))"
  using answering_peer.probe_reads [OF assms] healthy_iff [of "inp w"] by blast

lemma probe_reads_status_line_witness:
  "\<exists>w'. probe_http_health (simulated_peer (\<lambda>n. n div 3) (\<lambda>_. 4)) ''127.0.0.1'' 8080 default_probe_path default_probe_timeout
       (2, ''HTTP/1.1 200 OK'' @ [CHR 0x0D, CHR 0x0A] @ ''Server: x'', []) = Some (\<lparr>healthy = True, detail = ''HTTP/1.1 200 OK''\<rparr>, w')
     \<and> snd (snd w') = probe_request ''127.0.0.1'' ''/health''"
proof -
  have f: "find_crlf (''HTTP/1.1 200 OK'' @ [CHR 0x0D, CHR 0x0A] @ ''Server: x'') = Some 15" by code_simp
  have s: "status_result (''HTTP/1.1 200 OK'' @ [CHR 0x0D, CHR 0x0A] @ ''Server: x'') = \<lparr>healthy = True, detail = ''HTTP/1.1 200 OK''\<rparr>"
    by code_simp
  have "so_inet_pton (simulated_peer (\<lambda>n. n div 3) (\<lambda>_. 4)) (c_str ''127.0.0.1'')" by (simp add: simulated_peer_def)
  from probe_reads_status_line [OF simulated.answering_peer_axioms this,
      where w = "(2, ''HTTP/1.1 200 OK'' @ [CHR 0x0D, CHR 0x0A] @ ''Server: x'', [])" and p = 15
        and port = 8080 and path = default_probe_path, unfolded fst_conv snd_conv s f]
  show ?thesis by (simp add: default_probe_path_def default_probe_timeout_def)
qed



end
