(* ===== verification/Server.thy ===== *)
theory Server
  imports Endpoints Handlers KeyStore Migration PgPool HealthProbe
begin

text \<open>
  The server process, \<open>src/main.cpp\<close>: reading the environment, the start in its order with the reasons to
  stop, the advices in the order in which they are registered, the table of routes, and \<open>--health-check\<close>.
  The framework's event loop is not modelled: a server is what has been set up when \<open>run()\<close> is
  called, and one request at a time goes through it. The framework's choice of a route, its answer to an
  exception that leaves a handler, and the libraries are the parameter \<open>platform\<close>.
\<close>

section \<open>The pool as the client of the repositories\<close>

text \<open>
  libpqxx on a connection's handle, and the pool, which all components share, in the world. \<open>px_wakes\<close> is
  what other threads do to pool and world while \<open>acquire\<close> waits; when the list ends,
  the wait that follows times out, with the pool as the last iteration left it.
\<close>

record 'w pqxx =
  px_driver :: "'w pg_driver"
  px_pool :: "'w \<Rightarrow> pg_pool"
  px_set_pool :: "pg_pool \<Rightarrow> 'w \<Rightarrow> 'w"
  px_wakes :: "'w \<Rightarrow> (bool \<times> pg_pool \<times> 'w) list"
  px_begin :: "nat \<Rightarrow> 'w \<Rightarrow> (exn + unit) \<times> 'w"
  px_exec_params :: "nat \<Rightarrow> string \<Rightarrow> string list \<Rightarrow> 'w \<Rightarrow> (exn + pg_row list) \<times> 'w"
  px_exec :: "nat \<Rightarrow> string \<Rightarrow> 'w \<Rightarrow> (exn + pg_row list) \<times> 'w"
  px_quote :: "nat \<Rightarrow> string \<Rightarrow> string"
  px_commit :: "nat \<Rightarrow> 'w \<Rightarrow> (exn + unit) \<times> 'w"
  px_end :: "nat \<Rightarrow> 'w \<Rightarrow> 'w"

definition shared_acquire :: "'w pqxx \<Rightarrow> 'w \<Rightarrow> (exn + nat) \<times> 'w" where
  "shared_acquire px w =
     (case pool_acquire (px_driver px) (px_wakes px w) (px_pool px w) w of
        Some (r, p, w) \<Rightarrow> (r, px_set_pool px p w)
      | None \<Rightarrow>
          (case (if px_wakes px w = [] then (px_pool px w, w) else snd (last (px_wakes px w))) of
             (p, w) \<Rightarrow> (case acquire_loop (px_driver px) p w of
               (_, p, w) \<Rightarrow> (Inl (pool_exhausted p), px_set_pool px p w))))"

text \<open>The destructor of the handle that \<open>acquire\<close> returned.\<close>

definition shared_release :: "'w pqxx \<Rightarrow> nat \<Rightarrow> 'w \<Rightarrow> 'w" where
  "shared_release px c w =
     px_set_pool px (destroy_connection (px_driver px) \<lparr>pc_conn = Some c, pc_returns = True\<rparr> (px_pool px w) w) w"

definition pool_client :: "'w pqxx \<Rightarrow> (nat, 'w) pg_client" where
  "pool_client px =
     \<lparr>pg_acquire = shared_acquire px, pg_begin = px_begin px, pg_exec_params = px_exec_params px,
      pg_exec = px_exec px, pg_quote = px_quote px, pg_commit = px_commit px, pg_end = px_end px,
      pg_release = shared_release px\<rparr>"

section \<open>The environment\<close>

definition env_or :: "(string \<Rightarrow> string option) \<Rightarrow> string \<Rightarrow> string \<Rightarrow> string" where
  "env_or genv var fallback = (case genv var of Some v \<Rightarrow> if v \<noteq> [] then v else fallback | None \<Rightarrow> fallback)"

definition env_flag :: "(string \<Rightarrow> string option) \<Rightarrow> string \<Rightarrow> bool \<Rightarrow> bool" where
  "env_flag genv var fallback =
     (case genv var of
        None \<Rightarrow> fallback
      | Some v \<Rightarrow> if v = [] then fallback else v = ''1'' \<or> v = ''true'' \<or> v = ''TRUE'')"

section \<open>Routes\<close>

datatype target = GatewayTarget gateway_endpoint | ResourceTarget endpoint

text \<open>All registered routes, in the order of registration.\<close>

definition all_routes :: "(string \<times> http_method list \<times> target) list" where
  "all_routes =
     map (\<lambda>(path, methods, e). (path, methods, GatewayTarget e)) (gateway_routes @ readiness_route)
     @ map (\<lambda>(path, m, e). (path, [m], ResourceTarget e)) resource_routes
     @ map (\<lambda>(path, methods, e). (path, methods, GatewayTarget e)) catchall_routes"

section \<open>The platform and the server\<close>

text \<open>\<open>pf_route\<close> returns a target with the path's identifier, or the status of a routing error.\<close>

record ('alg, 'tok, 'w) platform =
  pf_getenv :: "string \<Rightarrow> string option"
  pf_jwt :: "('alg, 'tok) jwt_lib"
  pf_clock :: "'w \<Rightarrow> int"
  pf_keys :: "'w key_env"
  pf_px :: "'w pqxx"
  pf_as_int64 :: "string \<Rightarrow> exn + int"
  pf_exec_plain :: "nat \<Rightarrow> string \<Rightarrow> 'w \<Rightarrow> (exn + unit) \<times> 'w"
  pf_exists :: "string \<Rightarrow> 'w \<Rightarrow> bool"
  pf_entries :: "string \<Rightarrow> 'w \<Rightarrow> dir_entry list"
  pf_json :: json_lib
  pf_jsoncpp :: "string \<Rightarrow> string + jvalue"
  pf_steady :: "'w \<Rightarrow> int"
  pf_route :: "(string \<times> http_method list \<times> target) list \<Rightarrow> http_request \<Rightarrow> nat + target \<times> string"
  pf_unhandled :: "exn \<Rightarrow> http_response"

definition pf_store :: "('alg, 'tok, 'w) platform \<Rightarrow> (nat, 'w) key_store" where
  "pf_store pf = \<lparr>ks_pg = pool_client (pf_px pf), ks_as_int64 = pf_as_int64 pf\<rparr>"

definition pf_migrations :: "('alg, 'tok, 'w) platform \<Rightarrow> (nat, 'w) migration_env" where
  "pf_migrations pf = \<lparr>me_pg = pool_client (pf_px pf), me_exec_plain = pf_exec_plain pf,
     me_as_int64 = pf_as_int64 pf, me_exists = pf_exists pf, me_entries = pf_entries pf\<rparr>"

definition pf_handlers :: "('alg, 'tok, 'w) platform \<Rightarrow> (nat, 'w) handler_env" where
  "pf_handlers pf = \<lparr>he_service = \<lparr>se_pg = pool_client (pf_px pf), se_json = pf_json pf,
       se_cache = \<lparr>ce_redis = ke_redis (pf_keys pf), ce_now = pf_steady pf\<rparr>\<rparr>,
     he_jsoncpp = pf_jsoncpp pf\<rparr>"

record 'w server =
  sv_jwt :: jwt_validator
  sv_keys :: "'w api_key_validator"
  sv_cache :: cache_aside
  sv_limiter :: rate_limiter
  sv_proxies :: "string list"
  sv_ready_config :: redis_config

section \<open>Starting\<close>

text \<open>\<open>return 1\<close> after a message, or an exception that nothing catches.\<close>

datatype stop = Exit int string | Terminate exn

definition fatal :: "string \<Rightarrow> stop" where
  "fatal m = Exit 1 (''FATAL: '' @ m @ [CHR 0x0A])"

definition default_pool_config :: pool_config where
  "default_pool_config =
     \<lparr>connection_string = [], min_connections = 2, max_connections = 10, acquire_timeout_ms = 5000\<rparr>"

definition server_pool_config :: "(string \<Rightarrow> string option) \<Rightarrow> pool_config" where
  "server_pool_config genv =
     default_pool_config\<lparr>connection_string := connection_string_from_env genv,
       min_connections := 2, max_connections := 10\<rparr>"

definition default_migrations_dir :: string where
  "default_migrations_dir = ''/usr/local/share/corvus/migrations''"

definition run_migrations :: "('alg, 'tok, 'w) platform \<Rightarrow> 'w \<Rightarrow> (exn + unit) \<times> 'w" where
  "run_migrations pf w =
     (if env_flag (pf_getenv pf) ''CORVUS_RUN_MIGRATIONS'' True
      then case new_runner (pf_migrations pf) (env_or (pf_getenv pf) ''CORVUS_MIGRATIONS_DIR'' default_migrations_dir) w of
             Inl e \<Rightarrow> (Inl e, w)
           | Inr dir \<Rightarrow> then_do (migrate (pf_migrations pf) dir w) (\<lambda>_ w.
               then_do (current_version (pf_migrations pf) w) (\<lambda>_ w. (Inr (), w)))
      else (Inr (), w))"

definition connect_cache :: "('alg, 'tok, 'w) platform \<Rightarrow> 'w \<Rightarrow> (exn + cache_aside) \<times> 'w" where
  "connect_cache pf w =
     (case redis_config_from_env (pf_getenv pf) of
        Inl e \<Rightarrow> (Inl e, w)
      | Inr cfg \<Rightarrow> then_do (new_redis_connection (ke_redis (pf_keys pf)) cfg w) (\<lambda>redis w.
          (Inr (new_cache_aside redis default_cache_config), w)))"

definition startup :: "('alg, 'tok, 'w) platform \<Rightarrow> 'w \<Rightarrow> (stop + 'w server) \<times> 'w" where
  "startup pf w =
     (case jwt_validator_from_env (pf_jwt pf) (pf_getenv pf) of
        Inl e \<Rightarrow> (Inl (case e of JwtConfigError m \<Rightarrow> fatal m | _ \<Rightarrow> Terminate e), w)
      | Inr jwt \<Rightarrow>
     (case validator_from_env (pf_keys pf) (pf_getenv pf) w of
        (Inl e, w) \<Rightarrow> (Inl (case e of ApiKeyConfigError m \<Rightarrow> fatal m | _ \<Rightarrow> Terminate e), w)
      | (Inr keys, w) \<Rightarrow>
     (case new_pg_pool (px_driver (pf_px pf)) (server_pool_config (pf_getenv pf)) w of
        (Inl e, w) \<Rightarrow> (Inl (fatal (''PostgreSQL unavailable: '' @ what e)), w)
      | (Inr p, w) \<Rightarrow>
     (case run_migrations pf (px_set_pool (pf_px pf) p w) of
        (Inl e, w) \<Rightarrow> (Inl (fatal (''migrations failed: '' @ what e)), w)
      | (Inr _, w) \<Rightarrow>
     (case connect_cache pf w of
        (Inl e, w) \<Rightarrow> (Inl (fatal (''Redis unavailable: '' @ what e)), w)
      | (Inr cache, w) \<Rightarrow>
     (case redis_config_from_env (pf_getenv pf) of
        Inl e \<Rightarrow> (Inl (Terminate e), w)
      | Inr cfg \<Rightarrow>
          (Inr \<lparr>sv_jwt = jwt, sv_keys = set_lookup keys (Some (pg_api_key_lookup (pf_store pf))),
                sv_cache = cache, sv_limiter = new_rate_limiter default_rate_limit_config (pf_steady pf w),
                sv_proxies = trusted_proxies (pf_getenv pf ''CORVUS_TRUSTED_PROXIES''),
                sv_ready_config = cfg\<rparr>, w)))))))"

section \<open>Serving a request\<close>

text \<open>The times that a request's advices read: the wall clock in seconds, and the two readings of the limiter.\<close>

record moment =
  mo_draws :: uuid_draws
  mo_now :: int
  mo_clock :: "int \<times> int"

text \<open>The advices before routing.\<close>

definition before_routing :: "'w server \<Rightarrow> moment \<Rightarrow> http_request \<Rightarrow> advice \<times> 'w server" where
  "before_routing sv mo req =
     (case request_id_advice (mo_draws mo) req of
        Respond resp \<Rightarrow> (Respond resp, sv)
      | Next req \<Rightarrow>
     (case content_length_advice default_size_limit (mo_draws mo) (mo_now mo) req of
        Respond resp \<Rightarrow> (Respond resp, sv)
      | Next req \<Rightarrow>
     (case rate_limit_advice (sv_proxies sv) (mo_draws mo) (mo_now mo) (mo_clock mo) req (sv_limiter sv) of
        (adv, limiter) \<Rightarrow> (adv, sv\<lparr>sv_limiter := limiter\<rparr>))))"

text \<open>The advices before the handler.\<close>

definition before_handling ::
  "('alg, 'tok, 'w) platform \<Rightarrow> 'w server \<Rightarrow> moment \<Rightarrow> http_request \<Rightarrow> 'w \<Rightarrow> (exn + advice) \<times> 'w server \<times> 'w" where
  "before_handling pf sv mo req w =
     (case body_size_advice default_size_limit (mo_draws mo) (mo_now mo) req of
        Respond resp \<Rightarrow> (Inr (Respond resp), sv, w)
      | Next req \<Rightarrow>
     (case auth_advice (jwt_check_of (pf_jwt pf) (sv_jwt sv) (\<lambda>(_, w). pf_clock pf w)) (key_check_of (pf_keys pf))
             (mo_draws mo) (mo_now mo) req (sv_keys sv, w) of
        (r, keys, w) \<Rightarrow> (r, sv\<lparr>sv_keys := keys\<rparr>, w)))"

definition handle ::
  "('alg, 'tok, 'w) platform \<Rightarrow> 'w server \<Rightarrow> moment \<Rightarrow> target \<times> string \<Rightarrow> http_request \<Rightarrow> 'w
     \<Rightarrow> (exn + http_response) \<times> 'w server \<times> 'w" where
  "handle pf sv mo t req w =
     (case t of
        (GatewayTarget Health, _) \<Rightarrow> (Inr (health_handler (mo_draws mo) (mo_now mo) req), sv, w)
      | (GatewayTarget Ready, _) \<Rightarrow>
          (case readiness_handler (pool_client (pf_px pf)) (ke_redis (pf_keys pf)) (sv_ready_config sv)
                  (mo_draws mo) (mo_now mo) req w of
             (resp, w) \<Rightarrow> (Inr resp, sv, w))
      | (GatewayTarget CatchAll, _) \<Rightarrow> (Inr (not_found_handler (mo_draws mo) (mo_now mo) req), sv, w)
      | (ResourceTarget ep, rid) \<Rightarrow>
          (case run_endpoint (pf_handlers pf) (mo_draws mo) (mo_now mo) ep req rid (sv_cache sv) w of
             (r, cache, w) \<Rightarrow> (r, sv\<lparr>sv_cache := cache\<rparr>, w)))"

text \<open>
  How far a request came: answered by an advice or the framework, or handled, with the request that the handler got.
\<close>

datatype way = Refused | Handled target http_request

definition serve ::
  "('alg, 'tok, 'w) platform \<Rightarrow> 'w server \<Rightarrow> moment \<Rightarrow> http_request \<Rightarrow> 'w \<Rightarrow> way \<times> http_response \<times> 'w server \<times> 'w" where
  "serve pf sv mo req w =
     (case before_routing sv mo req of
        (Respond resp, sv) \<Rightarrow> (Refused, resp, sv, w)
      | (Next req, sv) \<Rightarrow>
     (case pf_route pf all_routes req of
        Inl code \<Rightarrow> (Refused, custom_error_handler (mo_draws mo) (mo_now mo) code req, sv, w)
      | Inr t \<Rightarrow>
     (case before_handling pf sv mo req w of
        (Inl e, sv, w) \<Rightarrow> (Refused, pf_unhandled pf e, sv, w)
      | (Inr (Respond resp), sv, w) \<Rightarrow> (Refused, resp, sv, w)
      | (Inr (Next req), sv, w) \<Rightarrow>
     (case handle pf sv mo t req w of
        (Inl e, sv, w) \<Rightarrow> (Handled (fst t) req, pf_unhandled pf e, sv, w)
      | (Inr resp, sv, w) \<Rightarrow> (Handled (fst t) req, request_id_post (mo_draws mo) req resp, sv, w)))))"

section \<open>The process\<close>

text \<open>The states that a server reaches: started, then one request after another.\<close>

inductive server_reachable :: "('alg, 'tok, 'w) platform \<Rightarrow> 'w server \<Rightarrow> 'w \<Rightarrow> bool" for pf where
  Started: "startup pf w0 = (Inr sv, w) \<Longrightarrow> server_reachable pf sv w"
| Served: "server_reachable pf sv w \<Longrightarrow> rq_attrs req = [] \<Longrightarrow> serve pf sv mo req w = (way, resp, sv', w')
    \<Longrightarrow> server_reachable pf sv' w'"

definition kListenPort :: int where
  "kListenPort = 8080"

text \<open>\<open>corvus --health-check\<close>: the exit code, whether the line goes to standard error, and the line.\<close>

definition health_check_main :: "'w socket_api \<Rightarrow> 'w \<Rightarrow> ((int \<times> bool \<times> string) \<times> 'w) option" where
  "health_check_main api w =
     map_option (\<lambda>(result, w).
         ((if healthy result then 0 else 1, \<not> healthy result,
           (if healthy result then ''ok: '' else ''unhealthy: '') @ detail result @ [CHR 0x0A]), w))
       (probe_http_health api ''127.0.0.1'' kListenPort default_probe_path default_probe_timeout w)"

definition is_health_check :: "string list \<Rightarrow> bool" where
  "is_health_check args \<longleftrightarrow> (case args of _ # a # _ \<Rightarrow> a = ''--health-check'' | _ \<Rightarrow> False)"

section \<open>Lemmas\<close>

subsection \<open>Starting\<close>

lemma jwt_from_env_Inl: "jwt_validator_from_env lib genv = Inl e \<Longrightarrow> \<exists>m. e = JwtConfigError m"
  by (auto simp: jwt_validator_from_env_def verify_pem_def split: option.splits if_splits sum.splits)

lemma jwt_from_env_Inr:
  "jwt_validator_from_env lib genv = Inr v \<Longrightarrow>
     \<exists>pem alg. genv ''CORVUS_JWT_PUBLIC_KEY'' = Some pem \<and> pem \<noteq> [] \<and> jl_rs256 lib pem = Inr alg \<and> v = \<lparr>public_key_pem = pem\<rparr>"
  by (auto simp: jwt_validator_from_env_def verify_pem_def split: option.splits if_splits sum.splits)

lemma stoi_Inl: "stoi s = Inl e \<Longrightarrow> e = InvalidArgument ''stoi'' \<or> e = OutOfRange ''stoi''"
  by (auto simp: stoi_def Let_def split: option.splits prod.splits if_splits)

lemma redis_config_Inl: "redis_config_from_env genv = Inl e \<Longrightarrow> e = InvalidArgument ''stoi'' \<or> e = OutOfRange ''stoi''"
  by (auto simp: redis_config_from_env_def Let_def dest: stoi_Inl split: sum.splits prod.splits)

lemma try_connect_frame:
  "try_connect env v w = (r, v', w') \<Longrightarrow> pool_frame v' = pool_frame v \<and> (\<forall>e. r = Inl e \<longrightarrow> (\<exists>m. e = RedisConfigError m))"
  by (auto simp: try_connect_def pool_frame_def dest!: acquire_parts release_parts split: prod.splits sum.splits)

lemma connect_attempts_frame:
  "connect_attempts env n msg v w = (r, w') \<Longrightarrow>
     (case r of Inr v' \<Rightarrow> pool_frame v' = pool_frame v | Inl e \<Rightarrow> \<exists>m. e = ApiKeyConfigError m)"
proof (induction env n msg v w rule: connect_attempts.induct)
  case (2 env left msg v w)
  obtain r1 v1 w1 where t: "try_connect env v w = (r1, v1, w1)" by (rule prod_cases3)
  note f = try_connect_frame [OF t]
  show ?case
  proof (cases r1)
    case (Inr u)
    then show ?thesis using f t 2(2) by auto
  next
    case (Inl e)
    then obtain m where "r1 = Inl (RedisConfigError m)" using f by blast
    then show ?thesis using f 2 t by (auto split: sum.splits)
  qed
qed auto

lemma validator_from_env_result:
  "validator_from_env env genv w = (r, w') \<Longrightarrow>
     (case r of
        Inr v \<Rightarrow> pool_ok v \<and> redis_config_from_env genv = Inr (kv_config v)
      | Inl e \<Rightarrow> redis_config_from_env genv = Inl e
          \<or> (\<exists>cfg. redis_config_from_env genv = Inr cfg) \<and> (\<exists>m. e = ApiKeyConfigError m))"
  using connect_attempts_frame [of env kMaxAttempts "[]" _ w r w'] connect_attempts_ok [of env kMaxAttempts "[]" _ w _ w']
  by (auto simp: validator_from_env_def pool_frame_def split: sum.splits)

lemma open_connections_count:
  "open_connections drv n p w = (Inr p', w') \<Longrightarrow>
     length (pp_idle p') = length (pp_idle p) + n \<and> pp_total p' = pp_total p + of_nat n \<and> pp_config p' = pp_config p"
  by (induction drv n p w rule: open_connections.induct) (auto split: prod.splits sum.splits)

lemma server_pool_two:
  "new_pg_pool drv (server_pool_config genv) w = (Inr p, w') \<Longrightarrow>
     length (pp_idle p) = 2 \<and> pp_total p = 2 \<and> max_connections (pp_config p) = 10"
  by (auto simp: new_pg_pool_def server_pool_config_def default_pool_config_def dest!: open_connections_count split: if_splits)

lemma connect_cache_result:
  "connect_cache pf w = (Inr ca, w') \<Longrightarrow> redis_config_from_env (pf_getenv pf) = Inr (rd_config (ca_redis ca))
     \<and> ctx (ca_redis ca) \<noteq> None \<and> ca_config ca = default_cache_config"
  by (auto simp: connect_cache_def then_do_def new_cache_aside_def dest: new_redis_connection_result(2) split: sum.splits prod.splits)

text \<open>The stages that a server has passed.\<close>

lemma startup_Inr:
  assumes "startup pf w = (Inr sv, w')"
  obtains keys w1 p w2 w3 where
    "jwt_validator_from_env (pf_jwt pf) (pf_getenv pf) = Inr (sv_jwt sv)"
    "validator_from_env (pf_keys pf) (pf_getenv pf) w = (Inr keys, w1)"
    "sv_keys sv = set_lookup keys (Some (pg_api_key_lookup (pf_store pf)))"
    "new_pg_pool (px_driver (pf_px pf)) (server_pool_config (pf_getenv pf)) w1 = (Inr p, w2)"
    "run_migrations pf (px_set_pool (pf_px pf) p w2) = (Inr (), w3)"
    "connect_cache pf w3 = (Inr (sv_cache sv), w')"
    "redis_config_from_env (pf_getenv pf) = Inr (sv_ready_config sv)"
    "sv_limiter sv = new_rate_limiter default_rate_limit_config (pf_steady pf w')"
    "sv_proxies sv = trusted_proxies (pf_getenv pf ''CORVUS_TRUSTED_PROXIES'')"
proof -
  from assms have "\<exists>keys w1 p w2 w3. jwt_validator_from_env (pf_jwt pf) (pf_getenv pf) = Inr (sv_jwt sv)
    \<and> validator_from_env (pf_keys pf) (pf_getenv pf) w = (Inr keys, w1)
    \<and> sv_keys sv = set_lookup keys (Some (pg_api_key_lookup (pf_store pf)))
    \<and> new_pg_pool (px_driver (pf_px pf)) (server_pool_config (pf_getenv pf)) w1 = (Inr p, w2)
    \<and> run_migrations pf (px_set_pool (pf_px pf) p w2) = (Inr (), w3)
    \<and> connect_cache pf w3 = (Inr (sv_cache sv), w')
    \<and> redis_config_from_env (pf_getenv pf) = Inr (sv_ready_config sv)
    \<and> sv_limiter sv = new_rate_limiter default_rate_limit_config (pf_steady pf w')
    \<and> sv_proxies sv = trusted_proxies (pf_getenv pf ''CORVUS_TRUSTED_PROXIES'')"
    unfolding startup_def
    by (clarsimp split: sum.splits prod.splits)
  then show ?thesis using that by blast
qed

lemma startup_Terminate:
  assumes "startup pf w = (Inl (Terminate e), w')"
  shows "redis_config_from_env (pf_getenv pf) = Inl e \<and> (\<exists>jv. jwt_validator_from_env (pf_jwt pf) (pf_getenv pf) = Inr jv)"
proof (cases "jwt_validator_from_env (pf_jwt pf) (pf_getenv pf)")
  case (Inl a)
  then show ?thesis using assms jwt_from_env_Inl [OF Inl] by (auto simp: startup_def fatal_def)
next
  case (Inr jv)
  obtain r w1 where v: "validator_from_env (pf_keys pf) (pf_getenv pf) w = (r, w1)" by (rule prod.exhaust)
  show ?thesis
  proof (cases r)
    case (Inl a)
    then have "a = e" using assms Inr v by (auto simp: startup_def fatal_def split: exn.splits)
    moreover have "\<nexists>m. e = ApiKeyConfigError m" using assms Inr v Inl by (auto simp: startup_def fatal_def split: exn.splits)
    ultimately show ?thesis using validator_from_env_result [OF v] Inl Inr by auto
  next
    case (Inr keys)
    then have "redis_config_from_env (pf_getenv pf) = Inr (kv_config keys)" using validator_from_env_result [OF v] by simp
    then show ?thesis
      using assms \<open>jwt_validator_from_env _ _ = Inr jv\<close> v Inr
      by (auto simp: startup_def fatal_def split: sum.splits prod.splits)
  qed
qed

lemma startup_bad_redis:
  assumes "redis_config_from_env (pf_getenv pf) = Inl e" "jwt_validator_from_env (pf_jwt pf) (pf_getenv pf) = Inr jv"
  shows "startup pf w = (Inl (Terminate e), w)"
  using redis_config_Inl [OF assms(1)] assms by (auto simp: startup_def validator_from_env_def)

lemma startup_Exit:
  "startup pf w = (Inl (Exit code msg), w') \<Longrightarrow> code = 1 \<and> (\<exists>m. msg = ''FATAL: '' @ m @ [CHR 0x0A])"
  by (auto simp: startup_def fatal_def split: sum.splits prod.splits exn.splits)

subsection \<open>The handles of connections\<close>

text \<open>Connections handed out: what the pool counts and does not hold.\<close>

definition handed_out :: "pg_pool \<Rightarrow> 64 word" where
  "handed_out p = pp_total p - of_nat (length (pp_idle p))"

lemma acquire_loop_out:
  "acquire_loop drv p w = (r, p', w') \<Longrightarrow>
     handed_out p' = handed_out p + (case r of Acquired _ \<Rightarrow> 1 | _ \<Rightarrow> 0)"
proof (induction drv p w arbitrary: r p' w' rule: acquire_loop.induct)
  case (1 drv p w)
  show ?case
  proof (cases "pp_idle p")
    case Nil
    then show ?thesis
      using "1.prems" by (subst (asm) acquire_loop.simps) (auto simp: handed_out_def split: if_splits prod.splits sum.splits)
  next
    case (Cons c rest)
    let ?p = "p\<lparr>pp_idle := rest\<rparr>"
    have out: "handed_out ?p = handed_out p + 1" "handed_out (?p\<lparr>pp_total := pp_total ?p - 1\<rparr>) = handed_out p"
      by (simp_all add: handed_out_def Cons)
    obtain m w1 where m: "make_connection drv ?p w = (m, w1)" by (rule prod.exhaust)
    show ?thesis
    proof (cases "pd_is_open drv c w \<or> (\<exists>c'. m = Inr c')")
      case True
      then show ?thesis
        using "1.prems" Cons m out(1) by (subst (asm) acquire_loop.simps) (auto simp: Let_def split: if_splits)
    next
      case False
      then obtain e where e: "m = Inl e" by (cases m) auto
      have rec: "acquire_loop drv (?p\<lparr>pp_total := pp_total ?p - 1\<rparr>) w1 = (r, p', w')"
        using "1.prems" Cons m e False by (subst (asm) acquire_loop.simps) (simp add: Let_def)
      show ?thesis
        using "1.IH" [OF Cons refl _ m [symmetric] e, OF _ rec] False out(2) by simp
    qed
  qed
qed

text \<open>
  No other thread waits or returns: the case in which the counts of one thread can be followed. The library's
  calls leave the pool alone, and the pool is a variable.
\<close>

definition pool_variable :: "'w pqxx \<Rightarrow> bool" where
  "pool_variable px \<longleftrightarrow> (\<forall>p w. px_pool px (px_set_pool px p w) = p) \<and> (\<forall>w. px_wakes px w = [])
     \<and> (\<forall>c w. px_pool px (snd (px_begin px c w)) = px_pool px w) \<and> (\<forall>c w. px_pool px (px_end px c w) = px_pool px w)
     \<and> (\<forall>c sql w. px_pool px (snd (px_exec px c sql w)) = px_pool px w)
     \<and> (\<forall>c sql args w. px_pool px (snd (px_exec_params px c sql args w)) = px_pool px w)
     \<and> (\<forall>c w. px_pool px (snd (px_commit px c w)) = px_pool px w)"

lemma shared_acquire_out:
  assumes "pool_variable px" "shared_acquire px w = (r, w')"
  shows "handed_out (px_pool px w') = handed_out (px_pool px w) + (if isl r then 0 else 1)"
proof -
  obtain a p1 w1 where a: "acquire_loop (px_driver px) (px_pool px w) w = (a, p1, w1)" by (rule prod_cases3)
  have "px_wakes px w = []" "px_pool px (px_set_pool px p1 w1) = p1" using assms(1) by (simp_all add: pool_variable_def)
  then show ?thesis
    using assms(2) acquire_loop_out [OF a]
    by (cases a) (auto simp: shared_acquire_def pool_acquire.simps [of _ "[]"] a)
qed

lemma shared_release_out:
  assumes "pool_variable px"
  shows "handed_out (px_pool px (shared_release px c w)) = handed_out (px_pool px w) - 1"
  using assms
  by (simp add: shared_release_def pool_variable_def destroy_connection_def return_connection_def handed_out_def)

text \<open>\<open>keeps\<close>: an operation leaves the count alone.\<close>

definition keeps :: "('w \<Rightarrow> 'n) \<Rightarrow> ('w \<Rightarrow> (exn + 'a) \<times> 'w) \<Rightarrow> bool" where
  "keeps f m \<longleftrightarrow> (\<forall>w. f (snd (m w)) = f w)"

lemma keepsD: "keeps f m \<Longrightarrow> m w = (r, w') \<Longrightarrow> f w' = f w"
  by (metis keeps_def snd_conv)

lemma in_transaction_keeps:
  assumes px: "pool_variable px" and body: "\<And>c. keeps (\<lambda>w. handed_out (px_pool px w)) (body c)"
  shows "keeps (\<lambda>w. handed_out (px_pool px w)) (in_transaction (pool_client px) body)"
  unfolding keeps_def
proof
  fix w
  obtain r w1 where a: "shared_acquire px w = (r, w1)" by (rule prod.exhaust)
  note out = shared_acquire_out [OF px a]
  show "handed_out (px_pool px (snd (in_transaction (pool_client px) body w))) = handed_out (px_pool px w)"
  proof (cases r)
    case (Inl e)
    then show ?thesis using out a by (simp add: in_transaction_def then_do_def pool_client_def)
  next
    case (Inr c)
    obtain b w2 where b: "px_begin px c w1 = (b, w2)" by (rule prod.exhaust)
    obtain x w3 where x: "body c w2 = (x, w3)" by (rule prod.exhaust)
    have "px_pool px w2 = px_pool px w1" using px b by (metis pool_variable_def snd_conv)
    moreover have "handed_out (px_pool px w3) = handed_out (px_pool px w2)" using keepsD [OF body x] .
    moreover have "px_pool px (px_end px c w3) = px_pool px w3" using px by (simp add: pool_variable_def)
    ultimately show ?thesis
      using out a b x Inr shared_release_out [OF px]
      by (cases b) (simp_all add: in_transaction_def then_do_def pool_client_def)
  qed
qed

lemma with_connection_keeps:
  assumes px: "pool_variable px" and body: "\<And>c. keeps (\<lambda>w. handed_out (px_pool px w)) (body c)"
  shows "keeps (\<lambda>w. handed_out (px_pool px w)) (with_connection (pool_client px) body)"
  unfolding keeps_def
proof
  fix w
  obtain r w1 where a: "shared_acquire px w = (r, w1)" by (rule prod.exhaust)
  show "handed_out (px_pool px (snd (with_connection (pool_client px) body w))) = handed_out (px_pool px w)"
  proof (cases r)
    case (Inr c)
    obtain x w3 where x: "body c w1 = (x, w3)" by (rule prod.exhaust)
    show ?thesis
      using shared_acquire_out [OF px a] a x Inr shared_release_out [OF px] keepsD [OF body x]
      by (simp add: with_connection_def then_do_def pool_client_def)
  qed (use shared_acquire_out [OF px a] a in \<open>simp add: with_connection_def then_do_def pool_client_def\<close>)
qed

subsection \<open>Every operation on the database gives its connection back\<close>

named_theorems keeps_intros \<open>operations that leave the count alone\<close>

abbreviation keeps_out :: "'w pqxx \<Rightarrow> ('w \<Rightarrow> (exn + 'a) \<times> 'w) \<Rightarrow> bool" where
  "keeps_out px \<equiv> keeps (\<lambda>w. handed_out (px_pool px w))"

lemma keeps_return [keeps_intros]: "keeps f (\<lambda>w. (r, w))"
  by (simp add: keeps_def)

lemma keeps_then [keeps_intros]:
  "keeps f m \<Longrightarrow> (\<And>x. keeps f (k x)) \<Longrightarrow> keeps f (\<lambda>w. then_do (m w) (\<lambda>x w. k x w))"
  by (auto simp: keeps_def then_do_def split: prod.split sum.split) (metis snd_conv)+

lemma keeps_case [keeps_intros]:
  "(\<And>x. keeps f (g x)) \<Longrightarrow> keeps f (\<lambda>w. case s of Inl e \<Rightarrow> (Inl e, w) | Inr x \<Rightarrow> g x w)"
  by (cases s) (auto simp: keeps_def)

lemma keeps_handle:
  "keeps f m \<Longrightarrow> (\<And>x. keeps f (k x)) \<Longrightarrow>
     keeps f (\<lambda>w. case m w of (Inl e, w) \<Rightarrow> (Inl (g e), w) | (Inr x, w) \<Rightarrow> k x w)"
  by (auto simp: keeps_def split: prod.split sum.split) (metis snd_conv)+

lemma keeps_if [keeps_intros]: "keeps f m \<Longrightarrow> keeps f m' \<Longrightarrow> keeps f (\<lambda>w. if b then m w else m' w)"
  by (simp add: keeps_def)

lemma keeps_statements [keeps_intros]:
  assumes "pool_variable px"
  shows "keeps_out px (pg_exec (pool_client px) c sql)" "keeps_out px (pg_exec_params (pool_client px) c sql args)"
    "keeps_out px (pg_commit (pool_client px) c)" "keeps_out px (pg_begin (pool_client px) c)"
  using assms by (simp_all add: keeps_def pool_client_def pool_variable_def)

lemma keeps_in_work [keeps_intros]:
  assumes px: "pool_variable px" and body: "keeps_out px (body c)"
  shows "keeps_out px (in_work (pool_client px) message body c)"
proof -
  have e: "handed_out (px_pool px (pg_end (pool_client px) c w)) = handed_out (px_pool px w)" for w
    using px by (simp add: pool_client_def pool_variable_def)
  have "keeps_out px (\<lambda>w. case body c w of
         (Inl e, w) \<Rightarrow> (Inl (MigrationError (message @ what e)), pg_end (pool_client px) c w)
       | (Inr x, w) \<Rightarrow> (Inr x, pg_end (pool_client px) c w))"
    using keepsD [OF body] e by (auto simp: keeps_def split: prod.split sum.split)
  then show ?thesis unfolding in_work_def by (intro keeps_then keeps_statements(4) px)
qed

lemma repo_keeps [keeps_intros]:
  assumes "pool_variable px"
  shows "keeps_out px (repo_create (pool_client px) lib client_id creq)"
    "keeps_out px (repo_find_by_id (pool_client px) lib client_id rid)"
    "keeps_out px (repo_list (pool_client px) lib client_id flt)"
    "keeps_out px (repo_update (pool_client px) lib client_id rid ureq)"
    "keeps_out px (repo_remove (pool_client px) client_id rid)"
  unfolding repo_create_def repo_find_by_id_def repo_list_def repo_update_def repo_remove_def Let_def
  by (intro in_transaction_keeps keeps_intros assms)+

lemma lookup_keeps: "pool_variable px \<Longrightarrow> ks_pg ks = pool_client px \<Longrightarrow> keeps_out px (pg_api_key_lookup ks key_hash)"
  unfolding pg_api_key_lookup_def [abs_def]
  by (simp only:) (intro keeps_handle in_transaction_keeps keeps_intros; assumption)

lemma table_query_keeps:
  "pool_variable px \<Longrightarrow> me_pg env = pool_client px \<Longrightarrow> keeps_out px (table_query env message sql answer)"
  unfolding table_query_def ensure_migrations_table_def
  by (simp only:) (intro with_connection_keeps keeps_intros; assumption)

lemma apply_migration_keeps:
  assumes px: "pool_variable px" and pg: "me_pg env = pool_client px" and plain: "\<And>c s. keeps_out px (me_exec_plain env c s)"
  shows "keeps_out px (apply_migration env m c)"
  unfolding apply_migration_def [abs_def] pg
  by (intro keeps_handle keeps_intros px plain)

lemma migrate_loop_keeps:
  assumes px: "pool_variable px" and pg: "me_pg env = pool_client px" and plain: "\<And>c s. keeps_out px (me_exec_plain env c s)"
  shows "keeps_out px (migrate_loop env applied ms n)"
proof (induction ms arbitrary: n)
  case Nil
  show ?case by (simp add: keeps_return)
next
  case (Cons m ms)
  have "keeps_out px (with_connection (pool_client px) (apply_migration env m))"
    by (intro with_connection_keeps px apply_migration_keeps pg plain)
  then have "keeps_out px (\<lambda>w. then_do (with_connection (pool_client px) (apply_migration env m) w) (\<lambda>_ w.
        migrate_loop env applied ms (n + 1) w))"
    by (intro keeps_then Cons)
  then show ?case using Cons [of n] by (auto simp: pg keeps_def)
qed

lemma migrate_keeps:
  assumes px: "pool_variable px" and pg: "me_pg env = pool_client px" and plain: "\<And>c s. keeps_out px (me_exec_plain env c s)"
  shows "keeps_out px (migrate env dir)" "keeps_out px (current_version env)"
proof -
  have "keeps_out px (\<lambda>w. then_do (applied_versions env w) (\<lambda>applied w. migrate_loop env applied found 0 w))" for found
    unfolding applied_versions_def by (intro keeps_then table_query_keeps migrate_loop_keeps px pg plain)
  then show "keeps_out px (migrate env dir)" by (auto simp: keeps_def migrate_def split: sum.split)
  show "keeps_out px (current_version env)"
    unfolding current_version_def by (intro table_query_keeps px pg)
qed

lemma postgres_check_keeps:
  "pool_variable px \<Longrightarrow> handed_out (px_pool px (snd (postgres_check (pool_client px) w))) = handed_out (px_pool px w)"
proof -
  assume px: "pool_variable px"
  have "keeps_out px (in_transaction (pool_client px) (\<lambda>c w.
      then_do (pg_exec (pool_client px) c ''SELECT 1'' w) (\<lambda>_ w. pg_commit (pool_client px) c w)))"
    by (intro in_transaction_keeps keeps_intros px)
  from keepsD [OF this, of w] show ?thesis
    by (auto simp: postgres_check_def split: prod.split sum.split)
qed

subsection \<open>What a request passes\<close>

lemma before_routing_Next:
  assumes "before_routing sv mo req = (Next req', sv')"
  shows "request_id_advice (mo_draws mo) req = Next req' \<and> sv' = sv\<lparr>sv_limiter := sv_limiter sv'\<rparr>
    \<and> rl_config (sv_limiter sv') = rl_config (sv_limiter sv)
    \<and> (rq_path req' \<in> {''/health'', ''/ready''}
       \<or> fst (allow (sv_limiter sv) (client_key_from_request (sv_proxies sv) req') (fst (mo_clock mo))))"
proof -
  obtain r where i: "request_id_advice (mo_draws mo) req = Next r" by (simp add: request_id_advice_def Let_def)
  have c: "content_length_advice default_size_limit (mo_draws mo) (mo_now mo) r = Next r"
    using assms i by (auto simp: before_routing_def content_length_advice_def Let_def split: if_splits sum.splits)
  obtain a l where l: "rate_limit_advice (sv_proxies sv) (mo_draws mo) (mo_now mo) (mo_clock mo) r (sv_limiter sv) = (a, l)"
    by (rule prod.exhaust)
  have a: "a = Next req'" "sv' = sv\<lparr>sv_limiter := l\<rparr>" using assms i c l by (simp_all add: before_routing_def)
  from l a(1) have "r = req' \<and> (rq_path req' \<in> {''/health'', ''/ready''}
       \<or> fst (allow (sv_limiter sv) (client_key_from_request (sv_proxies sv) req') (fst (mo_clock mo))))"
    by (auto simp: exempt_or_limited Let_def split: if_splits)
  moreover have "rl_config l = rl_config (sv_limiter sv)"
    using l by (auto simp: exempt_or_limited Let_def split: if_splits)
  ultimately show ?thesis using i a(2) by simp
qed

lemma before_routing_server:
  "before_routing sv mo req = (adv, sv') \<Longrightarrow> \<exists>l. sv' = sv\<lparr>sv_limiter := l\<rparr> \<and> rl_config l = rl_config (sv_limiter sv)"
  by (auto simp: before_routing_def exempt_or_limited Let_def split: advice.splits prod.splits if_splits
      intro: exI [of _ "sv_limiter sv'"])

text \<open>Both checks leave a property of validator and world alone.\<close>

lemma authenticate_frame:
  assumes "authenticate creds cj ck s = (r, s')" "P s"
    and "\<And>k s r s'. ck k s = (r, s') \<Longrightarrow> P s \<Longrightarrow> P s'" "\<And>t s r s'. cj t s = (r, s') \<Longrightarrow> P s \<Longrightarrow> P s'"
  shows "P s'"
proof -
  have k: "key_phase creds ck p s = (r, s') \<Longrightarrow> P s \<Longrightarrow> P s'" for p s r s'
    using assms(3) by (fastforce simp: key_phase_def split: if_splits prod.splits sum.splits exn.splits)
  have j: "jwt_phase creds cj p s = (r, s') \<Longrightarrow> P s \<Longrightarrow> P s'" for p s r s'
    using assms(4) by (fastforce simp: jwt_phase_def split: if_splits prod.splits sum.splits exn.splits)
  show ?thesis
    using assms(1,2) by (auto simp: authenticate_def dest: k j split: if_splits prod.splits sum.splits)
qed

lemma auth_frame:
  assumes "auth_advice cj ck rnd now req s = (r, s')" "P s"
    and "\<And>k s r s'. ck k s = (r, s') \<Longrightarrow> P s \<Longrightarrow> P s'" "\<And>t s r s'. cj t s = (r, s') \<Longrightarrow> P s \<Longrightarrow> P s'"
  shows "P s'"
  using assms(1,2) authenticate_frame [where P = P and ck = ck and cj = cj, OF _ _ assms(3,4)]
  by (fastforce simp: auth_advice_def Let_def split: if_splits prod.splits sum.splits)

definition authenticated_as ::
  "('alg, 'tok, 'w) platform \<Rightarrow> 'w server \<Rightarrow> http_request \<Rightarrow> 'w \<Rightarrow> principal \<Rightarrow> bool" where
  "authenticated_as pf sv req w p \<longleftrightarrow>
     fst (authenticate \<lparr>cr_method = method_string (rq_method req), cr_authorization = get_header req ''authorization'',
              cr_api_key = get_header req ''x-api-key''\<rparr>
            (jwt_check_of (pf_jwt pf) (sv_jwt sv) (\<lambda>(_, w). pf_clock pf w)) (key_check_of (pf_keys pf)) (sv_keys sv, w))
       = Inr (Inr p)"

lemma auth_advice_Next:
  assumes "auth_advice cj ck rnd now req s = (Inr (Next req'), s')"
  shows "if starts_with ''/v1/'' (rq_path req)
    then \<exists>p. authenticate \<lparr>cr_method = method_string (rq_method req), cr_authorization = get_header req ''authorization'',
              cr_api_key = get_header req ''x-api-key''\<rparr> cj ck s = (Inr (Inr p), s')
           \<and> req' = insert_attr kClientIdKey (pr_client_id p) req
    else req' = req \<and> s' = s"
  using assms by (auto simp: auth_advice_def Let_def split: if_splits prod.splits sum.splits)

lemma before_handling_Next:
  assumes "before_handling pf sv mo req w = (Inr (Next req'), sv', w')"
  shows "(is_body_method (rq_method req) \<longrightarrow> length (rq_body req) \<le> 1048576)
    \<and> sv' = sv\<lparr>sv_keys := sv_keys sv'\<rparr>
    \<and> (if starts_with ''/v1/'' (rq_path req)
       then \<exists>p. authenticated_as pf sv req w p \<and> required_scope (method_string (rq_method req)) \<in> pr_scopes p
              \<and> req' = insert_attr kClientIdKey (pr_client_id p) req
       else req' = req \<and> w' = w)"
proof -
  have b: "body_size_advice default_size_limit (mo_draws mo) (mo_now mo) req = Next req"
    using assms by (auto simp: before_handling_def body_size_advice_def split: if_splits)
  obtain r keys w1 where a: "auth_advice (jwt_check_of (pf_jwt pf) (sv_jwt sv) (\<lambda>(_, w). pf_clock pf w))
      (key_check_of (pf_keys pf)) (mo_draws mo) (mo_now mo) req (sv_keys sv, w) = (r, keys, w1)"
    by (rule prod_cases3)
  have e: "r = Inr (Next req')" "sv' = sv\<lparr>sv_keys := keys\<rparr>" "w' = w1"
    using assms b a by (simp_all add: before_handling_def)
  note n = auth_advice_Next [OF a [unfolded e(1)]]
  have "is_body_method (rq_method req) \<Longrightarrow> length (rq_body req) \<le> 1048576"
    using b by (auto simp: body_size_advice_def default_size_limit_def split: if_splits)
  moreover have "starts_with ''/v1/'' (rq_path req) \<Longrightarrow>
      \<exists>p. authenticated_as pf sv req w p \<and> required_scope (method_string (rq_method req)) \<in> pr_scopes p
              \<and> req' = insert_attr kClientIdKey (pr_client_id p) req"
  proof -
    assume "starts_with ''/v1/'' (rq_path req)"
    with n obtain p where p: "authenticate \<lparr>cr_method = method_string (rq_method req),
          cr_authorization = get_header req ''authorization'', cr_api_key = get_header req ''x-api-key''\<rparr>
        (jwt_check_of (pf_jwt pf) (sv_jwt sv) (\<lambda>(_, w). pf_clock pf w)) (key_check_of (pf_keys pf)) (sv_keys sv, w)
          = (Inr (Inr p), keys, w1)" "req' = insert_attr kClientIdKey (pr_client_id p) req" by auto
    show ?thesis
      using p authenticate_Inr [THEN iffD1, OF p(1)] by (intro exI [of _ p]) (simp add: authenticated_as_def)
  qed
  ultimately show ?thesis using n e by auto
qed

lemma before_handling_server:
  assumes "before_handling pf sv mo req w = (r, sv', w')" "pool_ok (sv_keys sv)"
  shows "\<exists>k. sv' = sv\<lparr>sv_keys := k\<rparr> \<and> pool_ok k \<and> pool_frame k = pool_frame (sv_keys sv)"
proof (cases "body_size_advice default_size_limit (mo_draws mo) (mo_now mo) req")
  case (Respond resp)
  then show ?thesis using assms by (intro exI [of _ "sv_keys sv"]) (simp add: before_handling_def)
next
  case (Next req1)
  let ?P = "\<lambda>s. pool_ok (fst s) \<and> pool_frame (fst s) = pool_frame (sv_keys sv)"
  obtain r1 keys w1 where a: "auth_advice (jwt_check_of (pf_jwt pf) (sv_jwt sv) (\<lambda>(_, w). pf_clock pf w))
      (key_check_of (pf_keys pf)) (mo_draws mo) (mo_now mo) req1 (sv_keys sv, w) = (r1, keys, w1)"
    by (rule prod_cases3)
  have "?P (keys, w1)"
    by (rule auth_frame [where P = ?P, OF a])
       (use assms(2) in \<open>auto simp: key_check_of_def jwt_check_of_def split: prod.splits dest!: validate_result\<close>)
  then show ?thesis using assms(1) Next a by (auto simp: before_handling_def)
qed

lemma handle_server: "handle pf sv mo t req w = (r, sv', w') \<Longrightarrow> \<exists>c. sv' = sv\<lparr>sv_cache := c\<rparr>"
  by (auto simp: handle_def split: prod.splits target.splits gateway_endpoint.splits intro: exI [of _ "sv_cache sv"])

lemma serve_stages:
  assumes "serve pf sv mo req w = (Handled t req', resp, sv', w')"
  obtains req1 sv1 rid sv2 w2 r where
    "before_routing sv mo req = (Next req1, sv1)" "pf_route pf all_routes req1 = Inr (t, rid)"
    "before_handling pf sv1 mo req1 w = (Inr (Next req'), sv2, w2)" "handle pf sv2 mo (t, rid) req' w2 = (r, sv', w')"
    "resp = (case r of Inl e \<Rightarrow> pf_unhandled pf e | Inr x \<Rightarrow> request_id_post (mo_draws mo) req' x)"
  using assms
  by (auto simp: serve_def split: prod.splits advice.splits sum.splits intro: that)

lemma startup_terminates_iff:
  "(\<exists>e. fst (startup pf w) = Inl (Terminate e)) \<longleftrightarrow>
     (\<exists>jv. jwt_validator_from_env (pf_jwt pf) (pf_getenv pf) = Inr jv) \<and> (\<exists>e. redis_config_from_env (pf_getenv pf) = Inl e)"
proof
  assume "\<exists>e. fst (startup pf w) = Inl (Terminate e)"
  then obtain e w' where "startup pf w = (Inl (Terminate e), w')" by (cases "startup pf w") auto
  from startup_Terminate [OF this] show "(\<exists>jv. jwt_validator_from_env (pf_jwt pf) (pf_getenv pf) = Inr jv)
      \<and> (\<exists>e. redis_config_from_env (pf_getenv pf) = Inl e)" by blast
next
  assume "(\<exists>jv. jwt_validator_from_env (pf_jwt pf) (pf_getenv pf) = Inr jv) \<and> (\<exists>e. redis_config_from_env (pf_getenv pf) = Inl e)"
  then obtain jv e where "redis_config_from_env (pf_getenv pf) = Inl e" "jwt_validator_from_env (pf_jwt pf) (pf_getenv pf) = Inr jv"
    by blast
  from startup_bad_redis [OF this, of w] show "\<exists>e. fst (startup pf w) = Inl (Terminate e)" by simp
qed

lemma startup_has_everything:
  assumes "startup pf w = (Inr sv, w')"
  shows "(\<exists>pem alg. pf_getenv pf ''CORVUS_JWT_PUBLIC_KEY'' = Some pem \<and> pem \<noteq> [] \<and> jl_rs256 (pf_jwt pf) pem = Inr alg
            \<and> sv_jwt sv = \<lparr>public_key_pem = pem\<rparr>)
        \<and> kv_lookup (sv_keys sv) = Some (pg_api_key_lookup (pf_store pf))
        \<and> redis_config_from_env (pf_getenv pf) = Inr (kv_config (sv_keys sv))
        \<and> (\<exists>w1 p w2 w3. new_pg_pool (px_driver (pf_px pf)) (server_pool_config (pf_getenv pf)) w1 = (Inr p, w2)
             \<and> length (pp_idle p) = 2 \<and> max_connections (pp_config p) = 10
             \<and> run_migrations pf (px_set_pool (pf_px pf) p w2) = (Inr (), w3))
        \<and> ctx (ca_redis (sv_cache sv)) \<noteq> None \<and> buckets (sv_limiter sv) = []"
  using assms
proof (rule startup_Inr)
  fix keys w1 p w2 w3
  assume st: "jwt_validator_from_env (pf_jwt pf) (pf_getenv pf) = Inr (sv_jwt sv)"
    "validator_from_env (pf_keys pf) (pf_getenv pf) w = (Inr keys, w1)"
    "sv_keys sv = set_lookup keys (Some (pg_api_key_lookup (pf_store pf)))"
    "new_pg_pool (px_driver (pf_px pf)) (server_pool_config (pf_getenv pf)) w1 = (Inr p, w2)"
    "run_migrations pf (px_set_pool (pf_px pf) p w2) = (Inr (), w3)"
    "connect_cache pf w3 = (Inr (sv_cache sv), w')"
    "sv_limiter sv = new_rate_limiter default_rate_limit_config (pf_steady pf w')"
  show ?thesis
    using jwt_from_env_Inr [OF st(1)] validator_from_env_result [OF st(2)] server_pool_two [OF st(4)]
      connect_cache_result [OF st(6)] st(3-5,7)
    by (simp add: set_lookup_def new_rate_limiter_def) blast
qed

text \<open>
  A request from the network, which carries no attributes, leaves the advices before routing with its identifier and
  nothing else changed, so that what the checks read of it is what the network sent.
\<close>

lemma routed_request:
  assumes "before_routing sv mo (req\<lparr>rq_attrs := []\<rparr>) = (Next req1, sv1)"
  shows "req1 = insert_attr kRequestIdKey
     (let h = get_header req ''x-request-id'' in if h \<noteq> [] then h else generate_uuid (mo_draws mo)) (req\<lparr>rq_attrs := []\<rparr>)"
  using before_routing_Next [OF assms] by (simp add: request_id_advice_def get_header_def Let_def)

lemma routed_request_parts:
  assumes "before_routing sv mo (req\<lparr>rq_attrs := []\<rparr>) = (Next req1, sv1)"
  shows "rq_path req1 = rq_path req" "rq_method req1 = rq_method req" "rq_headers req1 = rq_headers req"
    "rq_body req1 = rq_body req" "rq_peer req1 = rq_peer req" "get_client_id req1 = []"
    "get_header req1 = get_header req"
  by (simp_all add: routed_request [OF assms] get_client_id_def kClientIdKey_def kRequestIdKey_def get_attr_def
      lookup_or_empty_def insert_attr_def get_header_def fun_eq_iff)

lemma client_key_routed:
  assumes "before_routing sv mo (req\<lparr>rq_attrs := []\<rparr>) = (Next req1, sv1)"
  shows "client_key_from_request proxies req1 = client_key_from_request proxies req"
  by (simp add: client_key_from_request_def routed_request_parts [OF assms] Let_def)

lemma authenticated_as_routed:
  assumes "before_routing sv mo (req\<lparr>rq_attrs := []\<rparr>) = (Next req1, sv1)"
  shows "authenticated_as pf sv1 req1 w p \<longleftrightarrow> authenticated_as pf sv req w p"
  using before_routing_server [OF assms] by (auto simp: authenticated_as_def routed_request_parts [OF assms])

lemma get_client_id_insert: "get_client_id (insert_attr kClientIdKey c req) = c"
  by (simp add: get_client_id_def)

lemma routed_request_id:
  assumes "before_routing sv mo (req\<lparr>rq_attrs := []\<rparr>) = (Next req1, sv1)"
    and "before_handling pf sv1 mo req1 w = (Inr (Next req'), sv2, w2)"
  shows "get_request_id req' rnd
     = (let h = get_header req ''x-request-id'' in if h \<noteq> [] then h else generate_uuid (mo_draws mo))"
proof -
  have "generate_uuid (mo_draws mo) \<noteq> []" by (simp add: generate_uuid_def)
  then show ?thesis
    using before_handling_Next [OF assms(2)] routed_request [OF assms(1)]
    by (auto simp: get_request_id_def kClientIdKey_def kRequestIdKey_def Let_def split: if_splits)
qed

lemma resource_outside_v1:
  assumes "before_handling pf sv mo req w = (Inr (Next req'), sv2, w2)"
    and "handle pf sv2 mo (t, rid) req' w2 = (r, sv', w')"
    and "resp = (case r of Inl e \<Rightarrow> pf_unhandled pf e | Inr x \<Rightarrow> request_id_post (mo_draws mo) req' x)"
    and "t = ResourceTarget ep" "\<not> starts_with ''/v1/'' (rq_path req)" "get_client_id req = []"
  shows "rs_status resp = 500 \<and> sv_cache sv' = sv_cache sv \<and> w' = w"
proof -
  note bh = before_handling_Next [OF assms(1)]
  have e: "req' = req" "w2 = w" using bh assms(5) by simp_all
  then have "handle pf sv2 mo (t, rid) req' w2
      = (Inr (internal_error (get_request_id req' (mo_draws mo)) (mo_now mo)), sv2, w)"
    by (simp add: handle_def run_endpoint_no_client assms(4,6))
  moreover have "sv_cache sv2 = sv_cache sv"
    using bh by (metis server.select_convs(3) server.surjective server.update_convs(2))
  ultimately show ?thesis
    using assms(2,3) by (auto simp: request_id_post_def internal_error_def response_simps)
qed

text \<open>What stays true of a server.\<close>

definition server_ok :: "('alg, 'tok, 'w) platform \<Rightarrow> 'w server \<Rightarrow> bool" where
  "server_ok pf sv \<longleftrightarrow> pool_ok (sv_keys sv)
     \<and> pool_frame (sv_keys sv) = (sv_ready_config sv, Some (pg_api_key_lookup (pf_store pf)))
     \<and> redis_config_from_env (pf_getenv pf) = Inr (sv_ready_config sv)
     \<and> jwt_validator_from_env (pf_jwt pf) (pf_getenv pf) = Inr (sv_jwt sv)
     \<and> rl_config (sv_limiter sv) = default_rate_limit_config
     \<and> sv_proxies sv = trusted_proxies (pf_getenv pf ''CORVUS_TRUSTED_PROXIES'')"

lemma server_ok_update:
  "server_ok pf sv \<Longrightarrow> rl_config l = rl_config (sv_limiter sv) \<Longrightarrow> server_ok pf (sv\<lparr>sv_limiter := l\<rparr>)"
  "server_ok pf sv \<Longrightarrow> pool_ok k \<Longrightarrow> pool_frame k = pool_frame (sv_keys sv) \<Longrightarrow> server_ok pf (sv\<lparr>sv_keys := k\<rparr>)"
  "server_ok pf sv \<Longrightarrow> server_ok pf (sv\<lparr>sv_cache := c\<rparr>)"
  by (simp_all add: server_ok_def)

lemma server_ok_started: "startup pf w0 = (Inr sv, w) \<Longrightarrow> server_ok pf sv"
proof (erule startup_Inr)
  fix keys w1
  assume k: "validator_from_env (pf_keys pf) (pf_getenv pf) w0 = (Inr keys, w1)"
    and l: "sv_keys sv = set_lookup keys (Some (pg_api_key_lookup (pf_store pf)))"
    and "jwt_validator_from_env (pf_jwt pf) (pf_getenv pf) = Inr (sv_jwt sv)"
    "redis_config_from_env (pf_getenv pf) = Inr (sv_ready_config sv)"
    "sv_limiter sv = new_rate_limiter default_rate_limit_config (pf_steady pf w)"
    "sv_proxies sv = trusted_proxies (pf_getenv pf ''CORVUS_TRUSTED_PROXIES'')"
  then show "server_ok pf sv"
    using validator_from_env_result [OF k]
    by (simp add: server_ok_def set_lookup_def pool_ok_def pool_frame_def new_rate_limiter_def)
qed

lemma server_ok_serve:
  assumes "serve pf sv mo req w = (way, resp, sv', w')" "server_ok pf sv"
  shows "server_ok pf sv'"
proof -
  obtain a sv1 where r: "before_routing sv mo req = (a, sv1)" by (rule prod.exhaust)
  have ok1: "server_ok pf sv1" using before_routing_server [OF r] assms(2) server_ok_update(1) by blast
  show ?thesis
  proof (cases "\<exists>req1 t. a = Next req1 \<and> pf_route pf all_routes req1 = Inr t")
    case False
    then have "sv' = sv1" using assms(1) r by (auto simp: serve_def split: advice.splits sum.splits)
    then show ?thesis using ok1 by simp
  next
    case True
    then obtain req1 t where t: "a = Next req1" "pf_route pf all_routes req1 = Inr t" by blast
    obtain b sv2 w2 where h: "before_handling pf sv1 mo req1 w = (b, sv2, w2)" by (rule prod_cases3)
    have ok2: "server_ok pf sv2"
      using before_handling_server [OF h] ok1 server_ok_update(2) by (auto simp: server_ok_def)
    have "sv' = sv2 \<or> (\<exists>q c w3. handle pf sv2 mo t q w2 = (c, sv', w3))"
      using assms(1) r t h by (fastforce simp: serve_def split: advice.splits sum.splits prod.splits)
    then show ?thesis using ok2 handle_server server_ok_update(3) by metis
  qed
qed

lemma server_ok_reachable: "server_reachable pf sv w \<Longrightarrow> server_ok pf sv"
  by (induction rule: server_reachable.induct) (blast intro: server_ok_started server_ok_serve)+

lemma before_handling_total:
  assumes "server_ok pf sv"
  shows "\<exists>adv s. before_handling pf sv mo req w = (Inr adv, s)"
proof -
  have "kv_lookup (sv_keys sv) = Some (pg_api_key_lookup (pf_store pf))"
    using assms by (simp add: server_ok_def pool_frame_def)
  from auth_advice_total [OF disjI2 [OF this], where lib = "pf_jwt pf" and jv = "sv_jwt sv"
      and clock = "\<lambda>(_, w). pf_clock pf w" and env = "pf_keys pf" and rnd = "mo_draws mo" and now = "mo_now mo"
      and req = req and w = w]
  obtain adv s where "auth_advice (jwt_check_of (pf_jwt pf) (sv_jwt sv) (\<lambda>(_, w). pf_clock pf w))
      (key_check_of (pf_keys pf)) (mo_draws mo) (mo_now mo) req (sv_keys sv, w) = (Inr adv, s)" by blast
  then show ?thesis
    by (cases s) (auto simp: before_handling_def body_size_advice_def split: advice.split)
qed

section \<open>A platform\<close>

text \<open>
  The pool itself is the world; the database answers nothing, Redis answers every command with \<open>PONG\<close>, and the router
  ignores the case of the path.
\<close>

definition demo_pqxx :: "pg_pool pqxx" where
  "demo_pqxx =
     \<lparr>px_driver = \<lparr>pd_open = (\<lambda>_ w. (Inr 7, w)), pd_is_open = (\<lambda>_ _. True)\<rparr>, px_pool = (\<lambda>w. w), px_set_pool = (\<lambda>p _. p),
      px_wakes = (\<lambda>_. []), px_begin = (\<lambda>_ w. (Inr (), w)), px_exec_params = (\<lambda>_ _ _ w. (Inr [], w)),
      px_exec = (\<lambda>_ _ w. (Inr [], w)), px_quote = (\<lambda>_ s. s), px_commit = (\<lambda>_ w. (Inr (), w)), px_end = (\<lambda>_ w. w)\<rparr>"

definition demo_redis :: "pg_pool hiredis" where
  "demo_redis = \<lparr>hi_connect = (\<lambda>_ _ _ w. (Some \<lparr>rc_handle = 1, rc_err = 0, rc_errstr = []\<rparr>, w)),
     hi_set_timeout = (\<lambda>c _ w. (c, w)), hi_command = (\<lambda>c _ w. (Some (RStatus ''PONG''), c, w)), hi_free = (\<lambda>_ w. w)\<rparr>"

definition demo_platform :: "(unit, unit, pg_pool) platform" where
  "demo_platform = \<lparr>
     pf_getenv = (\<lambda>v. if v = ''CORVUS_JWT_PUBLIC_KEY'' then Some ''pem''
                      else if v = ''CORVUS_RUN_MIGRATIONS'' then Some ''false'' else None),
     pf_jwt = \<lparr>jl_rs256 = (\<lambda>_. Inr ()), jl_decode = (\<lambda>_. Inr ()), jl_has_expires_at = (\<lambda>_. False),
       jl_verify = (\<lambda>_ _ _ _. Inr ()), jl_subject = (\<lambda>_. None), jl_issuer = (\<lambda>_. None), jl_payload_claim = (\<lambda>_ _. None)\<rparr>,
     pf_clock = (\<lambda>_. 0),
     pf_keys = \<lparr>ke_redis = demo_redis, ke_sha256 = (\<lambda>s. map of_char s), ke_now = (\<lambda>_. 0), ke_sleep = (\<lambda>_ w. w)\<rparr>,
     pf_px = demo_pqxx, pf_as_int64 = (\<lambda>_. Inr 0), pf_exec_plain = (\<lambda>_ _ w. (Inr (), w)), pf_exists = (\<lambda>_ _. True),
     pf_entries = (\<lambda>_ _. []), pf_json = \<lparr>json_parse = (\<lambda>_. Inr JsNull), json_dump = (\<lambda>_. Inr [])\<rparr>,
     pf_jsoncpp = (\<lambda>_. Inr JNull), pf_steady = (\<lambda>_. 0),
     pf_route = (\<lambda>_ req. if rq_path req = ''/V1/resources'' then Inr (ResourceTarget ListResources, []) else Inl 404),
     pf_unhandled = (\<lambda>_. internal_error [] 0)\<rparr>"

lemma demo_pool_variable: "pool_variable demo_pqxx"
  by (simp add: pool_variable_def demo_pqxx_def)

definition demo_start :: pg_pool where
  "demo_start = \<lparr>pp_config = default_pool_config, pp_idle = [], pp_total = 0\<rparr>"

lemma demo_starts: "\<exists>sv w. startup demo_platform demo_start = (Inr sv, w) \<and> length (pp_idle w) = 2"
proof -
  have "case startup demo_platform demo_start of (Inr sv, w) \<Rightarrow> length (pp_idle w) = 2 | _ \<Rightarrow> False"
    by code_simp
  then show ?thesis by (auto split: prod.splits sum.splits)
qed

section \<open>Properties\<close>

text \<open>
  C15. Starting. The process serves only after everything it needs was there: the JWT key is set and accepted, Redis answered, the
  key validator looks keys up in PostgreSQL, the pool holds two open connections, the migrations ran (unless they are switched
  off), and the cache has its connection. Every other start ends with exit code 1 and one line that begins \<open>FATAL\<close>,
  except when \<open>CORVUS_REDIS_PORT\<close> or \<open>CORVUS_REDIS_DB\<close> is no number: the exception of \<open>std::stoi\<close> is
  caught by nothing, and the process is aborted.
\<close>

theorem startup_outcomes:
  "(case fst (startup pf w) of
      Inr sv \<Rightarrow> (\<exists>pem alg. pf_getenv pf ''CORVUS_JWT_PUBLIC_KEY'' = Some pem \<and> pem \<noteq> [] \<and> jl_rs256 (pf_jwt pf) pem = Inr alg
            \<and> sv_jwt sv = \<lparr>public_key_pem = pem\<rparr>)
        \<and> kv_lookup (sv_keys sv) = Some (pg_api_key_lookup (pf_store pf))
        \<and> redis_config_from_env (pf_getenv pf) = Inr (kv_config (sv_keys sv))
        \<and> (\<exists>w1 p w2 w3. new_pg_pool (px_driver (pf_px pf)) (server_pool_config (pf_getenv pf)) w1 = (Inr p, w2)
             \<and> length (pp_idle p) = 2 \<and> max_connections (pp_config p) = 10
             \<and> run_migrations pf (px_set_pool (pf_px pf) p w2) = (Inr (), w3))
        \<and> ctx (ca_redis (sv_cache sv)) \<noteq> None \<and> buckets (sv_limiter sv) = []
    | Inl (Exit code msg) \<Rightarrow> code = 1 \<and> (\<exists>m. msg = ''FATAL: '' @ m @ [CHR 0x0A])
    | Inl (Terminate e) \<Rightarrow> e \<in> {InvalidArgument ''stoi'', OutOfRange ''stoi''})
   \<and> ((\<exists>e. fst (startup pf w) = Inl (Terminate e)) \<longleftrightarrow>
        (\<exists>jv. jwt_validator_from_env (pf_jwt pf) (pf_getenv pf) = Inr jv) \<and> (\<exists>e. redis_config_from_env (pf_getenv pf) = Inl e))"
proof (rule conjI)
  show "(\<exists>e. fst (startup pf w) = Inl (Terminate e)) \<longleftrightarrow>
        (\<exists>jv. jwt_validator_from_env (pf_jwt pf) (pf_getenv pf) = Inr jv) \<and> (\<exists>e. redis_config_from_env (pf_getenv pf) = Inl e)"
    by (rule startup_terminates_iff)
  show "case fst (startup pf w) of
      Inr sv \<Rightarrow> (\<exists>pem alg. pf_getenv pf ''CORVUS_JWT_PUBLIC_KEY'' = Some pem \<and> pem \<noteq> [] \<and> jl_rs256 (pf_jwt pf) pem = Inr alg
            \<and> sv_jwt sv = \<lparr>public_key_pem = pem\<rparr>)
        \<and> kv_lookup (sv_keys sv) = Some (pg_api_key_lookup (pf_store pf))
        \<and> redis_config_from_env (pf_getenv pf) = Inr (kv_config (sv_keys sv))
        \<and> (\<exists>w1 p w2 w3. new_pg_pool (px_driver (pf_px pf)) (server_pool_config (pf_getenv pf)) w1 = (Inr p, w2)
             \<and> length (pp_idle p) = 2 \<and> max_connections (pp_config p) = 10
             \<and> run_migrations pf (px_set_pool (pf_px pf) p w2) = (Inr (), w3))
        \<and> ctx (ca_redis (sv_cache sv)) \<noteq> None \<and> buckets (sv_limiter sv) = []
    | Inl (Exit code msg) \<Rightarrow> code = 1 \<and> (\<exists>m. msg = ''FATAL: '' @ m @ [CHR 0x0A])
    | Inl (Terminate e) \<Rightarrow> e \<in> {InvalidArgument ''stoi'', OutOfRange ''stoi''}"
  proof (cases "startup pf w")
    case (Pair r w')
    show ?thesis
      using startup_Exit [of pf w] startup_Terminate [of pf w] redis_config_Inl startup_has_everything [of pf w] Pair
      by (fastforce split: sum.split stop.split)
  qed
qed

text \<open>
  C1. Who is served. Whatever the router does with a request from the network, a resource handler acts only on one that was
  authenticated: under \<open>/v1/\<close>, the client that the handler sees is the one whose credentials were accepted, with the scope
  of the method; elsewhere the handler answers 500 and neither the cache nor the world has changed. Every handled
  request was admitted by the limiter or exempt, has a body within the limit, and the answer carries its
  identifier unless the handler threw.
\<close>

theorem served_requests_authenticated:
  "case serve pf sv mo (req\<lparr>rq_attrs := []\<rparr>) w of
      (Handled t req', resp, sv', w') \<Rightarrow>
        (case t of
           ResourceTarget ep \<Rightarrow>
             (if starts_with ''/v1/'' (rq_path req)
              then \<exists>p. authenticated_as pf sv req w p \<and> get_client_id req' = pr_client_id p
                     \<and> required_scope (method_string (rq_method req)) \<in> pr_scopes p
              else rs_status resp = 500 \<and> sv_cache sv' = sv_cache sv \<and> w' = w)
         | GatewayTarget _ \<Rightarrow> True)
        \<and> (rq_path req \<in> {''/health'', ''/ready''}
           \<or> fst (allow (sv_limiter sv) (client_key_from_request (sv_proxies sv) req) (fst (mo_clock mo))))
        \<and> (if is_body_method (rq_method req) then length (rq_body req) \<le> 1048576 else True)
        \<and> ((\<exists>e. resp = pf_unhandled pf e)
           \<or> map_of (rs_headers resp) ''x-request-id'' = Some (let h = get_header req ''x-request-id'' in
               if h \<noteq> [] then h else generate_uuid (mo_draws mo)))
    | (Refused, _) \<Rightarrow> True"
proof (cases "serve pf sv mo (req\<lparr>rq_attrs := []\<rparr>) w")
  case (fields way resp sv' w')
  show ?thesis
  proof (cases way)
    case (Handled t req')
    obtain req1 sv1 rid sv2 w2 r where st: "before_routing sv mo (req\<lparr>rq_attrs := []\<rparr>) = (Next req1, sv1)"
        "before_handling pf sv1 mo req1 w = (Inr (Next req'), sv2, w2)" "handle pf sv2 mo (t, rid) req' w2 = (r, sv', w')"
        "resp = (case r of Inl e \<Rightarrow> pf_unhandled pf e | Inr x \<Rightarrow> request_id_post (mo_draws mo) req' x)"
      using fields Handled by (auto elim!: serve_stages)
    note parts = routed_request_parts [OF st(1)] and bh = before_handling_Next [OF st(2)]
      and sv1 = before_routing_server [OF st(1)] and br = before_routing_Next [OF st(1)]
    have cache: "sv_cache sv1 = sv_cache sv" using sv1 by auto
    have auth: "authenticated_as pf sv1 req1 w p \<longleftrightarrow> authenticated_as pf sv req w p" for p
      by (rule authenticated_as_routed [OF st(1)])
    have "case t of ResourceTarget ep \<Rightarrow>
             (if starts_with ''/v1/'' (rq_path req)
              then \<exists>p. authenticated_as pf sv req w p \<and> get_client_id req' = pr_client_id p
                     \<and> required_scope (method_string (rq_method req)) \<in> pr_scopes p
              else rs_status resp = 500 \<and> sv_cache sv' = sv_cache sv \<and> w' = w)
         | GatewayTarget _ \<Rightarrow> True"
      using bh resource_outside_v1 [OF st(2-4)]
      by (auto simp: auth parts cache get_client_id_insert split: target.split) blast+
    moreover have "(\<exists>e. resp = pf_unhandled pf e) \<or> map_of (rs_headers resp) ''x-request-id'' = Some
          (let h = get_header req ''x-request-id'' in if h \<noteq> [] then h else generate_uuid (mo_draws mo))"
      using st(4) routed_request_id [OF st(1,2)] by (cases r) (auto simp: request_id_post_def)
    ultimately show ?thesis using br bh by (simp add: fields Handled parts client_key_routed [OF st(1)])
  qed (simp add: fields)
qed

text \<open>
  C22. A server that was started stays set up, whatever requests it serves: the public key, the lookup and the Redis
  configuration of the key validator, the limiter's configuration and the trusted proxies are those of the start, at most eight
  Redis connections are idle, and no exception leaves the advices.
\<close>

theorem server_invariant:
  assumes "server_reachable pf sv w"
  shows "jwt_validator_from_env (pf_jwt pf) (pf_getenv pf) = Inr (sv_jwt sv)
    \<and> kv_lookup (sv_keys sv) = Some (pg_api_key_lookup (pf_store pf))
    \<and> redis_config_from_env (pf_getenv pf) = Inr (kv_config (sv_keys sv)) \<and> idle_connections (sv_keys sv) \<le> 8
    \<and> rl_config (sv_limiter sv) = default_rate_limit_config
    \<and> sv_proxies sv = trusted_proxies (pf_getenv pf ''CORVUS_TRUSTED_PROXIES'')
    \<and> (\<exists>adv s. before_handling pf sv mo req w = (Inr adv, s))"
  using server_ok_reachable [OF assms] before_handling_total [OF server_ok_reachable [OF assms]]
  by (simp add: server_ok_def pool_ok_def pool_frame_def idle_connections_def kMaxIdleConnections_def)

lemma server_invariant_witness:
  "\<exists>sv w. startup demo_platform demo_start = (Inr sv, w) \<and> rl_config (sv_limiter sv) = default_rate_limit_config"
proof -
  obtain sv w where st: "startup demo_platform demo_start = (Inr sv, w)" using demo_starts by blast
  from server_invariant [OF Started [OF st]] st show ?thesis by blast
qed

text \<open>
  C21. No connection is lost: each operation on the database, whether it succeeds, fails or throws, leaves as many connections
  handed out as before, so that it gives back what it took. With one thread, on a library that leaves the pool alone.
\<close>

theorem connections_given_back:
  assumes "pool_variable px" "ks_pg ks = pool_client px" "me_pg env = pool_client px"
    and "\<forall>c s w. handed_out (px_pool px (snd (me_exec_plain env c s w))) = handed_out (px_pool px w)"
  shows "let out = (\<lambda>w. handed_out (px_pool px w)) in
    out (snd (repo_create (pool_client px) lib client_id creq w)) = out w
    \<and> out (snd (repo_find_by_id (pool_client px) lib client_id rid w)) = out w
    \<and> out (snd (repo_list (pool_client px) lib client_id flt w)) = out w
    \<and> out (snd (repo_update (pool_client px) lib client_id rid ureq w)) = out w
    \<and> out (snd (repo_remove (pool_client px) client_id rid w)) = out w
    \<and> out (snd (pg_api_key_lookup ks key_hash w)) = out w
    \<and> out (snd (migrate env dir w)) = out w \<and> out (snd (current_version env w)) = out w
    \<and> out (snd (postgres_check (pool_client px) w)) = out w"
proof -
  have plain: "keeps_out px (me_exec_plain env c s)" for c s using assms(4) by (simp add: keeps_def)
  note px = assms(1)
  note ops = repo_keeps [OF px] lookup_keeps [OF px assms(2)] migrate_keeps [OF px assms(3) plain]
  show ?thesis using postgres_check_keeps [OF px] by (simp add: Let_def ops [unfolded keeps_def])
qed

lemma connections_given_back_witness:
  "handed_out (snd (repo_remove (pool_client demo_pqxx) ''c'' ''7'' demo_start)) = 0"
proof -
  have "handed_out (snd (repo_remove (pool_client demo_pqxx) ''c'' ''7'' demo_start)) = handed_out demo_start"
    using connections_given_back [OF demo_pool_variable, where ks = "\<lparr>ks_pg = pool_client demo_pqxx, ks_as_int64 = (\<lambda>_. Inr 0)\<rparr>"
        and env = "\<lparr>me_pg = pool_client demo_pqxx, me_exec_plain = (\<lambda>_ _ w. (Inr (), w)), me_as_int64 = (\<lambda>_. Inr 0),
          me_exists = (\<lambda>_ _. True), me_entries = (\<lambda>_ _. [])\<rparr>" and client_id = "''c''" and rid = "''7''" and w = demo_start]
    by (simp add: demo_pqxx_def Let_def)
  then show ?thesis by (simp add: handed_out_def demo_start_def)
qed

text \<open>
  \<open>--health-check\<close> against a server that answers in time: exit code 0 and a line on standard output exactly when the
  first line of the answer has status 200, and otherwise 1 and a line on standard error; the line shows the probe's finding.
\<close>

theorem health_check_exit:
  assumes "answering_peer api inp out patience start 2000" and "so_inet_pton api ''127.0.0.1''"
    and "find_crlf (inp w) = Some p \<and> p + 2 \<le> 1024 \<or> find_crlf (inp w) = None \<and> length (inp w) < 1024"
  shows "\<exists>w'. health_check_main api w = Some (
      (if \<exists>a b r. (case find_crlf (inp w) of Some eol \<Rightarrow> take eol (inp w) | None \<Rightarrow> inp w) = ''HTTP/1.'' @ [a, b] @ ''200'' @ r
       then (0, False, ''ok: '' @ detail (status_result (inp w)) @ [CHR 0x0A])
       else (1, True, ''unhealthy: '' @ detail (status_result (inp w)) @ [CHR 0x0A])), w')
    \<and> out w' = out w @ probe_request ''127.0.0.1'' ''/health''"
proof -
  have "c_str ''127.0.0.1'' = ''127.0.0.1''" by code_simp
  then obtain w' where "probe_http_health api ''127.0.0.1'' kListenPort default_probe_path 2000 w
      = Some (status_result (inp w), w')" "out w' = out w @ probe_request ''127.0.0.1'' default_probe_path"
    using answering_peer.probe_reads [OF assms(1) _ assms(3), of "''127.0.0.1''" kListenPort default_probe_path] assms(2) by auto
  then show ?thesis
    by (simp add: health_check_main_def default_probe_timeout_def default_probe_path_def healthy_iff)
qed

lemma health_check_exit_witness:
  "\<exists>w'. health_check_main (simulated_peer (\<lambda>_. 0) (\<lambda>n. n)) (1, ''HTTP/1.1 503 Busy'' @ [CHR 0x0D, CHR 0x0A], [])
     = Some ((1, True, ''unhealthy: HTTP/1.1 503 Busy'' @ [CHR 0x0A]), w')"
proof -
  have f: "find_crlf (''HTTP/1.1 503 Busy'' @ [CHR 0x0D, CHR 0x0A]) = Some 17"
    and d: "detail (status_result (''HTTP/1.1 503 Busy'' @ [CHR 0x0D, CHR 0x0A])) = ''HTTP/1.1 503 Busy''" by code_simp+
  have "so_inet_pton (simulated_peer (\<lambda>_. 0) (\<lambda>n. n)) ''127.0.0.1''" by (simp add: simulated_peer_def)
  from health_check_exit [OF simulated.answering_peer_axioms this,
      where w = "(1, ''HTTP/1.1 503 Busy'' @ [CHR 0x0D, CHR 0x0A], [])" and p = 17, unfolded fst_conv snd_conv f d]
  show ?thesis by (auto split: if_splits)
qed

end
