(* ===== verification/Tenancy.thy ===== *)
theory Tenancy
  imports Isolation Server
begin

text \<open>
  Isolation of tenants in the server of \<open>src/main.cpp\<close>: its repositories use the pool of \<open>src/db/pg_pool.cpp\<close>, so what
  \<open>Isolation\<close> asks of taking and returning connections follows from the pool's code, and only libpqxx, hiredis and the clock
  remain assumptions.
\<close>

section \<open>The pool under isolation\<close>

text \<open>
  The laws of \<open>stores_platform\<close> with libpqxx in place of the pool's client. The pool itself is in the client's part, no
  other thread runs during the request, and whether a connection is open is a matter of that part.
\<close>

locale server_stores =
  fixes pf :: "('alg, 'tok, 'w) platform" and own :: "'w \<Rightarrow> 'v" and others :: "'w \<Rightarrow> 'o"
  assumes pool_own: "own v = own w \<Longrightarrow> px_pool (pf_px pf) v = px_pool (pf_px pf) w"
    and pool_set: "confined own others (\<lambda>w. ((), px_set_pool (pf_px pf) p w))"
    and alone: "px_wakes (pf_px pf) w = []"
    and connects: "confined own others (pd_open (px_driver (pf_px pf)) s)"
    and is_open: "own v = own w \<Longrightarrow> pd_is_open (px_driver (pf_px pf)) h v = pd_is_open (px_driver (pf_px pf)) h w"
    and at_work: "confined own others (px_begin (pf_px pf) h)" "confined own others (px_commit (pf_px pf) h)"
      "confined own others (\<lambda>w. ((), px_end (pf_px pf) h w))"
    and redis_connects: "confined own others (hi_connect (ke_redis (pf_keys pf)) host port t)"
      "confined own others (hi_set_timeout (ke_redis (pf_keys pf)) x t)"
      "confined own others (\<lambda>w. ((), hi_free (ke_redis (pf_keys pf)) x w))"
    and redis_set_up: "confined_in own others (\<lambda>_. True) (hi_command (ke_redis (pf_keys pf)) x [''AUTH'', a])"
      "confined_in own others (\<lambda>_. True) (hi_command (ke_redis (pf_keys pf)) x [''SELECT'', a])"
begin

abbreviation "px \<equiv> pf_px pf"

lemma confined_value:
  assumes "\<And>v w. own v = own w \<Longrightarrow> f v = f w"
  shows "confined own others (\<lambda>w. (f w, w))"
  by (rule confinedI; simp only: fst_conv snd_conv) (intro conjI refl, erule assms)

lemma confined_reads:
  "confined own others (\<lambda>w. (px_pool px w, w))" "confined own others (\<lambda>w. (pd_is_open (px_driver px) h w, w))"
  by (rule confined_value, erule pool_own is_open)+

lemma confined_make: "confined own others (make_connection (px_driver px) p)"
  unfolding make_connection_def [abs_def] by (intro confine connects)

lemma confined_acquire_loop: "confined_in own others (\<lambda>_. True) (acquire_loop (px_driver px) p)"
proof (induction "pp_idle p" arbitrary: p)
  case Nil
  then have "acquire_loop (px_driver px) p = (\<lambda>w. if pp_total p < max_connections (pp_config p)
      then case make_connection (px_driver px) p w of
          (Inl e, w) \<Rightarrow> (Failed e, p, w)
        | (Inr conn, w) \<Rightarrow> (Acquired conn, p\<lparr>pp_total := pp_total p + 1\<rparr>, w)
      else (MustWait, p, w))"
    by (intro ext) (simp add: acquire_loop.simps [of _ p])
  then show ?case by (simp only:) (intro confine confined_make TrueI)
next
  case (Cons h rest)
  let ?p = "p\<lparr>pp_idle := rest\<rparr>"
  have "acquire_loop (px_driver px) p = (\<lambda>w. case (pd_is_open (px_driver px) h w, w) of (b, w) \<Rightarrow>
      if b then (Acquired h, ?p, w)
      else case make_connection (px_driver px) ?p w of
          (Inr c, w) \<Rightarrow> (Acquired c, ?p, w)
        | (Inl _, w) \<Rightarrow> acquire_loop (px_driver px) (?p\<lparr>pp_total := pp_total ?p - 1\<rparr>) w)"
    using Cons(2) [symmetric] by (intro ext) (simp add: acquire_loop.simps [of _ p] Let_def)
  moreover have "confined_in own others (\<lambda>_. True) (acquire_loop (px_driver px) (?p\<lparr>pp_total := pp_total ?p - 1\<rparr>))"
    by (rule Cons(1)) simp
  then have "confined_in own others (\<lambda>_. True) (\<lambda>w. case (pd_is_open (px_driver px) h w, w) of (b, w) \<Rightarrow>
      if b then (Acquired h, ?p, w)
      else case make_connection (px_driver px) ?p w of
          (Inr c, w) \<Rightarrow> (Acquired c, ?p, w)
        | (Inl _, w) \<Rightarrow> acquire_loop (px_driver px) (?p\<lparr>pp_total := pp_total ?p - 1\<rparr>) w)"
    by (intro confined_in_world [OF confined_reads(2)] confine confined_make TrueI)
  ultimately show ?case by (simp only:)
qed

lemma confined_acquire: "confined own others (shared_acquire px)"
proof -
  let ?reply = "\<lambda>a p. case a of Acquired h \<Rightarrow> Inr h | Failed e \<Rightarrow> Inl e | MustWait \<Rightarrow> Inl (pool_exhausted p)"
  let ?run = "\<lambda>p w. case (case acquire_loop (px_driver px) p w of (a, p, w) \<Rightarrow> ((a, p), w)) of (ap, w) \<Rightarrow>
      (case ((), px_set_pool px (snd ap) w) of (_, w) \<Rightarrow> (?reply (fst ap) (snd ap), w))"
  have "shared_acquire px w = (case (px_pool px w, w) of (p, w) \<Rightarrow> ?run p w)" for w
  proof -
    obtain a p1 w1 where a: "acquire_loop (px_driver px) (px_pool px w) w = (a, p1, w1)" by (rule prod_cases3)
    then show ?thesis
      by (cases a) (simp_all add: shared_acquire_def pool_acquire.simps [of _ "[]"] alone)
  qed
  then have "shared_acquire px = (\<lambda>w. case (px_pool px w, w) of (p, w) \<Rightarrow> ?run p w)" by (rule ext)
  moreover have "confined own others (?run p)" for p
    by (intro confined_bind [OF confined_inD(1) [OF confined_acquire_loop]] confined_bind [OF pool_set] confined_return)
  then have "confined own others (\<lambda>w. case (px_pool px w, w) of (p, w) \<Rightarrow> ?run p w)"
    by (rule confined_bind [OF confined_reads(1)])
  ultimately show ?thesis by (simp only:)
qed

lemma confined_release: "confined own others (\<lambda>w. ((), shared_release px h w))"
proof -
  let ?given = "\<lambda>b p. if b then p\<lparr>pp_idle := pp_idle p @ [h]\<rparr> else p\<lparr>pp_total := pp_total p - 1\<rparr>"
  have "confined own others (\<lambda>w. case (pd_is_open (px_driver px) h w, w) of (b, w) \<Rightarrow> case (px_pool px w, w) of (p, w) \<Rightarrow>
      ((), px_set_pool px (?given b p) w))"
    by (intro confined_bind [OF confined_reads(2)] confined_bind [OF confined_reads(1)] pool_set)
  then show ?thesis
    by (simp add: shared_release_def [abs_def] destroy_connection_def return_connection_def)
qed

end

sublocale server_stores \<subseteq> at_stores: stores_platform "pool_client (pf_px pf)" "ke_redis (pf_keys pf)" own others
  by unfold_locales (unfold pool_client_def pg_client.simps,
    (rule confined_acquire confined_release at_work redis_connects redis_set_up)+)

text \<open>Beside that, the statements and the commands of one client.\<close>

locale tenant_server = server_stores pf own others
  for pf :: "('alg, 'tok, 'w) platform" and own :: "'w \<Rightarrow> 'v" and others :: "'w \<Rightarrow> 'o" +
  fixes prefix client_id :: string
  assumes whole_keys: "CHR 0x00 \<notin> set (prefix @ client_id)"
    and at_params: "tenant_params client_id sql args \<Longrightarrow> confined own others (px_exec_params (pf_px pf) h sql args)"
    and at_texts: "tenant_text (px_quote (pf_px pf) h) client_id sql \<Longrightarrow> confined own others (px_exec (pf_px pf) h sql)"
    and redis_commands: "tenant_command prefix client_id argv
      \<Longrightarrow> confined_in own others (\<lambda>_. True) (hi_command (ke_redis (pf_keys pf)) x argv)"
    and steady: "own v = own w \<Longrightarrow> pf_steady pf v = pf_steady pf w"

sublocale tenant_server \<subseteq> tenant_platform "he_service (pf_handlers pf)" own others prefix client_id
proof
  show "CHR 0x00 \<notin> set (prefix @ client_id)" by (rule whole_keys)
qed (unfold pf_handlers_def pool_client_def handler_env.simps service_env.simps pg_client.simps cache_env.simps,
    (rule confined_acquire confined_release at_work at_params at_texts redis_connects redis_set_up redis_commands steady, assumption?)+)

context tenant_server
begin

lemma axioms_platform: "tenant_platform (he_service (pf_handlers pf)) own others prefix client_id"
  by (rule tenant_platform_axioms)

end

section \<open>A platform with tenants\<close>

text \<open>The number of resources of each client; Redis answers every command with \<open>PONG\<close>.\<close>

type_synonym tenants = "pg_pool \<times> (string \<Rightarrow> nat)"

definition tenants_exec :: "string \<Rightarrow> string list \<Rightarrow> tenants \<Rightarrow> (exn + pg_row list) \<times> tenants" where
  "tenants_exec sql args w = (case w of (p, m) \<Rightarrow>
     let c = hd args; found = Inr (if m c = 0 then [] else [demo_row demo_resource]) in
     if sql = create_sql then (Inr [demo_row demo_resource], (p, m(c := m c + 1)))
     else if sql = remove_sql then (found, (p, m(c := m c - 1)))
     else (found, (p, m)))"

definition tenants_pqxx :: "tenants pqxx" where
  "tenants_pqxx =
     \<lparr>px_driver = \<lparr>pd_open = (\<lambda>_ w. (Inr 7, w)), pd_is_open = (\<lambda>_ _. True)\<rparr>, px_pool = fst, px_set_pool = (\<lambda>p (_, m). (p, m)),
      px_wakes = (\<lambda>_. []), px_begin = (\<lambda>_ w. (Inr (), w)), px_exec_params = (\<lambda>_. tenants_exec),
      px_exec = (\<lambda>_ _ w. (Inr [], w)), px_quote = (\<lambda>_ s. s), px_commit = (\<lambda>_ w. (Inr (), w)), px_end = (\<lambda>_ w. w)\<rparr>"

text \<open>Every token is one of the client \<open>d\<close> with both scopes.\<close>

definition tenants_jwt :: "(unit, unit) jwt_lib" where
  "tenants_jwt = \<lparr>jl_rs256 = (\<lambda>_. Inr ()), jl_decode = (\<lambda>_. Inr ()), jl_has_expires_at = (\<lambda>_. True),
     jl_verify = (\<lambda>_ _ _ _. Inr ()), jl_subject = (\<lambda>_. None), jl_issuer = (\<lambda>_. None),
     jl_payload_claim = (\<lambda>_ k. if k = ''client_id'' then Some (Inr ''d'') else Some (Inr ''read write''))\<rparr>"

definition tenants_json :: json_lib where
  "tenants_json = \<lparr>json_parse = (\<lambda>s. Inr (JsObject (if s = ''{}'' then []
     else [(''kind'', JsString ''thing''), (''name'', JsString ''new'')]))), json_dump = (\<lambda>_. Inr ''{}'')\<rparr>"

definition tenants_platform :: "(unit, unit, tenants) platform" where
  "tenants_platform = \<lparr>pf_getenv = pf_getenv demo_platform, pf_jwt = tenants_jwt, pf_clock = (\<lambda>_. 0),
     pf_keys = \<lparr>ke_redis = \<lparr>hi_connect = (\<lambda>_ _ _ w. (Some \<lparr>rc_handle = 1, rc_err = 0, rc_errstr = []\<rparr>, w)),
         hi_set_timeout = (\<lambda>x _ w. (x, w)), hi_command = (\<lambda>x _ w. (Some (RStatus ''PONG''), x, w)), hi_free = (\<lambda>_ w. w)\<rparr>,
       ke_sha256 = (\<lambda>s. map of_char s), ke_now = (\<lambda>_. 0), ke_sleep = (\<lambda>_ w. w)\<rparr>,
     pf_px = tenants_pqxx, pf_as_int64 = (\<lambda>_. Inr 0), pf_exec_plain = (\<lambda>_ _ w. (Inr (), w)), pf_exists = (\<lambda>_ _. True),
     pf_entries = (\<lambda>_ _. []), pf_json = tenants_json, pf_jsoncpp = (\<lambda>_. Inr JNull), pf_steady = (\<lambda>_. 0),
     
     pf_route = (\<lambda>_ req. if rq_path req = ''/v1/resources'' then Inr (ResourceTarget CreateResource, []) else Inl 404),
     pf_unhandled = (\<lambda>_. internal_error [] 0)\<rparr>"

text \<open>What one client and what the others have, in a world of a shared part and one part for each client.\<close>

definition own_part :: "('w \<Rightarrow> 's) \<Rightarrow> (string \<Rightarrow> 'w \<Rightarrow> 'd) \<Rightarrow> string \<Rightarrow> 'w \<Rightarrow> 's \<times> 'd" where
  "own_part shared data c w = (shared w, data c w)"

definition other_parts :: "(string \<Rightarrow> 'w \<Rightarrow> 'd) \<Rightarrow> string \<Rightarrow> 'w \<Rightarrow> string \<Rightarrow> 'd option" where
  "other_parts data c w = (\<lambda>d. if d = c then None else Some (data d w))"

lemma tenants_confined_id:
  "confined own others (\<lambda>w. (r, w))" "confined_in own others (\<lambda>_. True) (\<lambda>w. (r, s, w))"
  by (intro confine TrueI)+

lemma tenants_exec_confined:
  assumes "tenant_params c sql args"
  shows "confined (own_part fst (\<lambda>c w. snd w c) c) (other_parts (\<lambda>c w. snd w c) c) (tenants_exec sql args)"
proof -
  have "hd args = c" using assms by (auto simp: tenant_params_def)
  then show ?thesis
    by (intro confinedI) (auto simp: tenants_exec_def own_part_def other_parts_def Let_def fun_eq_iff split: prod.splits)
qed

lemma tenants_laws:
  assumes "CHR 0x00 \<notin> set c"
  shows "tenant_server tenants_platform (own_part fst (\<lambda>c w. snd w c) c) (other_parts (\<lambda>c w. snd w c) c) ''corvus:'' c"
proof
  show "CHR 0x00 \<notin> set (''corvus:'' @ c)" using assms by simp
  show "px_pool (pf_px tenants_platform) v = px_pool (pf_px tenants_platform) w"
    if "own_part fst (\<lambda>c w. snd w c) c v = own_part fst (\<lambda>c w. snd w c) c w" for v w :: tenants
    using that by (simp add: tenants_platform_def tenants_pqxx_def own_part_def)
  show "confined (own_part fst (\<lambda>c w. snd w c) c) (other_parts (\<lambda>c w. snd w c) c) (\<lambda>w. ((), px_set_pool (pf_px tenants_platform) p w))" for p
    by (intro confinedI) (auto simp: tenants_platform_def tenants_pqxx_def own_part_def other_parts_def split: prod.splits)
qed (simp_all add: tenants_platform_def tenants_pqxx_def tenants_confined_id tenants_exec_confined)

interpretation tenant_c: tenant_server tenants_platform "own_part fst (\<lambda>c w. snd w c) ''c''" "other_parts (\<lambda>c w. snd w c) ''c''"
  "''corvus:''" "''c''"
  by (rule tenants_laws) simp

text \<open>A handler that acts for one client leaves the data of every other alone.\<close>

lemma endpoint_spares:
  assumes laws: "tenant_server pf (own_part shared data (get_client_id req)) (other_parts data (get_client_id req)) prefix
      (get_client_id req)"
    and ca: "key_prefix (ca_config ca) = prefix" and other: "get_client_id req \<noteq> d"
    and run: "run_endpoint (pf_handlers pf) rnd now ep req rid ca w = (r, ca', w')"
  shows "data d w' = data d w" "key_prefix (ca_config ca') = prefix"
proof -
  note step = tenant_platform.confined_endpoint [OF tenant_server.axioms_platform [OF laws] ca refl refl, of rnd now ep rid]
  have "other_parts data (get_client_id req) w' = other_parts data (get_client_id req) w"
    using confinedD(3) [OF confined_inD(1) [OF step], of w] by (simp add: run)
  from fun_cong [OF this, of d] show "data d w' = data d w" using other by (simp add: other_parts_def)
  show "key_prefix (ca_config ca') = prefix" using confined_inD(2) [OF step, of w] by (simp add: run)
qed

lemma others_untouched:
  assumes laws: "\<And>c. c \<in> clients \<Longrightarrow> tenant_server pf (own_part shared data c) (other_parts data c) prefix c"
  shows "key_prefix (ca_config ca) = prefix \<Longrightarrow> list_all (\<lambda>x. call_client x \<in> clients \<and> call_client x \<noteq> d) calls
    \<Longrightarrow> conversation (pf_handlers pf) calls ca w = (rs, ca', w') \<Longrightarrow> data d w' = data d w"
proof (induction calls arbitrary: ca w rs ca' w')
  case (Cons x calls)
  obtain rnd now ep req rid where x: "x = (rnd, now, ep, req, rid)" by (cases x)
  obtain r ca1 w1 where run: "run_endpoint (pf_handlers pf) rnd now ep req rid ca w = (r, ca1, w1)" by (rule prod_cases3)
  obtain rs1 ca2 w2 where rest: "conversation (pf_handlers pf) calls ca1 w1 = (rs1, ca2, w2)" by (rule prod_cases3)
  have c: "get_client_id req \<in> clients" "get_client_id req \<noteq> d" using Cons.prems(2) by (simp_all add: x call_client_def)
  note step = endpoint_spares [OF laws [OF c(1)] Cons.prems(1) c(2) run]
  show ?case using Cons.IH [OF step(2) _ rest] step(1) Cons.prems(2,3) by (simp add: x run rest)
qed simp

section \<open>Properties\<close>


definition tenant_call :: "endpoint \<Rightarrow> string \<Rightarrow> call" where
  "tenant_call ep c = (sample_draws, 0, ep, insert_attr kClientIdKey c sample_request, ''a1b2c3d4-0000-4000-8000-00000000000a'')"

definition tenants_cache :: cache_aside where
  "tenants_cache = new_cache_aside \<lparr>ctx = None, rd_config = default_redis_config\<rparr> default_cache_config"


end
