(* ===== verification/Ownership.thy ===== *)
theory Ownership
  imports Tenancy
begin

text \<open>
  Who changes the data of a client: from the network to the stores, through every advice, route and handler of
  \<open>src/main.cpp\<close>. The first part shows that what the gateway does on its own behalf (checking keys, the readiness
  probe) spares the clients' data; the second puts it together with authentication and the isolation of tenants.
\<close>

section \<open>The gateway's own use of the stores\<close>

text \<open>The commands that the key validator and the readiness probe send, beside those that set a connection up.\<close>

definition gateway_command :: "string list \<Rightarrow> bool" where
  "gateway_command argv \<longleftrightarrow> argv = [''PING'']
     \<or> (\<exists>rest args. let key = ''corvus:apikeys:'' @ rest in
          argv = [''HGETALL'', key] \<or> argv = ''EXPIRE'' # key # args \<or> argv = ''HMSET'' # key # args)"

lemma spares_iff:
  "confined (\<lambda>w. w) spared f \<longleftrightarrow> (\<forall>w. spared (snd (f w)) = spared w)"
  by (auto simp: confined_def)

lemma spares_in_iff:
  "confined_in (\<lambda>w. w) spared (\<lambda>_. True) f \<longleftrightarrow> (\<forall>w. spared (snd (snd (f w))) = spared w)"
  by (auto simp: confined_in_def spares_iff case_prod_beta)

text \<open>
  \<open>spared\<close> is what the lookup of a key, the probe and these commands leave alone. Nothing is asked of what
  their outcome depends on.
\<close>

locale gateway_server = server_stores pf "\<lambda>w. w" spared
  for pf :: "('alg, 'tok, 'w) platform" and spared :: "'w \<Rightarrow> 'v" +
  assumes key_lookup: "spared (snd (px_exec_params (pf_px pf) h key_lookup_sql [digest] w)) = spared w"
    and probing: "spared (snd (px_exec (pf_px pf) h ''SELECT 1'' w)) = spared w"
    and gateway_commands: "gateway_command argv
      \<Longrightarrow> spared (snd (snd (hi_command (ke_redis (pf_keys pf)) x argv w))) = spared w"
begin

abbreviation "keys \<equiv> pf_keys pf"
abbreviation "redis \<equiv> ke_redis (pf_keys pf)"

subsection \<open>Redis\<close>

lemma new_connection_spares: "new_redis_connection redis cfg w = (r, w') \<Longrightarrow> spared w' = spared w"
  using at_stores.confined_new_connection [of cfg] by (metis snd_conv spares_iff)

lemma destroy_spares [simp]: "spared (destroy_redis_connection redis c w) = spared w"
  using at_stores.confined_destroy [of c] by (simp add: spares_iff)

lemma run_command_spares:
  assumes "gateway_command argv" "run_command redis argv k c w = (r, c', w')"
  shows "spared w' = spared w"
proof -
  have "confined_in (\<lambda>w. w) spared (\<lambda>_. True) (run_command redis argv k c)"
    by (rule at_stores.confined_run_command) (simp add: spares_in_iff gateway_commands [OF assms(1)])
  then show ?thesis using assms(2) by (metis snd_conv spares_in_iff)
qed

lemma c_str_redis_key: "c_str (redis_key h) = ''corvus:apikeys:'' @ c_str h"
  by (simp add: redis_key_def c_str_def)

lemma key_commands:
  "gateway_command [''HGETALL'', c_str (redis_key h)]" "gateway_command [''EXPIRE'', c_str (redis_key h), t]"
  "gateway_command (''HMSET'' # redis_key h # args)" "gateway_command [''PING'']"
  unfolding gateway_command_def c_str_redis_key Let_def unfolding redis_key_def by blast+

lemma key_operations_spare:
  "redis_hgetall redis (redis_key h) c w = (r, c', w') \<Longrightarrow> spared w' = spared w"
  "redis_expire redis (redis_key h) t c w = (u, c', w') \<Longrightarrow> spared w' = spared w"
  "redis_hmset redis (redis_key h) kvs c w = (u, c', w') \<Longrightarrow> spared w' = spared w"
  "redis_ping redis c w = (b, c', w') \<Longrightarrow> spared w' = spared w"
  unfolding redis_hgetall_def redis_expire_def redis_hmset_def redis_ping_def
  by (auto split: if_splits elim!: run_command_spares [rotated] simp: key_commands)

subsection \<open>The key validator\<close>

lemma pop_connected_spares: "pop_connected redis cs w = (c, rest, w') \<Longrightarrow> spared w' = spared w"
  by (induction redis cs w rule: pop_connected.induct) (auto split: if_splits)

lemma acquire_spares: "acquire keys v w = (r, v', w') \<Longrightarrow> spared w' = spared w"
  by (auto simp: acquire_def dest!: pop_connected_spares new_connection_spares split: prod.splits option.splits)

lemma release_spares: "release keys v c w = (v', w') \<Longrightarrow> spared w' = spared w"
  by (auto simp: release_def split: if_splits)

lemmas key_pool_spares = acquire_spares release_spares new_connection_spares key_operations_spare

lemma read_hash_spares: "read_hash keys (redis_key h) v w = (r, v', w') \<Longrightarrow> spared w' = spared w"
  by (auto simp: read_hash_def dest!: key_pool_spares split: prod.splits sum.splits exn.splits if_splits)

lemma from_cache_spares: "from_cache keys (redis_key h) v w = (r, v', w') \<Longrightarrow> spared w' = spared w"
  by (auto simp: from_cache_def dest!: read_hash_spares split: prod.splits sum.splits)

lemma store_in_cache_spares: "store_in_cache keys (redis_key h) k v w = (v', w') \<Longrightarrow> spared w' = spared w"
  by (auto simp: store_in_cache_def dest!: key_pool_spares split: prod.splits sum.splits)

lemma transaction_spares:
  assumes "\<And>c w. spared (snd (body c w)) = spared w" "in_transaction (pool_client (pf_px pf)) body w = (r, w')"
  shows "spared w' = spared w"
proof -
  have "confined (\<lambda>w. w) spared (in_transaction (pool_client (pf_px pf)) body)"
    by (rule at_stores.confined_transaction) (simp add: spares_iff assms(1))
  then show ?thesis using assms(2) by (metis snd_conv spares_iff)
qed

lemma key_lookup_spares:
  assumes "pg_api_key_lookup (pf_store pf) h w = (r, w')" shows "spared w' = spared w"
proof -
  have store: "ks_pg (pf_store pf) = pool_client (pf_px pf)" "pg_exec_params (pool_client (pf_px pf)) = px_exec_params (pf_px pf)"
    by (simp_all add: pf_store_def pool_client_def)
  have "spared (snd (then_do (px_exec_params (pf_px pf) c key_lookup_sql [h] w) (\<lambda>rows w. (k rows, w)))) = spared w" for c k w
    using key_lookup [of c h w]
    by (cases "px_exec_params (pf_px pf) c key_lookup_sql [h] w") (auto simp: then_do_def split: sum.split)
  from transaction_spares [OF this] assms show ?thesis
    unfolding pg_api_key_lookup_def store by (auto split: prod.splits sum.splits)
qed

text \<open>A whole check of a key, with the lookup in PostgreSQL.\<close>

lemma validate_spares:
  assumes "validate keys raw_key v w = (r, v', w')" "kv_lookup v = Some (pg_api_key_lookup (pf_store pf))"
  shows "spared w' = spared w"
proof -
  have via: "spared w2 = spared w1" if "validate_via_lookup keys h (redis_key h) v1 w1 = (r1, v2, w2)"
      "kv_lookup v1 = kv_lookup v" for h v1 w1 r1 v2 w2
    using that assms(2)
    by (auto simp: validate_via_lookup_def dest!: key_lookup_spares store_in_cache_spares
        split: prod.splits sum.splits option.splits)
  obtain r1 v1 w1 where f: "from_cache keys (redis_key (hash_key keys raw_key)) v w = (r1, v1, w1)" by (rule prod_cases3)
  note s = from_cache_spares [OF f] and v = via [OF _ from_cache_lookup [OF f]]
  show ?thesis
    using assms f s from_cache_lookup [OF f]
    by (auto simp: validate_def Let_def dest!: v split: sum.splits option.splits if_splits)
qed

subsection \<open>Advices and gateway handlers\<close>

lemma before_handling_spares:
  assumes "before_handling pf sv mo req w = (r, sv', w')" "server_ok pf sv"
  shows "spared w' = spared w"
proof (cases "body_size_advice default_size_limit (mo_draws mo) (mo_now mo) req")
  case (Respond resp)
  then show ?thesis using assms by (simp add: before_handling_def)
next
  case (Next req1)
  let ?P = "\<lambda>s. pool_ok (fst s) \<and> kv_lookup (fst s) = Some (pg_api_key_lookup (pf_store pf)) \<and> spared (snd s) = spared w"
  obtain r1 k w1 where a: "auth_advice (jwt_check_of (pf_jwt pf) (sv_jwt sv) (\<lambda>(_, w). pf_clock pf w))
      (key_check_of keys) (mo_draws mo) (mo_now mo) req1 (sv_keys sv, w) = (r1, k, w1)"
    by (rule prod_cases3)
  have "?P (k, w1)"
  proof (rule auth_frame [where P = ?P, OF a])
    show "?P (sv_keys sv, w)" using assms(2) by (simp add: server_ok_def pool_frame_def)
    show "?P s'" if "key_check_of keys key s = (x, s')" "?P s" for key s x s'
    proof -
      obtain v1 w1 v2 w2 where p: "s = (v1, w1)" "s' = (v2, w2)" by (cases s; cases s')
      then have "validate keys key v1 w1 = (x, v2, w2)" using that(1) by (auto simp: key_check_of_def split: prod.splits)
      then show ?thesis using that(2) validate_result [of keys key v1 w1 x v2 w2] validate_spares [of key v1 w1 x v2 w2]
        by (simp add: p pool_frame_def)
    qed
  qed (auto simp: jwt_check_of_def)
  then show ?thesis using assms(1) Next a by (auto simp: before_handling_def)
qed

lemma probe_spares:
  assumes "readiness_handler (pool_client (pf_px pf)) redis cfg rnd now req w = (resp, w')"
  shows "spared w' = spared w"
proof -
  have "spared (snd (then_do (px_exec (pf_px pf) c ''SELECT 1'' w) (\<lambda>_ w. px_commit (pf_px pf) c w))) = spared w" for c w
    using probing [of c w] at_work(2) [of c]
    by (cases "px_exec (pf_px pf) c ''SELECT 1'' w") (auto simp: then_do_def spares_iff split: sum.split)
  note pg = transaction_spares [OF this]
  have "spared w2 = spared w1" if "postgres_check (pool_client (pf_px pf)) w1 = (b, w2)" for b w1 w2
    using that by (auto simp: postgres_check_def pool_client_def dest!: pg [unfolded pool_client_def] split: prod.splits sum.splits)
  moreover have "spared w2 = spared w1" if "redis_check redis cfg w1 = (b, w2)" for b w1 w2
    using that by (auto simp: redis_check_def dest!: new_connection_spares key_operations_spare split: prod.splits sum.splits)
  ultimately show ?thesis
    using assms by (fastforce simp: readiness_handler_def Let_def split: prod.splits if_splits)
qed

lemma gateway_endpoint_spares:
  "handle pf sv mo (GatewayTarget e, rid) req w = (r, sv', w') \<Longrightarrow> spared w' = spared w"
  by (cases e) (auto simp: handle_def dest: probe_spares split: prod.splits)

end

section \<open>The configuration of the cache\<close>

text \<open>Nothing that a request does changes it, so that every key has the prefix of the start.\<close>

lemma cache_ops_config:
  "cache_get env key ca w = (x, ca', w') \<Longrightarrow> ca_config ca' = ca_config ca"
  "cache_version env key ca w = (x, ca', w') \<Longrightarrow> ca_config ca' = ca_config ca"
  "put_if_version env key v t ttl ca w = (b, ca', w') \<Longrightarrow> ca_config ca' = ca_config ca"
  "invalidate_versioned env key ca w = (b, ca', w') \<Longrightarrow> ca_config ca' = ca_config ca"
  by (auto simp: cache_get_def cache_version_def put_if_version_def invalidate_versioned_def guarded_def raw_command_def
      on_redis_def Let_def dest!: ensure_connected_config split: prod.splits if_splits sum.splits bool.splits)

lemma service_config:
  "service_create senv c creq ca w = (r, ca', w') \<Longrightarrow> ca_config ca' = ca_config ca"
  "service_get senv c i ca w = (r, ca', w') \<Longrightarrow> ca_config ca' = ca_config ca"
  "service_list senv c f ca w = (lr, ca', w') \<Longrightarrow> ca_config ca' = ca_config ca"
  "service_update senv c i ureq ca w = (r, ca', w') \<Longrightarrow> ca_config ca' = ca_config ca"
  "service_remove senv c i ca w = (u, ca', w') \<Longrightarrow> ca_config ca' = ca_config ca"
  by (auto simp: service_create_def service_get_def service_list_def service_update_def service_remove_def Let_def
      dest!: cache_ops_config split: prod.splits if_splits sum.splits option.splits exn.splits)

lemma handlers_config:
  "create_resource_handler henv rnd now req ca w = (r, ca', w') \<Longrightarrow> ca_config ca' = ca_config ca"
  "list_resources_handler henv rnd now req ca w = (r, ca', w') \<Longrightarrow> ca_config ca' = ca_config ca"
  "get_resource_handler henv rnd now req rid ca w = (r, ca', w') \<Longrightarrow> ca_config ca' = ca_config ca"
  "update_resource_handler henv rnd now req rid ca w = (r, ca', w') \<Longrightarrow> ca_config ca' = ca_config ca"
  "delete_resource_handler henv rnd now req rid ca w = (r, ca', w') \<Longrightarrow> ca_config ca' = ca_config ca"
  by (auto simp: create_resource_handler_def list_resources_handler_def get_resource_handler_def update_resource_handler_def
      delete_resource_handler_def Let_def dest!: service_config split: prod.splits if_splits sum.splits option.splits exn.splits)

lemma endpoint_config: "run_endpoint henv rnd now ep req rid ca w = (r, ca', w') \<Longrightarrow> ca_config ca' = ca_config ca"
  by (cases ep) (auto dest: handlers_config)

lemma serve_config:
  assumes "serve pf sv mo req w = (way, resp, sv', w')"
  shows "ca_config (sv_cache sv') = ca_config (sv_cache sv)"
proof -
  have r: "sv_cache sv1 = sv_cache sv" if "before_routing sv mo req = (a, sv1)" for a sv1
    using before_routing_server [OF that] by auto
  have h: "sv_cache sv2 = sv_cache sv1" if "before_handling pf sv1 mo req1 w1 = (b, sv2, w2)" for sv1 req1 w1 b sv2 w2
    using that by (auto simp: before_handling_def split: advice.splits prod.splits)
  have d: "ca_config (sv_cache sv2) = ca_config (sv_cache sv1)" if "handle pf sv1 mo t req1 w1 = (x, sv2, w2)"
    for sv1 t req1 w1 x sv2 w2
    using that by (auto simp: handle_def dest: endpoint_config split: prod.splits target.splits gateway_endpoint.splits)
  show ?thesis
    using assms by (auto simp: serve_def dest!: r h d split: advice.splits prod.splits sum.splits)
qed

lemma reachable_config: "server_reachable pf sv w \<Longrightarrow> ca_config (sv_cache sv) = default_cache_config"
proof (induction rule: server_reachable.induct)
  case (Started w0 sv w)
  then show ?case by (rule startup_Inr) (simp add: connect_cache_result)
next
  case (Served sv w req mo way resp sv' w')
  then show ?case using serve_config by metis
qed
section \<open>One request\<close>

text \<open>How a request that no handler got changes the world: not at all, or in the advices before handling.\<close>

lemma serve_refused:
  assumes "serve pf sv mo req w = (Refused, resp, sv', w')"
  obtains "w' = w"
  | req1 sv1 b where "before_routing sv mo req = (Next req1, sv1)" "before_handling pf sv1 mo req1 w = (b, sv', w')"
  using assms
  by (auto simp: serve_def split: advice.splits prod.splits sum.splits)

text \<open>
  A request that reaches a handler of resources either carries the accepted credentials of the client for which the handler
  acts, or the handler has answered without touching the stores.
\<close>

lemma handled_for_client:
  assumes "before_routing sv mo (req\<lparr>rq_attrs := []\<rparr>) = (Next req1, sv1)"
    and "before_handling pf sv1 mo req1 w = (Inr (Next req'), sv2, w2)"
  shows "get_client_id req' = [] \<or> starts_with ''/v1/'' (rq_path req) \<and> (\<exists>p. authenticated_as pf sv req w p
    \<and> required_scope (method_string (rq_method req)) \<in> pr_scopes p \<and> get_client_id req' = pr_client_id p)"
  using before_handling_Next [OF assms(2)]
  by (auto simp: routed_request_parts [OF assms(1)] authenticated_as_routed [OF assms(1)] get_client_id_insert split: if_splits)

text \<open>The platform with tenants spares their resources too, since neither the lookup of a key nor the probe names one.\<close>

lemma tenants_gateway: "gateway_server tenants_platform (\<lambda>w. snd w c)"
  by unfold_locales
    (auto simp: tenants_platform_def tenants_pqxx_def tenants_exec_def key_lookup_sql_def create_sql_def remove_sql_def Let_def
      spares_iff spares_in_iff)

interpretation gateway_c: gateway_server tenants_platform "\<lambda>w. snd w ''c''"
  by (rule tenants_gateway)

lemma tenants_start: "\<exists>sv w. startup tenants_platform (demo_start, \<lambda>d. 1) = (Inr sv, w)"
proof -
  have "case startup tenants_platform (demo_start, \<lambda>d. 1) of (Inr sv, w) \<Rightarrow> True | _ \<Rightarrow> False"
    by code_simp
  then show ?thesis by (auto split: prod.splits sum.splits)
qed

section \<open>Properties\<close>


text \<open>A request of the client \<open>d\<close>, whose handler creates a resource of \<open>d\<close>.\<close>

definition foreign_request :: http_request where
  "foreign_request = \<lparr>rq_method = Post, rq_path = ''/v1/resources'', rq_headers = [(''authorization'', ''Bearer t'')],
     rq_attrs = [], rq_params = [], rq_body = ''new'', rq_peer = ''10.0.0.1''\<rparr>"

lemma foreign_client: "authenticated_as tenants_platform sv foreign_request w p \<Longrightarrow> pr_client_id p = ''d''"
  by (auto simp: authenticated_as_def authenticate_def key_phase_def jwt_phase_def scope_phase_def bind_claims_def jwt_check_of_def
      jwt_validate_def validate_body_def opt_claim_def sum_bind_def no_principal_def kBearer_def substr_from_def Let_def
      get_header_def lookup_or_empty_def foreign_request_def tenants_platform_def tenants_jwt_def
      split: if_splits sum.splits)


end
