(* ===== verification/Threads.thy ===== *)
theory Threads
  imports Server
begin

text \<open>
  The pool of \<open>src/db/pg_pool.cpp\<close> under the threads of \<open>src/main.cpp\<close>: the framework runs the handlers on four threads, every
  operation on the database holds one connection from its first line to its last (\<open>PgConnection\<close> is a local
  variable of the function), and the pool has room for ten. So nobody waits.
\<close>

section \<open>Threads that hold connections\<close>

definition kThreadNum :: nat where
  "kThreadNum = 4"

text \<open>The pool, the connection that each thread holds, and the world.\<close>

type_synonym 'w threads = "pg_pool \<times> (nat \<rightharpoonup> nat) \<times> 'w"

text \<open>
  A thread that holds nothing calls \<open>acquire\<close>, and gets a connection, an exception, or must wait; a thread that holds a
  connection returns it; connections break and other clients open connections at any time.
\<close>

inductive thread_step :: "'w pg_driver \<Rightarrow> ('w \<Rightarrow> nat set) \<Rightarrow> nat \<Rightarrow> 'w threads \<Rightarrow> 'w threads \<Rightarrow> bool"
  for drv used n where
    Lend: "t < n \<Longrightarrow> holds t = None \<Longrightarrow> acquire_loop drv p w = (Acquired c, p', w') \<Longrightarrow>
      thread_step drv used n (p, holds, w) (p', holds(t \<mapsto> c), w')"
  | Turn_away: "t < n \<Longrightarrow> holds t = None \<Longrightarrow> acquire_loop drv p w = (r, p', w') \<Longrightarrow> (\<And>c. r \<noteq> Acquired c) \<Longrightarrow>
      thread_step drv used n (p, holds, w) (p', holds, w')"
  | Give: "holds t = Some c \<Longrightarrow>
      thread_step drv used n (p, holds, w) (return_connection drv (Some c) p w, holds(t := None), w)"
  | Outside: "used w \<subseteq> used w' \<Longrightarrow> thread_step drv used n (p, holds, w) (p, holds, w')"

inductive threads_reachable :: "'w pg_driver \<Rightarrow> ('w \<Rightarrow> nat set) \<Rightarrow> nat \<Rightarrow> pool_config \<Rightarrow> 'w threads \<Rightarrow> bool"
  for drv used n cfg where
    Start: "new_pg_pool drv cfg w0 = (Inr p, w) \<Longrightarrow> threads_reachable drv used n cfg (p, Map.empty, w)"
  | Step: "threads_reachable drv used n cfg s \<Longrightarrow> thread_step drv used n s s' \<Longrightarrow> threads_reachable drv used n cfg s'"

inductive_cases thread_stepE: "thread_step drv used n (p, holds, w) s'"

section \<open>It refines the use of the pool\<close>

text \<open>
  What is handed out, in some order, is what the threads hold, each connection by one thread. Beside it, the pool is never
  larger than the number of threads or the connections that it began with.
\<close>

definition represents :: "nat \<Rightarrow> pool_config \<Rightarrow> 'w threads \<Rightarrow> 'w pool_state \<Rightarrow> bool" where
  "represents n cfg s a \<longleftrightarrow> (case (s, a) of ((p, holds, w), (q, out, v)) \<Rightarrow>
     q = p \<and> v = w \<and> set out = ran holds \<and> inj_on holds (dom holds) \<and> dom holds \<subseteq> {..<n}
     \<and> unat (pp_total p) \<le> max n (unat (min_connections cfg)))"

lemma represents_simp [simp]:
  "represents n cfg (p, holds, w) (q, out, v) \<longleftrightarrow>
     q = p \<and> v = w \<and> set out = ran holds \<and> inj_on holds (dom holds) \<and> dom holds \<subseteq> {..<n}
     \<and> unat (pp_total p) \<le> max n (unat (min_connections cfg))"
  by (simp add: represents_def)

lemma held_at_most:
  assumes "represents n cfg (p, holds, w) (p, out, w)" "distinct out"
  shows "length out \<le> n" "t < n \<Longrightarrow> holds t = None \<Longrightarrow> length out < n"
proof -
  have fin: "finite (dom holds)" using assms(1) by (auto intro: finite_subset)
  have "ran holds = (\<lambda>t. the (holds t)) ` dom holds" by (force simp: ran_def)
  then have "length out \<le> card (dom holds)"
    using distinct_card [OF assms(2)] assms(1) card_image_le [OF fin, of "\<lambda>t. the (holds t)"] by simp
  moreover have "card (dom holds) \<le> card {..<n}" using assms(1) by (intro card_mono) auto
  moreover have "card (dom holds) < card {..<n}" if "t < n" "holds t = None"
    using assms(1) that by (intro psubset_card_mono) auto
  ultimately show "length out \<le> n" "t < n \<Longrightarrow> holds t = None \<Longrightarrow> length out < n" by auto
qed

text \<open>The loop opens a further connection only when none is idle.\<close>

lemma acquire_loop_growth:
  "acquire_loop drv p w = (r, p', w') \<Longrightarrow> length (pp_idle p) \<le> unat (pp_total p)
     \<Longrightarrow> unat (pp_total p') \<le> unat (pp_total p) \<or> pp_idle p' = []"
proof (induction drv p w rule: acquire_loop.induct)
  case (1 drv p w)
  show ?case
  proof (cases "pp_idle p")
    case Nil
    then show ?thesis
      using 1(2) by (auto simp: acquire_loop.simps [of _ p] split: if_splits prod.splits sum.splits)
  next
    case (Cons conn rest)
    let ?p = "p\<lparr>pp_idle := rest\<rparr>"
    have "0 < unat (pp_total p)" using 1(3) Cons by simp
    note pred = word_pred [OF this]
    obtain x w1 where m: "make_connection drv ?p w = (x, w1)" by (rule prod.exhaust)
    show ?thesis
    proof (cases "pd_is_open drv conn w \<or> (\<exists>c. x = Inr c)")
      case True
      then show ?thesis using 1(2) Cons m by (auto simp: acquire_loop.simps [of _ p] Let_def split: if_splits)
    next
      case False
      then obtain e where e: "x = Inl e" by (cases x) auto
      have "acquire_loop drv (?p\<lparr>pp_total := pp_total ?p - 1\<rparr>) w1 = (r, p', w')"
        using 1(2) Cons m e False by (simp add: acquire_loop.simps [of _ p] Let_def)
      from 1(1) [OF Cons refl _ m [symmetric] e this] False 1(3) Cons pred
      have "unat (pp_total p') \<le> unat (pp_total p) - 1 \<or> pp_idle p' = []" by auto
      then show ?thesis by auto
    qed
  qed
qed

lemma represents_acquired:
  assumes rep: "represents n cfg (p, holds, w) (p, out, w)" and inv: "pool_inv used cfg (p, out, w)"
    and t: "t < n" "holds t = None" and run: "acquire_loop drv p w = (Acquired c, p', w')"
    and inv': "pool_inv used cfg (p', c # out, w')"
  shows "represents n cfg (p', holds(t \<mapsto> c), w') (p', c # out, w')"
proof -
  have new: "c \<notin> ran holds" using inv' rep by auto
  have "length out < n" using held_at_most(2) [OF rep] inv t by simp
  then have "unat (pp_total p') \<le> max n (unat (min_connections cfg))"
    using acquire_loop_growth [OF run] inv inv' rep by auto
  moreover have "inj_on (holds(t \<mapsto> c)) (dom (holds(t \<mapsto> c)))"
    using rep new by (auto simp: inj_on_def ran_def)
  ultimately show ?thesis using rep t by auto
qed

lemma represents_turned_away:
  assumes rep: "represents n cfg (p, holds, w) (p, out, w)" and inv: "pool_inv used cfg (p, out, w)"
    and run: "acquire_loop drv p w = (r, p', w')" and inv': "pool_inv used cfg (p', out, w')"
  shows "represents n cfg (p', holds, w') (p', out, w')"
proof -
  have "length out \<le> n" using held_at_most(1) [OF rep] inv by simp
  then have "unat (pp_total p') \<le> max n (unat (min_connections cfg))"
    using acquire_loop_growth [OF run] inv inv' rep by auto
  then show ?thesis using rep by simp
qed

lemma represents_given:
  assumes rep: "represents n cfg (p, holds, w) (p, xs @ c # ys, w)" and inv: "pool_inv used cfg (p, xs @ c # ys, w)"
    and t: "holds t = Some c"
  shows "represents n cfg (return_connection drv (Some c) p w, holds(t := None), w)
    (return_connection drv (Some c) p w, xs @ ys, w)"
proof -
  have d: "distinct (xs @ c # ys)" using inv by simp
  have only: "u = t" if "holds u = Some c" for u
  proof (rule inj_onD)
    show "inj_on holds (dom holds)" using rep by simp
  qed (use t that in auto)
  have "ran (holds(t := None)) = ran holds - {c}"
  proof (rule set_eqI)
    fix x
    have "x \<in> ran (holds(t := None)) \<longleftrightarrow> (\<exists>u. u \<noteq> t \<and> holds u = Some x)" by (auto simp: ran_def)
    also have "\<dots> \<longleftrightarrow> x \<in> ran holds - {c}"
    proof
      assume "\<exists>u. u \<noteq> t \<and> holds u = Some x"
      then obtain u where u: "u \<noteq> t" "holds u = Some x" by blast
      then have "x \<noteq> c" using only [of u] by blast
      then show "x \<in> ran holds - {c}" using u(2) ranI [of holds u x] by blast
    next
      assume x: "x \<in> ran holds - {c}"
      then obtain u where u: "holds u = Some x" by (auto simp: ran_def)
      then have "u \<noteq> t" using x t by auto
      then show "\<exists>u. u \<noteq> t \<and> holds u = Some x" using u by blast
    qed
    finally show "x \<in> ran (holds(t := None)) \<longleftrightarrow> x \<in> ran holds - {c}" .
  qed
  then have out: "set (xs @ ys) = ran (holds(t := None))" using rep d by auto
  have "0 < unat (pp_total p)" using inv by simp
  then have "unat (pp_total (return_connection drv (Some c) p w)) \<le> unat (pp_total p)"
    using word_pred [of "pp_total p"] by (auto simp: return_connection_def)
  then show ?thesis using rep out by (auto simp: inj_on_def intro: order_trans)
qed

lemma thread_step_represents:
  assumes "thread_step drv used n (p, holds, w) s'" "fresh_handles drv used"
    and "represents n cfg (p, holds, w) (p, out, w)" "pool_inv used cfg (p, out, w)"
  shows "\<exists>a'. pool_step drv used (p, out, w) a' \<and> represents n cfg s' a'"
  using assms(1)
proof (cases rule: thread_stepE [consumes 1, case_names lend turn_away give outside])
  case (lend t c p' w')
  have "pool_inv used cfg (p', c # out, w')" using acquire_loop_inv [OF assms(2) lend(4) assms(4)] by simp
  note rep = represents_acquired [OF assms(3,4) lend(2,3,4) this]
  show ?thesis unfolding lend(1) by (rule exI, rule conjI, rule pool_step.Take, rule lend(4), rule rep)
next
  case (turn_away t r p' w')
  have "pool_inv used cfg (p', out, w')"
    using acquire_loop_inv [OF assms(2) turn_away(4) assms(4)] turn_away(5) by (cases r) auto
  note rep = represents_turned_away [OF assms(3,4) turn_away(4) this]
  show ?thesis unfolding turn_away(1)
    by (rule exI, rule conjI, rule pool_step.Refuse, rule turn_away(4), rule turn_away(5), rule rep)
next
  case (give t c)
  have "c \<in> set out" using assms(3) give(2) by (auto simp: ran_def)
  then obtain xs ys where out: "out = xs @ c # ys" by (meson split_list)
  show ?thesis
    using represents_given [OF assms(3,4) [unfolded out] give(2)] give(1) unfolding out by (blast intro: pool_step.Return)
next
  case (outside w')
  then show ?thesis using assms(3) pool_step.World [of used w w' drv p out] by auto
qed

text \<open>Every state of the threads stands for a state of the pool's concurrent use.\<close>

lemma threads_represent:
  "threads_reachable drv used n cfg s \<Longrightarrow> fresh_handles drv used
     \<Longrightarrow> \<exists>a. pool_reachable drv used cfg a \<and> pool_inv used cfg a \<and> represents n cfg s a"
proof (induction rule: threads_reachable.induct)
  case (Start w0 p w)
  have "unat (pp_total p) = unat (min_connections cfg)"
    using Start(1) by (auto simp: new_pg_pool_def dest!: open_connections_count split: if_splits)
  then show ?case
    using pool_reachable.Start [OF Start(1)] new_pool_inv [OF Start(2,1)] by (intro exI [of _ "(p, [], w)"]) simp
next
  case (Step s s')
  then obtain a where a: "pool_reachable drv used cfg a" "pool_inv used cfg a" "represents n cfg s a" by blast
  obtain p holds w out where s: "s = (p, holds, w)" "a = (p, out, w)" using a(3) by (cases s; cases a) auto
  from thread_step_represents [OF Step(2) [unfolded s] Step(4) a(3,2) [unfolded s]]
  obtain a' where "pool_step drv used a a'" "represents n cfg s' a'" unfolding s by blast
  then show ?case using pool_reachable.Step [OF a(1)] reachable_pool_inv Step(4) by blast
qed

section \<open>Nobody waits\<close>

lemma not_waiting:
  assumes "threads_reachable drv used n cfg (p, holds, w)" "fresh_handles drv used"
    and "t < n" "holds t = None" "n \<le> unat (max_connections cfg)"
  shows "fst (acquire_loop drv p w) \<noteq> MustWait"
proof
  assume wait: "fst (acquire_loop drv p w) = MustWait"
  obtain out where a: "pool_inv used cfg (p, out, w)" "represents n cfg (p, holds, w) (p, out, w)"
    using threads_represent [OF assms(1,2)] by auto
  obtain p' w' where "acquire_loop drv p w = (MustWait, p', w')" using wait by (cases "acquire_loop drv p w") auto
  from acquire_loop_inv [OF assms(2) this a(1)] have "length out = unat (max_connections cfg)" by simp
  moreover have "length out < n" using held_at_most(2) [OF a(2)] a(1) assms(3,4) by simp
  ultimately show False using assms(5) by simp
qed

lemma acquire_at_once:
  assumes "fst (acquire_loop drv p w) \<noteq> MustWait"
  shows "(\<exists>c p' w'. \<forall>wakes. pool_acquire drv wakes p w = Some (Inr c, p', w'))
    \<or> (\<exists>m p' w'. \<forall>wakes. pool_acquire drv wakes p w = Some (Inl (DbConfigError m), p', w'))"
proof -
  obtain r p' w' where l: "acquire_loop drv p w = (r, p', w')" by (rule prod_cases3)
  show ?thesis
    using assms acquire_loop_Failed [of drv p w _ p' w'] by (cases r) (auto simp: pool_acquire_turn [OF l] l)
qed

text \<open>Two threads hold the two connections of the start.\<close>

lemma counting_threads:
  "threads_reachable counting_driver (\<lambda>w. {..<w}) kThreadNum (server_pool_config (\<lambda>_. None))
     (\<lparr>pp_config = server_pool_config (\<lambda>_. None), pp_idle = [], pp_total = 2\<rparr>, [0 \<mapsto> 0, 1 \<mapsto> 1], 2)"
proof -
  let ?cfg = "server_pool_config (\<lambda>_. None)"
  have idle: "acquire_loop counting_driver \<lparr>pp_config = ?cfg, pp_idle = c # cs, pp_total = 2\<rparr> 2
      = (Acquired c, \<lparr>pp_config = ?cfg, pp_idle = cs, pp_total = 2\<rparr>, 2)" for c cs
    by (simp add: acquire_loop.simps counting_driver_def)
  have "new_pg_pool counting_driver ?cfg 0 = (Inr \<lparr>pp_config = ?cfg, pp_idle = [0, 1], pp_total = 2\<rparr>, 2)"
    by code_simp
  from threads_reachable.Start [OF this]
  have "threads_reachable counting_driver (\<lambda>w. {..<w}) kThreadNum ?cfg
      (\<lparr>pp_config = ?cfg, pp_idle = [0, 1], pp_total = 2\<rparr>, Map.empty, 2)" .
  from threads_reachable.Step [OF this thread_step.Lend [OF _ _ idle, of 0]]
  have "threads_reachable counting_driver (\<lambda>w. {..<w}) kThreadNum ?cfg
      (\<lparr>pp_config = ?cfg, pp_idle = [1], pp_total = 2\<rparr>, [0 \<mapsto> 0], 2)" by (simp add: kThreadNum_def)
  from threads_reachable.Step [OF this thread_step.Lend [OF _ _ idle, of 1]] show ?thesis
    by (simp add: kThreadNum_def)
qed

section \<open>Properties\<close>

text \<open>
  C14. The server's pool is large enough for its threads. However the four threads of the framework interleave, and whatever
  connections break meanwhile, a thread that calls \<open>acquire\<close> is answered at once, whatever the others do: it gets a connection, or the
  exception of a connection that could not be opened. It never waits, so that \<open>DbPoolExhausted\<close> is never thrown, and the pool
  never holds more connections than there are threads.
\<close>

theorem threads_never_wait:
  assumes "threads_reachable drv used kThreadNum (server_pool_config genv) (p, holds, w)" "fresh_handles drv used"
    and "t < kThreadNum" "holds t = None"
  shows "((\<exists>c p' w'. \<forall>wakes. pool_acquire drv wakes p w = Some (Inr c, p', w'))
      \<or> (\<exists>m p' w'. \<forall>wakes. pool_acquire drv wakes p w = Some (Inl (DbConfigError m), p', w')))
    \<and> unat (pool_size p) \<le> kThreadNum"
proof
  have cfg: "max_connections (server_pool_config genv) = 10" "min_connections (server_pool_config genv) = 2"
    by (simp_all add: server_pool_config_def)
  have "fst (acquire_loop drv p w) \<noteq> MustWait"
    by (rule not_waiting [OF assms]) (simp add: cfg kThreadNum_def)
  then show "(\<exists>c p' w'. \<forall>wakes. pool_acquire drv wakes p w = Some (Inr c, p', w'))
      \<or> (\<exists>m p' w'. \<forall>wakes. pool_acquire drv wakes p w = Some (Inl (DbConfigError m), p', w'))"
    by (rule acquire_at_once)
  show "unat (pool_size p) \<le> kThreadNum"
    using threads_represent [OF assms(1,2)] by (auto simp: pool_size_def kThreadNum_def cfg)
qed

theorem threads_never_wait_witness:
  "let p = \<lparr>pp_config = server_pool_config (\<lambda>_. None), pp_idle = [], pp_total = 2\<rparr> in
   (\<exists>c p' w'. \<forall>wakes. pool_acquire counting_driver wakes p 2 = Some (Inr c, p', w'))
   \<or> (\<exists>m p' w'. \<forall>wakes. pool_acquire counting_driver wakes p 2 = Some (Inl (DbConfigError m), p', w'))"
  unfolding Let_def
  using conjunct1 [OF threads_never_wait [OF counting_threads counting_fresh, of 2]] by (simp add: kThreadNum_def)

end
