(* ===== verification/CacheProtocol.thy ===== *)
theory CacheProtocol
  imports CacheAside
begin

text \<open>
  The protocol that keeps a cached row coherent with the database while several servers read
  and write it: the readers of \<open>ResourceService::get\<close> (version, database read, conditional put) and
  the writers of \<open>update\<close> and \<open>remove\<close> (commit, then versioned invalidation) of
  \<open>src/resources/resource_service.cpp\<close>, interleaved at every command. Redis runs a script
  atomically; its commands are the parameter \<open>rc\<close> with what the documentation promises of them,
  \<open>server_laws\<close>, over the keys and values that \<open>look\<close> shows.
\<close>

section \<open>What is assumed of the server\<close>

definition server_laws :: "'d redis_call \<Rightarrow> ('d \<Rightarrow> string \<Rightarrow> string option) \<Rightarrow> bool" where
  "server_laws rc look \<longleftrightarrow>
     (\<forall>d k. rc [''GET'', k] d = (case look d k of None \<Rightarrow> RNil | Some v \<Rightarrow> RString v, d))
   \<and> (\<forall>d k v. \<exists>d'. rc [''SET'', k, v] d = (RStatus ''OK'', d') \<and> look d' = (look d)(k \<mapsto> v))
   \<and> (\<forall>d k v t. 0 < t \<longrightarrow> (\<exists>d'. rc [''SET'', k, v, ''EX'', dec_int t] d = (RStatus ''OK'', d')
        \<and> look d' = (look d)(k \<mapsto> v)))
   \<and> (\<forall>d k. \<exists>r d'. rc [''DEL'', k] d = (RInteger r, d') \<and> look d' = (look d)(k := None))
   \<and> (\<forall>d k t. 0 < t \<longrightarrow> (\<exists>r d'. rc [''EXPIRE'', k, dec_int t] d = (RInteger r, d') \<and> look d' = look d))
   \<and> (\<forall>d k. look d k = None \<longrightarrow>
        (\<exists>d'. rc [''INCR'', k] d = (RInteger 1, d') \<and> look d' = (look d)(k \<mapsto> dec_int 1)))
   \<and> (\<forall>d k n. look d k = Some (dec_int n) \<and> 0 \<le> n \<and> n < 2 ^ 63 - 1 \<longrightarrow>
        (\<exists>d'. rc [''INCR'', k] d = (RInteger (n + 1), d') \<and> look d' = (look d)(k \<mapsto> dec_int (n + 1))))
   \<and> (\<forall>d k n. look d k = Some (dec_int n) \<and> 2 ^ 63 - 1 \<le> n \<longrightarrow>
        (\<exists>m. rc [''INCR'', k] d = (RError m, d)))"

section \<open>States and steps\<close>

datatype reader = Versioned string | Fetched string string

fun reader_version :: "reader \<Rightarrow> string" where
  "reader_version (Versioned v) = v"
| "reader_version (Fetched v x) = v"

text \<open>
  The row as the service would serialise it, the readers between their version and their put,
  the writers that have committed and not yet invalidated, and whether some invalidation failed.
\<close>

record 'd protocol =
  p_store :: 'd
  p_row :: "string option"
  p_readers :: "reader list"
  p_pending :: nat
  p_failed :: bool

text \<open>The version that \<open>CacheAside::version\<close> reads.\<close>

definition read_version :: "'d redis_call \<Rightarrow> string \<Rightarrow> 'd \<Rightarrow> string option" where
  "read_version rc vkey d = (case fst (rc [''GET'', vkey] d) of
      RNil \<Rightarrow> Some ''0''
    | RString v \<Rightarrow> Some (if v = [] then ''0'' else v)
    | _ \<Rightarrow> None)"

text \<open>
  The steps. The lifetime of a key ends at any moment; with \<open>held\<close>, the version's does not while a
  reader is between its version and its put.
\<close>

inductive protocol_step ::
  "'d redis_call \<Rightarrow> ('d \<Rightarrow> string \<Rightarrow> string option) \<Rightarrow> bool \<Rightarrow> string \<Rightarrow> string \<Rightarrow> int \<Rightarrow> int
     \<Rightarrow> 'd protocol \<Rightarrow> 'd protocol \<Rightarrow> bool"
  for rc look held key vkey ttl vttl where
    Begin: "read_version rc vkey (p_store s) = Some v \<Longrightarrow>
      protocol_step rc look held key vkey ttl vttl s (s\<lparr>p_readers := p_readers s @ [Versioned v]\<rparr>)"
  | Fetch: "p_readers s = xs @ Versioned v # ys \<Longrightarrow> p_row s = Some x \<Longrightarrow>
      protocol_step rc look held key vkey ttl vttl s (s\<lparr>p_readers := xs @ Fetched v x # ys\<rparr>)"
  | Put: "p_readers s = xs @ Fetched v x # ys \<Longrightarrow>
      put_if_version_script rc key vkey v x (dec_int ttl) (p_store s) = (r, d') \<Longrightarrow>
      protocol_step rc look held key vkey ttl vttl s (s\<lparr>p_store := d', p_readers := xs @ ys\<rparr>)"
  | Abandon: "p_readers s = xs @ a # ys \<Longrightarrow>
      protocol_step rc look held key vkey ttl vttl s (s\<lparr>p_readers := xs @ ys\<rparr>)"
  | Commit: "protocol_step rc look held key vkey ttl vttl s
      (s\<lparr>p_row := y, p_pending := Suc (p_pending s)\<rparr>)"
  | Invalidate: "p_pending s = Suc n \<Longrightarrow>
      invalidate_script rc key vkey (dec_int vttl) (p_store s) = (r, d') \<Longrightarrow>
      protocol_step rc look held key vkey ttl vttl s
        (s\<lparr>p_store := d', p_pending := n, p_failed := p_failed s \<or> is_error (Some r)\<rparr>)"
  | Unreachable: "p_pending s = Suc n \<Longrightarrow>
      protocol_step rc look held key vkey ttl vttl s (s\<lparr>p_pending := n, p_failed := True\<rparr>)"
  | Expire: "look d' = (look (p_store s))(key := None) \<Longrightarrow>
      protocol_step rc look held key vkey ttl vttl s (s\<lparr>p_store := d'\<rparr>)"
  | ExpireVersion: "look d' = (look (p_store s))(vkey := None) \<Longrightarrow> held \<longrightarrow> p_readers s = [] \<Longrightarrow>
      protocol_step rc look held key vkey ttl vttl s (s\<lparr>p_store := d'\<rparr>)"
  | Other: "look d' key = look (p_store s) key \<Longrightarrow> look d' vkey = look (p_store s) vkey \<Longrightarrow>
      protocol_step rc look held key vkey ttl vttl s (s\<lparr>p_store := d'\<rparr>)"

inductive protocol_reachable ::
  "'d redis_call \<Rightarrow> ('d \<Rightarrow> string \<Rightarrow> string option) \<Rightarrow> bool \<Rightarrow> string \<Rightarrow> string \<Rightarrow> int \<Rightarrow> int
     \<Rightarrow> 'd protocol \<Rightarrow> bool"
  for rc look held key vkey ttl vttl where
    Start: "look d key = None \<Longrightarrow> look d vkey = None \<Longrightarrow>
      protocol_reachable rc look held key vkey ttl vttl
        \<lparr>p_store = d, p_row = y, p_readers = [], p_pending = 0, p_failed = False\<rparr>"
  | Step: "protocol_reachable rc look held key vkey ttl vttl s \<Longrightarrow>
      protocol_step rc look held key vkey ttl vttl s s' \<Longrightarrow>
      protocol_reachable rc look held key vkey ttl vttl s'"

section \<open>The scripts under the laws\<close>

lemma law_get:
  "server_laws rc look \<Longrightarrow> rc [''GET'', k] d = (case look d k of None \<Rightarrow> RNil | Some v \<Rightarrow> RString v, d)"
  by (simp add: server_laws_def)

lemma law_set:
  "server_laws rc look \<Longrightarrow> \<exists>d'. rc [''SET'', k, v] d = (RStatus ''OK'', d') \<and> look d' = (look d)(k \<mapsto> v)"
  by (simp add: server_laws_def)

lemma law_set_ex:
  "server_laws rc look \<Longrightarrow> 0 < t \<Longrightarrow>
     \<exists>d'. rc [''SET'', k, v, ''EX'', dec_int t] d = (RStatus ''OK'', d') \<and> look d' = (look d)(k \<mapsto> v)"
  by (simp add: server_laws_def)

lemma law_del:
  "server_laws rc look \<Longrightarrow> \<exists>r d'. rc [''DEL'', k] d = (RInteger r, d') \<and> look d' = (look d)(k := None)"
  by (simp add: server_laws_def)

lemma law_expire:
  "server_laws rc look \<Longrightarrow> 0 < t \<Longrightarrow>
     \<exists>r d'. rc [''EXPIRE'', k, dec_int t] d = (RInteger r, d') \<and> look d' = look d"
  by (simp add: server_laws_def)

lemma law_incr_new:
  "server_laws rc look \<Longrightarrow> look d k = None \<Longrightarrow>
     \<exists>d'. rc [''INCR'', k] d = (RInteger 1, d') \<and> look d' = (look d)(k \<mapsto> dec_int 1)"
  by (simp add: server_laws_def)

lemma law_incr:
  "server_laws rc look \<Longrightarrow> look d k = Some (dec_int n) \<Longrightarrow> 0 \<le> n \<Longrightarrow> n < 2 ^ 63 - 1 \<Longrightarrow>
     \<exists>d'. rc [''INCR'', k] d = (RInteger (n + 1), d') \<and> look d' = (look d)(k \<mapsto> dec_int (n + 1))"
  by (simp add: server_laws_def)

lemma law_incr_max:
  "server_laws rc look \<Longrightarrow> look d k = Some (dec_int n) \<Longrightarrow> 2 ^ 63 - 1 \<le> n \<Longrightarrow>
     \<exists>m. rc [''INCR'', k] d = (RError m, d)"
proof -
  assume "server_laws rc look" and n: "look d k = Some (dec_int n)" "2 ^ 63 - 1 \<le> n"
  then have "\<forall>d k n. look d k = Some (dec_int n) \<and> 2 ^ 63 - 1 \<le> n \<longrightarrow>
      (\<exists>m. rc [''INCR'', k] d = (RError m, d))"
    unfolding server_laws_def by (elim conjE) assumption
  with n show ?thesis by blast
qed

lemma put_script_effect:
  assumes laws: "server_laws rc look" and ttl: "- (2 ^ 31) \<le> ttl" "ttl < 2 ^ 31"
    and p: "put_if_version_script rc key vkey v x (dec_int ttl) d = (r, d')"
  shows "(if (case look d vkey of None \<Rightarrow> ''0'' | Some u \<Rightarrow> u) = v
          then look d' = (look d)(key \<mapsto> x) \<and> r = RInteger 1 else d' = d \<and> r = RInteger 0)"
proof -
  have g: "rc [''GET'', vkey] d = (case look d vkey of None \<Rightarrow> RNil | Some v \<Rightarrow> RString v, d)"
    using laws by (rule law_get)
  have st: "stoi (dec_int ttl) = Inr (ttl, length (dec_int ttl))"
    using ttl by (rule stoi_dec_int)
  have "\<exists>d1. rc (if 0 < ttl then [''SET'', key, x, ''EX'', dec_int ttl] else [''SET'', key, x]) d
      = (RStatus ''OK'', d1) \<and> look d1 = (look d)(key \<mapsto> x)"
    using law_set [OF laws] law_set_ex [OF laws] by (cases "0 < ttl") simp_all
  then obtain d1 where d1: "rc (if 0 < ttl then [''SET'', key, x, ''EX'', dec_int ttl] else [''SET'', key, x]) d
      = (RStatus ''OK'', d1)" "look d1 = (look d)(key \<mapsto> x)" by blast
  show ?thesis
    using p d1(2) by (cases "look d vkey")
      (auto simp: put_if_version_script_def g st d1(1) lua_or_zero_def split: if_splits)
qed

lemma incr_version:
  assumes laws: "server_laws rc look" and ver: "look d k = (if n = 0 then None else Some (dec_int (int n)))"
  obtains (next_number) r d1 where "rc [''INCR'', k] d = (RInteger r, d1)" "look d1 = (look d)(k \<mapsto> dec_int (int (Suc n)))"
  | (overflow) m where "rc [''INCR'', k] d = (RError m, d)"
proof (cases "n = 0")
  case True
  then have "look d k = None" using ver by simp
  then obtain d1 where "rc [''INCR'', k] d = (RInteger 1, d1)" "look d1 = (look d)(k \<mapsto> dec_int 1)"
    using law_incr_new [OF laws] by blast
  then show ?thesis using next_number True by simp
next
  case False
  then have l: "look d k = Some (dec_int (int n))" using ver by simp
  show ?thesis
  proof (cases "int n < 2 ^ 63 - 1")
    case True
    then obtain d1 where "rc [''INCR'', k] d = (RInteger (int n + 1), d1)" "look d1 = (look d)(k \<mapsto> dec_int (int n + 1))"
      using law_incr [OF laws l] by auto
    then show ?thesis using next_number by (simp add: add.commute)
  next
    case False
    then show ?thesis using law_incr_max [OF laws l] overflow by auto
  qed
qed

lemma invalidate_script_effect:
  assumes laws: "server_laws rc look" and vttl: "0 < vttl"
    and ver: "look d vkey = (if n = 0 then None else Some (dec_int (int n)))" "key \<noteq> vkey"
    and p: "invalidate_script rc key vkey (dec_int vttl) d = (r, d')"
  shows "is_error (Some r) \<and> look d' = look d
    \<or> \<not> is_error (Some r) \<and> look d' = (look d)(vkey \<mapsto> dec_int (int (Suc n)), key := None)"
proof (cases rule: incr_version [OF laws ver(1), case_names next_number overflow])
  case (next_number r1 d1)
  obtain r2 d2 where e: "rc [''EXPIRE'', vkey, dec_int vttl] d1 = (RInteger r2, d2)" "look d2 = look d1"
    using law_expire [OF laws vttl] by blast
  obtain r3 d3 where l: "rc [''DEL'', key] d2 = (RInteger r3, d3)" "look d3 = (look d2)(key := None)"
    using law_del [OF laws] by blast
  show ?thesis using p next_number e l by (auto simp: invalidate_script_def is_error_def)
next
  case (overflow m)
  then show ?thesis using p by (auto simp: invalidate_script_def is_error_def)
qed

section \<open>Coherence\<close>

definition version_is :: "('d \<Rightarrow> string \<Rightarrow> string option) \<Rightarrow> string \<Rightarrow> 'd \<Rightarrow> nat \<Rightarrow> bool" where
  "version_is look vkey d n \<longleftrightarrow> look d vkey = (if n = 0 then None else Some (dec_int (int n)))"

text \<open>
  The invariant at the version \<open>n\<close>: no reader holds a later one, and while nothing is outstanding or failed the entry and
  every reader that may still store one hold the current row.
\<close>

definition coherent_at :: "('d \<Rightarrow> string \<Rightarrow> string option) \<Rightarrow> string \<Rightarrow> string \<Rightarrow> 'd protocol \<Rightarrow> nat \<Rightarrow> bool" where
  "coherent_at look key vkey s n \<longleftrightarrow>
     version_is look vkey (p_store s) n
     \<and> (\<forall>a\<in>set (p_readers s). \<exists>m\<le>n. reader_version a = dec_int (int m))
     \<and> (p_pending s = 0 \<and> \<not> p_failed s \<longrightarrow>
          (look (p_store s) key = None \<or> look (p_store s) key = p_row s)
          \<and> (\<forall>v x. Fetched v x \<in> set (p_readers s) \<and> v = dec_int (int n) \<longrightarrow> p_row s = Some x))"

definition coherent :: "('d \<Rightarrow> string \<Rightarrow> string option) \<Rightarrow> string \<Rightarrow> string \<Rightarrow> 'd protocol \<Rightarrow> bool" where
  "coherent look key vkey s \<longleftrightarrow> (\<exists>n. coherent_at look key vkey s n)"

lemma dec_int_of_nat_inject [simp]: "dec_int (int m) = dec_int (int n) \<longleftrightarrow> m = n"
  by (simp add: dec_int_def)

lemma dec_int_0: "''0'' = dec_int (int 0)"
  by code_simp

lemma read_version_is:
  assumes "server_laws rc look" "version_is look vkey d n"
  shows "read_version rc vkey d = Some (dec_int (int n))"
proof -
  have "rc [''GET'', vkey] d = (case look d vkey of None \<Rightarrow> RNil | Some v \<Rightarrow> RString v, d)"
    using assms(1) by (rule law_get)
  moreover have "dec_int (int n) \<noteq> []" by (simp add: dec_int_def)
  ultimately show ?thesis
    using assms(2) dec_int_0 by (auto simp: read_version_def version_is_def)
qed

lemma coherent_atI:
  assumes "version_is look vkey (p_store s) n"
    and "\<And>a. a \<in> set (p_readers s) \<Longrightarrow> \<exists>m\<le>n. reader_version a = dec_int (int m)"
    and "p_pending s = 0 \<Longrightarrow> \<not> p_failed s \<Longrightarrow> look (p_store s) key = None \<or> look (p_store s) key = p_row s"
    and "\<And>v x. p_pending s = 0 \<Longrightarrow> \<not> p_failed s \<Longrightarrow> Fetched (dec_int (int n)) x \<in> set (p_readers s)
           \<Longrightarrow> p_row s = Some x"
  shows "coherent_at look key vkey s n"
  unfolding coherent_at_def using assms by auto

lemma coherent_atD:
  assumes "coherent_at look key vkey s n"
  shows "version_is look vkey (p_store s) n"
    and "a \<in> set (p_readers s) \<Longrightarrow> \<exists>m\<le>n. reader_version a = dec_int (int m)"
    and "p_pending s = 0 \<Longrightarrow> \<not> p_failed s \<Longrightarrow> look (p_store s) key = None \<or> look (p_store s) key = p_row s"
    and "p_pending s = 0 \<Longrightarrow> \<not> p_failed s \<Longrightarrow> Fetched (dec_int (int n)) x \<in> set (p_readers s) \<Longrightarrow> p_row s = Some x"
  using assms unfolding coherent_at_def by auto

lemma coherent_entry:
  "coherent look key vkey s \<Longrightarrow> p_pending s = 0 \<Longrightarrow> \<not> p_failed s \<Longrightarrow>
     look (p_store s) key = None \<or> look (p_store s) key = p_row s"
  unfolding coherent_def using coherent_atD(3) by blast

text \<open>A reader's write, and an invalidation, under the laws of the server.\<close>

lemma coherent_put:
  assumes laws: "server_laws rc look" and ttl: "- (2 ^ 31) \<le> ttl" "ttl < 2 ^ 31" and ne: "key \<noteq> vkey"
    and inv: "coherent_at look key vkey s n" and rd: "p_readers s = xs @ Fetched v x # ys"
    and put: "put_if_version_script rc key vkey v x (dec_int ttl) (p_store s) = (r, d')"
  shows "coherent_at look key vkey (s\<lparr>p_store := d', p_readers := xs @ ys\<rparr>) n"
proof -
  note c = coherent_atD [OF inv]
  have "(case look (p_store s) vkey of None \<Rightarrow> ''0'' | Some u \<Rightarrow> u) = dec_int (int n)"
    using c(1) dec_int_0 by (auto simp: version_is_def)
  note eff = put_script_effect [OF laws ttl put, unfolded this]
  show ?thesis
  proof (cases "v = dec_int (int n)")
    case True
    then have "look d' = (look (p_store s))(key \<mapsto> x)" using eff by simp
    moreover have "p_pending s = 0 \<Longrightarrow> \<not> p_failed s \<Longrightarrow> p_row s = Some x" using c(4) [of x] rd True by simp
    ultimately show ?thesis using c(1,2,4) rd ne by (intro coherent_atI) (auto simp: version_is_def)
  next
    case False
    then have "d' = p_store s" using eff by (simp split: if_splits)
    then show ?thesis using c rd by (intro coherent_atI) auto
  qed
qed

lemma coherent_invalidate:
  assumes laws: "server_laws rc look" and vttl: "0 < vttl" and ne: "key \<noteq> vkey"
    and inv: "coherent_at look key vkey s n"
    and run: "invalidate_script rc key vkey (dec_int vttl) (p_store s) = (r, d')"
  shows "coherent look key vkey (s\<lparr>p_store := d', p_pending := k, p_failed := (p_failed s \<or> is_error (Some r))\<rparr>)"
proof -
  note c = coherent_atD [OF inv]
  from invalidate_script_effect [OF laws vttl c(1) [unfolded version_is_def] ne run] show ?thesis
  proof
    assume "is_error (Some r) \<and> look d' = look (p_store s)"
    then have "coherent_at look key vkey (s\<lparr>p_store := d', p_pending := k, p_failed := (p_failed s \<or> is_error (Some r))\<rparr>) n"
      using c(1,2) by (intro coherent_atI) (auto simp: version_is_def)
    then show ?thesis unfolding coherent_def ..
  next
    assume a: "\<not> is_error (Some r) \<and> look d' = (look (p_store s))(vkey \<mapsto> dec_int (int (Suc n)), key := None)"
    have old: "\<exists>m\<le>Suc n. reader_version b = dec_int (int m)" if "b \<in> set (p_readers s)" for b
      using c(2) [OF that] le_SucI by blast
    have new: "Fetched (dec_int (int (Suc n))) x \<notin> set (p_readers s)" for x
      using c(2) [of "Fetched (dec_int (int (Suc n))) x"] by (auto simp del: of_nat_Suc)
    have "coherent_at look key vkey (s\<lparr>p_store := d', p_pending := k, p_failed := (p_failed s \<or> is_error (Some r))\<rparr>) (Suc n)"
      using a old new ne by (intro coherent_atI) (auto simp: version_is_def simp del: of_nat_Suc)
    then show ?thesis unfolding coherent_def ..
  qed
qed

lemma coherent_step:
  assumes step: "protocol_step rc look True key vkey ttl vttl s s'"
    and laws: "server_laws rc look" and ttl: "- (2 ^ 31) \<le> ttl" "ttl < 2 ^ 31" and vttl: "0 < vttl"
    and ne: "key \<noteq> vkey" and inv: "coherent look key vkey s"
  shows "coherent look key vkey s'"
proof -
  obtain n where n: "coherent_at look key vkey s n" using inv unfolding coherent_def ..
  note c = coherent_atD [OF n]
  have at: "coherent look key vkey s'" if "coherent_at look key vkey s' m" for m
    using that unfolding coherent_def ..
  from step show ?thesis
  proof (cases rule: protocol_step.cases)
    case (Begin v)
    then have "v = dec_int (int n)" using read_version_is [OF laws c(1)] by simp
    with Begin c show ?thesis by (intro at [of n] coherent_atI) auto
  next
    case (Fetch xs v ys x)
    then show ?thesis using c by (intro at [of n] coherent_atI) force+
  next
    case (Put xs v x ys r d')
    show ?thesis unfolding Put(1) by (rule at [unfolded Put(1)], rule coherent_put [OF laws ttl ne n Put(2,3)])
  next
    case (Abandon xs a ys)
    then show ?thesis using c by (intro at [of n] coherent_atI) auto
  next
    case (Commit y)
    then show ?thesis using c by (intro at [of n] coherent_atI) auto
  next
    case (Invalidate k r d')
    then show ?thesis using coherent_invalidate [OF laws vttl ne n] by simp
  next
    case (Unreachable k)
    then show ?thesis using c by (intro at [of n] coherent_atI) auto
  next
    case (Expire d')
    then show ?thesis using c ne by (intro at [of n] coherent_atI) (auto simp: version_is_def)
  next
    case (ExpireVersion d')
    then show ?thesis using c ne by (intro at [of 0] coherent_atI) (auto simp: version_is_def)
  next
    case (Other d')
    then show ?thesis using c by (intro at [of n] coherent_atI) (auto simp: version_is_def)
  qed
qed

lemma reachable_coherent:
  assumes "protocol_reachable rc look True key vkey ttl vttl s"
    and "server_laws rc look" "- (2 ^ 31) \<le> ttl" "ttl < 2 ^ 31" "0 < vttl" "key \<noteq> vkey"
  shows "coherent look key vkey s"
  using assms
proof (induction rule: protocol_reachable.induct)
  case (Start d y)
  then have "coherent_at look key vkey \<lparr>p_store = d, p_row = y, p_readers = [], p_pending = 0, p_failed = False\<rparr> 0"
    by (intro coherent_atI) (auto simp: version_is_def)
  then show ?case unfolding coherent_def ..
next
  case (Step s s')
  then show ?case using coherent_step by blast
qed

section \<open>The operations run the scripts\<close>

text \<open>
  That the server runs the two scripts atomically on its database: an \<open>EVAL\<close> of either one
  answers with the script's reply and leaves the script's database.
\<close>

definition runs_scripts :: "'w hiredis \<Rightarrow> 'd redis_call \<Rightarrow> ('w \<Rightarrow> 'd) \<Rightarrow> bool" where
  "runs_scripts api rc db \<longleftrightarrow>
     (\<forall>x w key vkey v val ttl. \<exists>x' w'. hi_command api x
          [''EVAL'', kPutIfVersion, ''2'', key, vkey, v, val, ttl] w
            = (Some (fst (put_if_version_script rc key vkey v val ttl (db w))), x', w')
        \<and> db w' = snd (put_if_version_script rc key vkey v val ttl (db w)))
   \<and> (\<forall>x w key vkey ttl. \<exists>x' w'. hi_command api x
          [''EVAL'', kInvalidateVersioned, ''2'', key, vkey, ttl] w
            = (Some (fst (invalidate_script rc key vkey ttl (db w))), x', w')
        \<and> db w' = snd (invalidate_script rc key vkey ttl (db w)))"

lemma keys_differ: "make_key ca key \<noteq> version_key ca key"
  by (auto simp: make_key_def version_key_def dest: arg_cong [of _ _ length])

lemma connected_ensure:
  "is_connected (ca_redis ca) \<Longrightarrow> ensure_connected_locked env ca w = (True, ca, w)"
  by (simp add: ensure_connected_locked_def)

lemma connected_raw:
  assumes "is_connected (ca_redis ca)"
    and "\<forall>x. \<exists>x' w'. hi_command (ce_redis env) x argv w = (r, x', w') \<and> P w'"
  obtains ca' w' where "raw_command env argv ca w = (r, ca', w')" "P w'" "ca_config ca' = ca_config ca"
proof -
  obtain x where "ctx (ca_redis ca) = Some x"
    using assms(1) by (auto simp: is_connected_def split: option.splits)
  moreover obtain x' w' where "hi_command (ce_redis env) x argv w = (r, x', w')" "P w'"
    using assms(2) by blast
  ultimately show ?thesis
    using that by (auto simp: raw_command_def redis_command_def)
qed

lemma put_if_version_runs:
  assumes "is_connected (ca_redis ca)" "runs_scripts (ce_redis env) rc db" "server_laws rc look"
    and ttl: "- (2 ^ 31) \<le> effective_ttl ca ttl" "effective_ttl ca ttl < 2 ^ 31"
  shows "(case put_if_version env key v val ttl ca w of (b, ca', w') \<Rightarrow>
     (b \<longleftrightarrow> (case look (db w) (version_key ca key) of None \<Rightarrow> ''0'' | Some u \<Rightarrow> u) = v)
     \<and> look (db w') = (if b then (look (db w))(make_key ca key \<mapsto> val) else look (db w)))"
proof -
  let ?s = "put_if_version_script rc (make_key ca key) (version_key ca key) v val
    (dec_int (effective_ttl ca ttl)) (db w)"
  obtain r d' where s: "?s = (r, d')" by (rule prod.exhaust)
  note eff = put_script_effect [OF assms(3) ttl s]
  have "\<forall>x. \<exists>x' w'. hi_command (ce_redis env) x [''EVAL'', kPutIfVersion, ''2'', make_key ca key,
      version_key ca key, v, val, dec_int (effective_ttl ca ttl)] w = (Some r, x', w') \<and> db w' = d'"
    using assms(2) s unfolding runs_scripts_def by (metis fst_conv snd_conv)
  from connected_raw [OF assms(1) this] obtain ca' w' where
    raw: "raw_command env [''EVAL'', kPutIfVersion, ''2'', make_key ca key,
      version_key ca key, v, val, dec_int (effective_ttl ca ttl)] ca w = (Some r, ca', w')" "db w' = d'"
    by metis
  have "put_if_version env key v val ttl ca w =
      (if is_error (Some r) then (False, ca', w')
       else if Some r = Some (RInteger 0) then (False, ca', w') else (True, ca', w'))"
    using connected_ensure [OF assms(1), of env w] raw(1)
    by (simp only: put_if_version_def Let_def prod.case bool.case)
  then show ?thesis
    using eff raw(2) by (auto simp: is_error_def split: if_splits)
qed

lemma invalidate_versioned_runs:
  assumes "is_connected (ca_redis ca)" "runs_scripts (ce_redis env) rc db" "server_laws rc look"
    and "0 < version_ttl_seconds (ca_config ca)" "version_is look (version_key ca key) (db w) n"
  shows "(case invalidate_versioned env key ca w of (b, ca', w') \<Rightarrow>
     look (db w') = (if b then (look (db w))(version_key ca key \<mapsto> dec_int (int (Suc n)),
                                            make_key ca key := None)
                     else look (db w)))"
proof -
  let ?s = "invalidate_script rc (make_key ca key) (version_key ca key)
    (dec_int (version_ttl_seconds (ca_config ca))) (db w)"
  obtain r d' where s: "?s = (r, d')" by (rule prod.exhaust)
  note eff = invalidate_script_effect [OF assms(3,4) assms(5) [unfolded version_is_def] keys_differ s]
  have "\<forall>x. \<exists>x' w'. hi_command (ce_redis env) x [''EVAL'', kInvalidateVersioned, ''2'', make_key ca key,
      version_key ca key, dec_int (version_ttl_seconds (ca_config ca))] w = (Some r, x', w') \<and> db w' = d'"
    using assms(2) s unfolding runs_scripts_def by (metis fst_conv snd_conv)
  from connected_raw [OF assms(1) this] obtain ca' w' where
    raw: "raw_command env [''EVAL'', kInvalidateVersioned, ''2'', make_key ca key,
      version_key ca key, dec_int (version_ttl_seconds (ca_config ca))] ca w = (Some r, ca', w')" "db w' = d'"
    by metis
  have "invalidate_versioned env key ca w =
      (if is_error (Some r) then (False, ca', w') else (True, ca', w'))"
    using connected_ensure [OF assms(1), of env w] raw(1)
    by (simp only: invalidate_versioned_def Let_def prod.case bool.case)
  then show ?thesis using eff raw(2) by auto
qed

section \<open>A server that keeps the laws\<close>

definition demo_call :: "(string \<rightharpoonup> string) redis_call" where
  "demo_call argv d = (case argv of
      [c, k] \<Rightarrow>
        if c = ''GET'' then (case d k of None \<Rightarrow> RNil | Some v \<Rightarrow> RString v, d)
        else if c = ''DEL'' then (RInteger (if d k = None then 0 else 1), d(k := None))
        else if c = ''INCR'' then
          (case d k of
             None \<Rightarrow> (RInteger 1, d(k \<mapsto> dec_int 1))
           | Some v \<Rightarrow> (case stoll v of
               Inl _ \<Rightarrow> (RError ''ERR value is not an integer or out of range'', d)
             | Inr (n, _) \<Rightarrow>
                 if n < 2 ^ 63 - 1 then (RInteger (n + 1), d(k \<mapsto> dec_int (n + 1)))
                 else (RError ''ERR increment or decrement would overflow'', d)))
        else (RError ''ERR unknown command'', d)
    | [c, k, v] \<Rightarrow>
        if c = ''SET'' then (RStatus ''OK'', d(k \<mapsto> v))
        else if c = ''EXPIRE'' then (RInteger (if d k = None then 0 else 1), d)
        else (RError ''ERR unknown command'', d)
    | [c, k, v, x, t] \<Rightarrow>
        if c = ''SET'' \<and> x = ''EX'' then (RStatus ''OK'', d(k \<mapsto> v))
        else (RError ''ERR syntax error'', d)
    | _ \<Rightarrow> (RError ''ERR unknown command'', d))"

lemma demo_incr:
  "demo_call [''INCR'', k] d = (case d k of
             None \<Rightarrow> (RInteger 1, d(k \<mapsto> dec_int 1))
           | Some v \<Rightarrow> (case stoll v of
               Inl _ \<Rightarrow> (RError ''ERR value is not an integer or out of range'', d)
             | Inr (n, _) \<Rightarrow>
                 if n < 2 ^ 63 - 1 then (RInteger (n + 1), d(k \<mapsto> dec_int (n + 1)))
                 else (RError ''ERR increment or decrement would overflow'', d)))"
  by (simp add: demo_call_def)

lemma demo_laws: "server_laws demo_call id"
proof -
  have "\<exists>m. demo_call [''INCR'', k] d = (RError m, d)"
    if "d k = Some (dec_int n)" "2 ^ 63 - 1 \<le> n" for d k n
  proof (cases "n = 2 ^ 63 - 1")
    case True
    then show ?thesis using that stoll_dec_int [of n] by (simp add: demo_incr)
  next
    case False
    with that have "2 ^ 63 \<le> n" by simp
    then obtain e where "stoll (dec_int n) = Inl e" using stoll_dec_int_large by blast
    then show ?thesis using that by (simp add: demo_incr)
  qed
  moreover have "demo_call [''INCR'', k] d = (RInteger (n + 1), d(k \<mapsto> dec_int (n + 1)))"
    if "d k = Some (dec_int n)" "0 \<le> n" "n < 2 ^ 63 - 1" for d k n
    using that stoll_dec_int [of n] by (simp add: demo_incr)
  moreover have "demo_call [''INCR'', k] d = (RInteger 1, d(k \<mapsto> dec_int 1))" if "d k = None" for d k
    using that by (simp add: demo_incr)
  ultimately show ?thesis
    unfolding server_laws_def id_apply by (intro conjI allI impI) (auto simp: demo_call_def)
qed

text \<open>A hiredis over that server, whose world is the server's database.\<close>

definition demo_hiredis :: "(string \<rightharpoonup> string) hiredis" where
  "demo_hiredis = \<lparr>
     hi_connect = (\<lambda>_ _ _ w. (Some \<lparr>rc_handle = 0, rc_err = 0, rc_errstr = []\<rparr>, w)),
     hi_set_timeout = (\<lambda>x _ w. (x, w)),
     hi_command = (\<lambda>x argv w. case argv of
         [e, s, n, key, vkey, v, val, ttl] \<Rightarrow>
           (case put_if_version_script demo_call key vkey v val ttl w of (r, w') \<Rightarrow> (Some r, x, w'))
       | [e, s, n, key, vkey, ttl] \<Rightarrow>
           (case invalidate_script demo_call key vkey ttl w of (r, w') \<Rightarrow> (Some r, x, w'))
       | _ \<Rightarrow> (case demo_call argv w of (r, w') \<Rightarrow> (Some r, x, w'))),
     hi_free = (\<lambda>_ w. w)\<rparr>"

lemma demo_runs_scripts: "runs_scripts demo_hiredis demo_call id"
  by (auto simp: runs_scripts_def demo_hiredis_def split: prod.splits)

definition demo_cache :: cache_aside where
  "demo_cache = new_cache_aside
     \<lparr>ctx = Some \<lparr>rc_handle = 0, rc_err = 0, rc_errstr = []\<rparr>, rd_config = default_redis_config\<rparr>
     default_cache_config"

definition demo_env :: "(string \<rightharpoonup> string) cache_env" where
  "demo_env = \<lparr>ce_redis = demo_hiredis, ce_now = (\<lambda>_. 0)\<rparr>"

text \<open>Runs of the protocol on that server, for the key of a resource.\<close>

abbreviation "demo_key \<equiv> make_key demo_cache ''resource:c:1''"
abbreviation "demo_vkey \<equiv> version_key demo_cache ''resource:c:1''"
abbreviation "demo_reachable held \<equiv> protocol_reachable demo_call id held demo_key demo_vkey 60 600"

lemma demo_fetched:
  "demo_reachable held \<lparr>p_store = Map.empty, p_row = Some ''old'',
     p_readers = [Fetched ''0'' ''old''], p_pending = 0, p_failed = False\<rparr>"
proof -
  let ?s = "\<lparr>p_store = (Map.empty :: string \<rightharpoonup> string), p_row = Some ''old'', p_readers = [], p_pending = 0, p_failed = False\<rparr>"
  have "demo_reachable held ?s" by (rule protocol_reachable.Start) simp_all
  moreover have "protocol_step demo_call id held demo_key demo_vkey 60 600 ?s
      (?s\<lparr>p_readers := p_readers ?s @ [Versioned ''0'']\<rparr>)"
    by (rule protocol_step.Begin) (simp add: read_version_def demo_call_def)
  ultimately have "demo_reachable held (?s\<lparr>p_readers := [Versioned ''0'']\<rparr>)"
    using protocol_reachable.Step by fastforce
  moreover have "protocol_step demo_call id held demo_key demo_vkey 60 600
      (?s\<lparr>p_readers := [Versioned ''0'']\<rparr>)
      (?s\<lparr>p_readers := [Versioned ''0'']\<rparr>\<lparr>p_readers := [] @ Fetched ''0'' ''old'' # []\<rparr>)"
    by (rule protocol_step.Fetch) simp_all
  ultimately show ?thesis using protocol_reachable.Step by fastforce
qed

lemma put_step:
  assumes "protocol_reachable rc look held key vkey ttl vttl s" "p_readers s = [Fetched v x]"
    and "put_if_version_script rc key vkey v x (dec_int ttl) (p_store s) = (r, d')"
  shows "protocol_reachable rc look held key vkey ttl vttl (s\<lparr>p_store := d', p_readers := []\<rparr>)"
  using protocol_reachable.Step [OF assms(1) protocol_step.Put [of s "[]" v x "[]"]] assms(2,3) by simp

lemma demo_put_script:
  assumes "d demo_vkey = None"
  shows "put_if_version_script demo_call demo_key demo_vkey ''0'' x (dec_int 60) d
    = (RInteger 1, d(demo_key \<mapsto> x))"
proof -
  have "stoi (dec_int 60) = Inr (60, length (dec_int 60))" by (rule stoi_dec_int) simp_all
  then show ?thesis
    using assms by (simp add: put_if_version_script_def demo_call_def lua_or_zero_def)
qed

lemma demo_cached:
  "demo_reachable held \<lparr>p_store = [demo_key \<mapsto> ''old''], p_row = Some ''old'',
     p_readers = [], p_pending = 0, p_failed = False\<rparr>"
  using put_step [OF demo_fetched [of held], of "''0''" "''old''" "RInteger 1" "[demo_key \<mapsto> ''old'']"]
    demo_put_script [of Map.empty] by simp

section \<open>Properties\<close>



text \<open>
  C36. The lifetime of the version key matters: when it may end while a reader is between its
  version and its put, a state is reachable in which no write is under way, no invalidation has
  failed, and the cache holds the row's old content. The version falls back to 0, the value that
  the slow reader saw, and the conditional put succeeds.
\<close>

theorem version_expiry_stale:
  "\<exists>s. protocol_reachable demo_call id False demo_key demo_vkey 60 600 s
     \<and> p_pending s = 0 \<and> \<not> p_failed s
     \<and> p_store s demo_key = Some ''old'' \<and> p_row s = Some ''new''"
proof -
  let ?f = "\<lparr>p_store = (Map.empty :: string \<rightharpoonup> string), p_row = Some ''old'', p_readers = [Fetched ''0'' ''old''],
     p_pending = 0, p_failed = False\<rparr>"
  let ?step = "protocol_step demo_call id False demo_key demo_vkey 60 600"
  have commit: "?step ?f (?f\<lparr>p_row := Some ''new'', p_pending := Suc (p_pending ?f)\<rparr>)"
    by (rule protocol_step.Commit)
  let ?d = "[demo_vkey \<mapsto> dec_int 1](demo_key := None) :: string \<rightharpoonup> string"
  have inv: "invalidate_script demo_call demo_key demo_vkey (dec_int 600) Map.empty = (RInteger 1, ?d)"
    by (simp add: invalidate_script_def demo_call_def)
  let ?c = "?f\<lparr>p_row := Some ''new'', p_pending := Suc 0\<rparr>"
  have invalidate: "?step ?c (?c\<lparr>p_store := ?d, p_pending := 0,
      p_failed := p_failed ?c \<or> is_error (Some (RInteger 1))\<rparr>)"
    by (rule protocol_step.Invalidate) (simp_all add: inv)
  let ?i = "?c\<lparr>p_store := ?d, p_pending := 0\<rparr>"
  have expire: "?step ?i (?i\<lparr>p_store := Map.empty\<rparr>)"
    by (rule protocol_step.ExpireVersion) (simp_all add: fun_eq_iff)
  have "demo_reachable False ?c"
    using protocol_reachable.Step [OF demo_fetched commit] by simp
  then have "demo_reachable False ?i"
    using protocol_reachable.Step [OF _ invalidate] by (simp add: is_error_def)
  from protocol_reachable.Step [OF this expire]
  have "demo_reachable False (?i\<lparr>p_store := Map.empty\<rparr>)" .
  from put_step [OF this, of "''0''" "''old''" "RInteger 1" "[demo_key \<mapsto> ''old'']"]
  have "demo_reachable False (?i\<lparr>p_store := [demo_key \<mapsto> ''old''], p_readers := []\<rparr>)"
    using demo_put_script [of Map.empty] by simp
  then show ?thesis by (intro exI conjI) (assumption, simp_all)
qed

text \<open>
  The operations are the protocol's steps: on an open connection to a server that runs the
  scripts, \<open>put_if_version\<close> returns true exactly when the version is still the expected one, and
  then and only then stores the value; \<open>invalidate_versioned\<close> returning true has removed the entry
  and increased the version, and returning false has changed nothing.
\<close>

theorem versioned_operations:
  assumes "is_connected (ca_redis ca)" "runs_scripts (ce_redis env) rc db" "server_laws rc look"
    and "- (2 ^ 31) \<le> effective_ttl ca ttl" "effective_ttl ca ttl < 2 ^ 31"
    and "0 < version_ttl_seconds (ca_config ca)" "version_is look (version_key ca key) (db w) n"
  shows "(case put_if_version env key v val ttl ca w of (b, ca', w') \<Rightarrow>
       (b \<longleftrightarrow> v = dec_int (int n))
       \<and> look (db w') = (if b then (look (db w))(make_key ca key \<mapsto> val) else look (db w)))
    \<and> (case invalidate_versioned env key ca w of (b, ca', w') \<Rightarrow>
       look (db w') = (if b then (look (db w))(version_key ca key \<mapsto> dec_int (int n + 1),
                                              make_key ca key := None)
                       else look (db w)))"
proof -
  have "(case look (db w) (version_key ca key) of None \<Rightarrow> ''0'' | Some u \<Rightarrow> u) = dec_int (int n)"
    using assms(7) dec_int_0 by (auto simp: version_is_def)
  moreover have "int (Suc n) = int n + 1" by simp
  ultimately show ?thesis
    using put_if_version_runs [OF assms(1-5), where key = key and v = v and val = val and w = w] invalidate_versioned_runs [OF assms(1-3,6,7)]
    by (simp only: eq_commute [of v] split: prod.splits)
qed

theorem versioned_operations_witness:
  "fst (put_if_version demo_env ''k'' ''0'' ''x'' (- 1) demo_cache Map.empty)"
proof -
  have "is_connected (ca_redis demo_cache)" "runs_scripts (ce_redis demo_env) demo_call id"
      "version_is id (version_key demo_cache ''k'') (id Map.empty) 0"
      "0 < version_ttl_seconds (ca_config demo_cache)" "effective_ttl demo_cache (- 1) = 300"
    using demo_runs_scripts
    by (simp_all add: demo_cache_def demo_env_def new_cache_aside_def is_connected_def version_is_def
        default_cache_config_def effective_ttl_def)
  then show ?thesis
    using versioned_operations [where ca = demo_cache and env = demo_env and rc = demo_call
        and db = id and look = id and ttl = "- 1" and key = "''k''" and w = Map.empty and n = 0
        and v = "''0''" and val = "''x''"]
      demo_laws dec_int_0 by (auto split: prod.splits)
qed

end
