(* ===== verification/Coherence.thy ===== *)
theory Coherence
  imports CacheProtocol Service
begin

text \<open>
  The service as a client of the cache protocol: with an open connection to a Redis that runs the scripts, a whole call of
  \<open>get\<close>, \<open>update\<close> or \<open>remove\<close> of \<open>src/resources/resource_service.cpp\<close> is a run of steps of
  \<open>CacheProtocol\<close>, so that the coherence of the protocol is the freshness of what the service answers. The
  locale states what Redis and the database are assumed to do; \<open>db\<close> and \<open>row\<close> read Redis' database and the row, as the text
  that the service would store, from the world. A statement that fails leaves the row as it was: a commit whose outcome libpqxx
  reports as unknown is excluded, and so is a database that cannot be reached.
\<close>

section \<open>What the platform promises\<close>

text \<open>Redis on an open connection, and that its commands do not touch the row.\<close>

locale script_server =
  fixes env :: "('c, 'w) service_env" and rc :: "'d redis_call" and look :: "'d \<Rightarrow> string \<Rightarrow> string option"
    and db :: "'w \<Rightarrow> 'd" and row :: "'w \<Rightarrow> string option"
  assumes laws: "server_laws rc look"
    and get_runs: "\<exists>w'. hi_command (ce_redis (se_cache env)) x [''GET'', k] w = (Some (fst (rc [''GET'', k] (db w))), x, w')
      \<and> db w' = db w \<and> row w' = row w"
    and exists_runs: "\<exists>w'. hi_command (ce_redis (se_cache env)) x [''EXISTS'', k] w
        = (Some (RInteger (if look (db w) k = None then 0 else 1)), x, w') \<and> db w' = db w \<and> row w' = row w"
    and put_runs: "\<exists>w'. hi_command (ce_redis (se_cache env)) x [''EVAL'', kPutIfVersion, ''2'', key, vkey, v, val, ttl] w
        = (Some (fst (put_if_version_script rc key vkey v val ttl (db w))), x, w')
      \<and> db w' = snd (put_if_version_script rc key vkey v val ttl (db w)) \<and> row w' = row w"
    and invalidate_runs: "\<exists>w'. hi_command (ce_redis (se_cache env)) x [''EVAL'', kInvalidateVersioned, ''2'', key, vkey, vttl] w
        = (Some (fst (invalidate_script rc key vkey vttl (db w))), x, w')
      \<and> db w' = snd (invalidate_script rc key vkey vttl (db w)) \<and> row w' = row w"

text \<open>
  PostgreSQL: \<open>row\<close> is the committed row, \<open>pend\<close> whether the transaction has changed it. A statement changes what
  is pending only when it returns the row; a transaction that has changed nothing commits; a commit that
  fails leaves the row.
\<close>

locale row_database = script_server env rc look db row
  for env :: "('c, 'w) service_env" and rc :: "'d redis_call" and look :: "'d \<Rightarrow> string \<Rightarrow> string option"
    and db :: "'w \<Rightarrow> 'd" and row :: "'w \<Rightarrow> string option" +
  fixes pend :: "'w \<Rightarrow> bool" and client_id rid :: string
  assumes pg_takes: "\<exists>c w'. pg_acquire (se_pg env) w = (Inr c, w') \<and> db w' = db w \<and> row w' = row w"
    and pg_gives: "db (pg_release (se_pg env) c w) = db w \<and> row (pg_release (se_pg env) c w) = row w"
    and pg_begins: "\<exists>w'. pg_begin (se_pg env) c w = (Inr (), w') \<and> db w' = db w \<and> row w' = row w \<and> \<not> pend w'"
    and pg_ends: "db (pg_end (se_pg env) c w) = db w \<and> row (pg_end (se_pg env) c w) = row w"
    and pg_commits: "pg_commit (se_pg env) c w = (cr, w') \<Longrightarrow> db w' = db w \<and> (cr = Inr () \<or> row w' = row w)"
    and pg_commits_nothing: "\<not> pend w \<Longrightarrow> \<exists>w'. pg_commit (se_pg env) c w = (Inr (), w') \<and> row w' = row w"
    and pg_selects: "\<exists>rows w'. pg_exec_params (se_pg env) c find_sql [client_id, rid] w = (Inr rows, w')
      \<and> db w' = db w \<and> row w' = row w \<and> pend w' = pend w
      \<and> (rows = [] \<and> row w = None
        \<or> (\<exists>x body. rows \<noteq> [] \<and> row_to_resource (se_json env) (first_row rows) = Inr x \<and> row w = Some body
             \<and> json_dump (se_json env) (resource_to_json x) = Inr body
             \<and> json_parse (se_json env) body = Inr (resource_to_json x)))"
    and pg_updates: "update_sql (se_json env) (pg_quote (se_pg env) c) client_id rid ureq = Inr sql
      \<Longrightarrow> pg_exec (se_pg env) c sql w = (er, w') \<Longrightarrow> db w' = db w \<and> row w' = row w
      \<and> (pend w' \<longrightarrow> pend w \<or> (\<exists>rows x. er = Inr rows \<and> rows \<noteq> [] \<and> row_to_resource (se_json env) (first_row rows) = Inr x))"
    and pg_deletes: "pg_exec_params (se_pg env) c remove_sql [client_id, rid] w = (er, w') \<Longrightarrow> db w' = db w \<and> row w' = row w
      \<and> (pend w' \<longrightarrow> pend w \<or> (\<exists>rows. er = Inr rows \<and> rows \<noteq> []))"

text \<open>What the repository makes of it, which is what the service relies on.\<close>

locale row_platform = script_server env rc look db row
  for env :: "('c, 'w) service_env" and rc :: "'d redis_call" and look :: "'d \<Rightarrow> string \<Rightarrow> string option"
    and db :: "'w \<Rightarrow> 'd" and row :: "'w \<Rightarrow> string option" +
  fixes client_id rid :: string
  assumes finds: "repo_find_by_id (se_pg env) (se_json env) client_id rid w = (r, w') \<Longrightarrow> db w' = db w \<and> row w' = row w
      \<and> (case r of Inl e \<Rightarrow> True
         | Inr None \<Rightarrow> row w = None
         | Inr (Some x) \<Rightarrow> \<exists>body. row w = Some body \<and> json_dump (se_json env) (resource_to_json x) = Inr body
             \<and> json_parse (se_json env) body = Inr (resource_to_json x))"
    and available: "\<exists>x. fst (repo_find_by_id (se_pg env) (se_json env) client_id rid w) = Inr x"
    and updates: "repo_update (se_pg env) (se_json env) client_id rid ureq w = (ur, w') \<Longrightarrow> db w' = db w
      \<and> ((\<exists>x. ur = Inr (Some x)) \<or> row w' = row w)"
    and removes: "repo_remove (se_pg env) client_id rid w = (rr, w') \<Longrightarrow> db w' = db w \<and> (rr = Inr True \<or> row w' = row w)"

context row_database
begin

abbreviation "pg \<equiv> se_pg env"
abbreviation "lib \<equiv> se_json env"

lemma transaction_runs:
  assumes "in_transaction pg body w = (r, w')"
  obtains c w1 w2 where "db w1 = db w" "row w1 = row w" "\<not> pend w1" "body c w1 = (r, w2)" "db w' = db w2" "row w' = row w2"
proof -
  obtain c w0 where t: "pg_acquire pg w = (Inr c, w0)" "db w0 = db w" "row w0 = row w" using pg_takes by blast
  obtain w1 where b: "pg_begin pg c w0 = (Inr (), w1)" "db w1 = db w0" "row w1 = row w0" "\<not> pend w1" using pg_begins by blast
  obtain r2 w2 where x: "body c w1 = (r2, w2)" by (rule prod.exhaust)
  then have "r2 = r" "w' = pg_release pg c (pg_end pg c w2)"
    using assms t b by (simp_all add: in_transaction_def then_do_def)
  then show ?thesis using that [of w1 c w2] t b x pg_gives pg_ends by simp
qed

lemma find_runs:
  assumes "repo_find_by_id pg lib client_id rid w = (r, w')"
  shows "db w' = db w \<and> row w' = row w \<and> (\<exists>u. r = Inr u \<and> (case u of None \<Rightarrow> row w = None
    | Some x \<Rightarrow> \<exists>body. row w = Some body \<and> json_dump lib (resource_to_json x) = Inr body
        \<and> json_parse lib body = Inr (resource_to_json x)))"
proof -
  obtain c w1 w2 where t: "db w1 = db w" "row w1 = row w" "\<not> pend w1" "db w' = db w2" "row w' = row w2"
    "then_do (pg_exec_params pg c find_sql [client_id, rid] w1)
       (\<lambda>rows w. then_do (pg_commit pg c w) (\<lambda>_ w. (optional_row lib rows, w))) = (r, w2)"
    using assms unfolding repo_find_by_id_def by (rule transaction_runs)
  obtain rows w3 where s: "pg_exec_params pg c find_sql [client_id, rid] w1 = (Inr rows, w3)"
      "db w3 = db w1" "row w3 = row w1" "\<not> pend w3"
    and rows: "rows = [] \<and> row w1 = None
        \<or> (\<exists>x body. rows \<noteq> [] \<and> row_to_resource lib (first_row rows) = Inr x \<and> row w1 = Some body
             \<and> json_dump lib (resource_to_json x) = Inr body \<and> json_parse lib body = Inr (resource_to_json x))"
    using pg_selects [of c w1] t(3) by blast
  obtain w4 where "pg_commit pg c w3 = (Inr (), w4)" "row w4 = row w3" using pg_commits_nothing [OF s(4)] by blast
  moreover from this have "db w4 = db w3" using pg_commits by blast
  ultimately have "r = optional_row lib rows" "w2 = w4" "db w2 = db w" "row w2 = row w"
    using t s by (simp_all add: then_do_def)
  then show ?thesis using rows t(2,4,5) by (auto simp: optional_row_def)
qed

lemma change_runs:
  assumes "in_transaction pg (\<lambda>c w. then_do (stmt c w) (\<lambda>rows w. then_do (pg_commit pg c w) (\<lambda>_ w. (k rows, w)))) w = (r, w')"
    and "\<And>c w er w'. stmt c w = (er, w') \<Longrightarrow> db w' = db w \<and> row w' = row w
        \<and> (pend w' \<longrightarrow> pend w \<or> (\<exists>rows. er = Inr rows \<and> ok (k rows)))"
  shows "db w' = db w \<and> (ok r \<or> row w' = row w)"
proof -
  obtain c w1 w2 where t: "db w1 = db w" "row w1 = row w" "\<not> pend w1" "db w' = db w2" "row w' = row w2"
    "then_do (stmt c w1) (\<lambda>rows w. then_do (pg_commit pg c w) (\<lambda>_ w. (k rows, w))) = (r, w2)"
    using assms(1) by (rule transaction_runs)
  obtain er w3 where s: "stmt c w1 = (er, w3)" by (rule prod.exhaust)
  note law = assms(2) [OF s]
  show ?thesis
  proof (cases er)
    case (Inl e)
    then show ?thesis using t s law by (simp add: then_do_def)
  next
    case (Inr rows)
    obtain cr w4 where c: "pg_commit pg c w3 = (cr, w4)" by (rule prod.exhaust)
    note commit = pg_commits [OF c]
    have r: "r = (case cr of Inl e \<Rightarrow> Inl e | Inr _ \<Rightarrow> k rows)" "w2 = w4"
      using t s c Inr by (cases cr; simp add: then_do_def)+
    have "row w4 = row w3" if "\<not> pend w3" using pg_commits_nothing [OF that, of c] c by auto
    then show ?thesis using t law commit r Inr by (cases "pend w3") auto
  qed
qed

lemma update_runs:
  assumes "repo_update pg lib client_id rid ureq w = (r, w')"
  shows "db w' = db w \<and> ((\<exists>x. r = Inr (Some x)) \<or> row w' = row w)"
proof -
  let ?stmt = "\<lambda>c w. case update_sql lib (pg_quote pg c) client_id rid ureq of Inl e \<Rightarrow> (Inl e, w) | Inr sql \<Rightarrow> pg_exec pg c sql w"
  have "repo_update pg lib client_id rid ureq = in_transaction pg (\<lambda>c w.
      then_do (?stmt c w) (\<lambda>rows w. then_do (pg_commit pg c w) (\<lambda>_ w. (optional_row lib rows, w))))"
    unfolding repo_update_def by (intro arg_cong [where f = "in_transaction pg"] ext) (simp add: then_do_def split: sum.split)
  moreover have "db w' = db w \<and> row w' = row w
      \<and> (pend w' \<longrightarrow> pend w \<or> (\<exists>rows. er = Inr rows \<and> (\<exists>x. optional_row lib rows = Inr (Some x))))"
    if s: "?stmt c w = (er, w')" for c w er w'
  proof (cases "update_sql lib (pg_quote pg c) client_id rid ureq")
    case (Inr sql)
    then show ?thesis using pg_updates [OF Inr] s by (fastforce simp: optional_row_def)
  qed (use s in simp)
  ultimately show ?thesis
    using change_runs [where stmt = ?stmt and k = "optional_row lib" and ok = "\<lambda>r. \<exists>x. r = Inr (Some x)"] assms by simp
qed

lemma remove_runs:
  assumes "repo_remove pg client_id rid w = (r, w')"
  shows "db w' = db w \<and> (r = Inr True \<or> row w' = row w)"
  using change_runs [where stmt = "\<lambda>c. pg_exec_params pg c remove_sql [client_id, rid]" and k = "\<lambda>rows. Inr (rows \<noteq> [])"
      and ok = "\<lambda>r. r = Inr True", OF assms [unfolded repo_remove_def]] pg_deletes by blast

lemma repository_platform: "row_platform env rc look db row client_id rid"
proof
  fix w r w'
  show "db w' = db w \<and> row w' = row w \<and> (case r of Inl e \<Rightarrow> True
      | Inr None \<Rightarrow> row w = None
      | Inr (Some x) \<Rightarrow> \<exists>body. row w = Some body \<and> json_dump lib (resource_to_json x) = Inr body
          \<and> json_parse lib body = Inr (resource_to_json x))"
    if "repo_find_by_id pg lib client_id rid w = (r, w')"
    using find_runs [OF that] by (auto split: option.splits)
  show "\<exists>x. fst (repo_find_by_id pg lib client_id rid w) = Inr x"
    using find_runs [of w] by (metis prod.collapse)
qed (rule update_runs remove_runs; assumption)+

end

sublocale row_database \<subseteq> row_platform
  by (rule repository_platform)

text \<open>
  The cache in use: connected, with keys that hold no NUL, which \<open>GET\<close> would cut off. A protocol state
  belongs to a world when its store and its row are the world's.
\<close>

definition cache_ready :: "cache_aside \<Rightarrow> string \<Rightarrow> bool" where
  "cache_ready ca key \<longleftrightarrow> is_connected (ca_redis ca) \<and> CHR 0x00 \<notin> set (key_prefix (ca_config ca) @ key)
     \<and> 0 < version_ttl_seconds (ca_config ca)"

definition cache_state ::
  "'d redis_call \<Rightarrow> ('d \<Rightarrow> string \<Rightarrow> string option) \<Rightarrow> cache_aside \<Rightarrow> string \<Rightarrow> 'd \<Rightarrow> string option \<Rightarrow> 'd protocol \<Rightarrow> bool" where
  "cache_state rc look ca key d y s \<longleftrightarrow>
     protocol_reachable rc look True (make_key ca key) (version_key ca key) kResourceCacheTtlSeconds
       (version_ttl_seconds (ca_config ca)) s \<and> p_store s = d \<and> p_row s = y"

text \<open>The right answer to \<open>get\<close> when the row, as the service would store it, is \<open>y\<close>.\<close>

definition is_current :: "('c, 'w) service_env \<Rightarrow> string \<Rightarrow> string option \<Rightarrow> exn + resource \<Rightarrow> bool" where
  "is_current env rid y r \<longleftrightarrow> (case y of
      None \<Rightarrow> r = Inl (not_found rid)
    | Some body \<Rightarrow> \<exists>x. r = Inr x \<and> json_dump (se_json env) (resource_to_json x) = Inr body)"

lemma cache_state_cached:
  assumes "cache_state rc look ca key d y s" "server_laws rc look" "0 < version_ttl_seconds (ca_config ca)"
    and "p_pending s = 0" "\<not> p_failed s"
  shows "look d (make_key ca key) = None \<or> look d (make_key ca key) = y"
proof -
  have "coherent look (make_key ca key) (version_key ca key) s"
    by (rule reachable_coherent) (use assms keys_differ [of ca key] in \<open>auto simp: cache_state_def kResourceCacheTtlSeconds_def\<close>)
  from coherent_entry [OF this assms(4,5)] show ?thesis using assms(1) by (auto simp: cache_state_def)
qed

context row_platform
begin

abbreviation "key \<equiv> cache_key client_id rid"
abbreviation "api \<equiv> ce_redis (se_cache env)"

subsection \<open>Commands on an open connection\<close>

lemma command_runs:
  assumes "is_connected (ca_redis ca)" "\<And>x. \<exists>w'. hi_command api x argv w = (Some r, x, w') \<and> P w'"
  shows "\<exists>w'. redis_command api argv (ca_redis ca) w = (Some r, ca_redis ca, w') \<and> P w'"
proof -
  obtain x where x: "ctx (ca_redis ca) = Some x" using assms(1) by (auto simp: is_connected_def split: option.splits)
  obtain w' where "hi_command api x argv w = (Some r, x, w')" "P w'" using assms(2) by blast
  then show ?thesis using x by (simp add: redis_command_def)
qed

lemma op_runs:
  assumes "is_connected (ca_redis ca)" "\<And>x. \<exists>w'. hi_command api x argv w = (Some r, x, w') \<and> P w'"
  shows "\<exists>w'. on_redis (run_command api argv f) ca w = (f (Some r), ca, w') \<and> P w'"
  using command_runs [OF assms] assms(1)
  by (auto simp: on_redis_def run_command_def check_connection_def)

lemma get_op:
  assumes "is_connected (ca_redis ca)" "CHR 0x00 \<notin> set k"
  shows "\<exists>w'. on_redis (redis_get api k) ca w = (Inr (case look (db w) k of None \<Rightarrow> [] | Some v \<Rightarrow> v), ca, w')
    \<and> db w' = db w \<and> row w' = row w"
proof -
  have r: "fst (rc [''GET'', k] (db w)) = (case look (db w) k of None \<Rightarrow> RNil | Some v \<Rightarrow> RString v)"
    by (simp add: law_get [OF laws])
  have "\<exists>w'. on_redis (run_command api [''GET'', k] (string_or_empty ''GET'')) ca w
      = (string_or_empty ''GET'' (Some (case look (db w) k of None \<Rightarrow> RNil | Some v \<Rightarrow> RString v)), ca, w')
      \<and> db w' = db w \<and> row w' = row w"
    by (rule op_runs [OF assms(1)]) (use get_runs [of _ k w, unfolded r] in blast)
  then show ?thesis
    using assms(2) by (cases "look (db w) k") (simp_all add: redis_get_def c_str_id string_or_empty_def reply_string_def)
qed

lemma exists_op:
  assumes "is_connected (ca_redis ca)" "CHR 0x00 \<notin> set k"
  shows "\<exists>w'. on_redis (redis_exists api k) ca w = (Inr (if look (db w) k = None then 0 else 1), ca, w')
    \<and> db w' = db w \<and> row w' = row w"
proof -
  have "\<exists>w'. on_redis (run_command api [''EXISTS'', k] (unless_error ''EXISTS'' reply_integer)) ca w
      = (unless_error ''EXISTS'' reply_integer (Some (RInteger (if look (db w) k = None then 0 else 1))), ca, w')
      \<and> db w' = db w \<and> row w' = row w"
    by (rule op_runs [OF assms(1)]) (use exists_runs [of _ k w] in blast)
  then show ?thesis
    using assms(2) by (simp add: redis_exists_def c_str_id unless_error_def is_error_def reply_integer_def)
qed

lemma cache_get_reads:
  assumes "cache_ready ca key"
  shows "\<exists>w'. cache_get (se_cache env) key ca w = (look (db w) (make_key ca key), ca, w') \<and> db w' = db w \<and> row w' = row w"
proof -
  have c: "is_connected (ca_redis ca)" and k: "CHR 0x00 \<notin> set (make_key ca key)"
    using assms by (simp_all add: cache_ready_def make_key_def)
  obtain w1 where g: "on_redis (redis_get api (make_key ca key)) ca w
      = (Inr (case look (db w) (make_key ca key) of None \<Rightarrow> [] | Some v \<Rightarrow> v), ca, w1)" "db w1 = db w" "row w1 = row w"
    using get_op [OF c k] by blast
  obtain w2 where e: "on_redis (redis_exists api (make_key ca key)) ca w1
      = (Inr (if look (db w1) (make_key ca key) = None then 0 else 1), ca, w2)" "db w2 = db w1" "row w2 = row w1"
    using exists_op [OF c k] by blast
  show ?thesis
    using g e connected_ensure [OF c, of "se_cache env" w]
    by (cases "look (db w) (make_key ca key)") (auto simp: cache_get_def guarded_def Let_def split: if_splits)
qed

lemma cache_version_reads:
  assumes "cache_ready ca key"
  shows "\<exists>w'. cache_version (se_cache env) key ca w = (read_version rc (version_key ca key) (db w), ca, w')
    \<and> db w' = db w \<and> row w' = row w"
proof -
  have c: "is_connected (ca_redis ca)" and k: "CHR 0x00 \<notin> set (version_key ca key)"
    using assms by (auto simp: cache_ready_def version_key_def)
  obtain w1 where g: "on_redis (redis_get api (version_key ca key)) ca w
      = (Inr (case look (db w) (version_key ca key) of None \<Rightarrow> [] | Some v \<Rightarrow> v), ca, w1)" "db w1 = db w" "row w1 = row w"
    using get_op [OF c k] by blast
  then show ?thesis
    using connected_ensure [OF c, of "se_cache env" w] law_get [OF laws, of "version_key ca key" "db w"]
    by (cases "look (db w) (version_key ca key)") (auto simp: cache_version_def guarded_def read_version_def Let_def)
qed

lemma put_runs_script:
  assumes "cache_ready ca key"
  shows "\<exists>b w'. put_if_version (se_cache env) key v body kResourceCacheTtlSeconds ca w = (b, ca, w') \<and> row w' = row w
    \<and> db w' = snd (put_if_version_script rc (make_key ca key) (version_key ca key) v body (dec_int kResourceCacheTtlSeconds) (db w))"
proof -
  have c: "is_connected (ca_redis ca)" using assms by (simp add: cache_ready_def)
  have t: "effective_ttl ca kResourceCacheTtlSeconds = kResourceCacheTtlSeconds"
    by (simp add: effective_ttl_def kResourceCacheTtlSeconds_def)
  let ?s = "put_if_version_script rc (make_key ca key) (version_key ca key) v body (dec_int kResourceCacheTtlSeconds) (db w)"
  have "\<exists>w'. redis_command api [''EVAL'', kPutIfVersion, ''2'', make_key ca key, version_key ca key, v, body,
      dec_int kResourceCacheTtlSeconds] (ca_redis ca) w = (Some (fst ?s), ca_redis ca, w') \<and> (db w' = snd ?s \<and> row w' = row w)"
    by (rule command_runs [OF c]) (use put_runs in blast)
  then obtain w' where "redis_command api [''EVAL'', kPutIfVersion, ''2'', make_key ca key, version_key ca key, v, body,
      dec_int kResourceCacheTtlSeconds] (ca_redis ca) w = (Some (fst ?s), ca_redis ca, w')" "db w' = snd ?s" "row w' = row w"
    by blast
  then show ?thesis
    using connected_ensure [OF c, of "se_cache env" w] by (auto simp: put_if_version_def raw_command_def t Let_def)
qed

lemma invalidate_runs_script:
  assumes "cache_ready ca key"
  shows "\<exists>b w'. invalidate_versioned (se_cache env) key ca w = (b, ca, w') \<and> row w' = row w
    \<and> db w' = snd (invalidate_script rc (make_key ca key) (version_key ca key) (dec_int (version_ttl_seconds (ca_config ca))) (db w))
    \<and> (b \<longleftrightarrow> \<not> is_error (Some (fst (invalidate_script rc (make_key ca key) (version_key ca key)
          (dec_int (version_ttl_seconds (ca_config ca))) (db w)))))"
proof -
  have c: "is_connected (ca_redis ca)" using assms by (simp add: cache_ready_def)
  let ?s = "invalidate_script rc (make_key ca key) (version_key ca key) (dec_int (version_ttl_seconds (ca_config ca))) (db w)"
  let ?argv = "[''EVAL'', kInvalidateVersioned, ''2'', make_key ca key, version_key ca key, dec_int (version_ttl_seconds (ca_config ca))]"
  have "\<exists>w'. redis_command api ?argv (ca_redis ca) w = (Some (fst ?s), ca_redis ca, w') \<and> (db w' = snd ?s \<and> row w' = row w)"
    by (rule command_runs [OF c]) (use invalidate_runs in blast)
  then obtain w' where "redis_command api ?argv (ca_redis ca) w = (Some (fst ?s), ca_redis ca, w')" "db w' = snd ?s" "row w' = row w"
    by blast
  then show ?thesis
    using connected_ensure [OF c, of "se_cache env" w] by (auto simp: invalidate_versioned_def raw_command_def Let_def)
qed

subsection \<open>Whole calls\<close>

abbreviation "state ca \<equiv> cache_state rc look ca key"

lemma reader_run:
  assumes "state ca d (Some x) s" "read_version rc (version_key ca key) d = Some v"
    and "put_if_version_script rc (make_key ca key) (version_key ca key) v x (dec_int kResourceCacheTtlSeconds) d = (r, d')"
  shows "state ca d' (Some x) (s\<lparr>p_store := d'\<rparr>)"
proof -
  let ?step = "protocol_step rc look True (make_key ca key) (version_key ca key) kResourceCacheTtlSeconds
       (version_ttl_seconds (ca_config ca))"
  let ?reach = "protocol_reachable rc look True (make_key ca key) (version_key ca key) kResourceCacheTtlSeconds
       (version_ttl_seconds (ca_config ca))"
  let ?rs = "p_readers s"
  have s: "?reach s" "p_store s = d" "p_row s = Some x" using assms(1) by (simp_all add: cache_state_def)
  have "?step s (s\<lparr>p_readers := ?rs @ [Versioned v]\<rparr>)" by (rule protocol_step.Begin) (use assms(2) s in simp)
  then have 1: "?reach (s\<lparr>p_readers := ?rs @ [Versioned v]\<rparr>)" using s(1) protocol_reachable.Step by fast
  have "?step (s\<lparr>p_readers := ?rs @ [Versioned v]\<rparr>)
      (s\<lparr>p_readers := ?rs @ [Versioned v]\<rparr>\<lparr>p_readers := ?rs @ Fetched v x # []\<rparr>)"
    by (rule protocol_step.Fetch) (use s in simp_all)
  then have 2: "?reach (s\<lparr>p_readers := ?rs @ [Fetched v x]\<rparr>)" using 1 protocol_reachable.Step by fastforce
  have "?step (s\<lparr>p_readers := ?rs @ [Fetched v x]\<rparr>)
      (s\<lparr>p_readers := ?rs @ [Fetched v x]\<rparr>\<lparr>p_store := d', p_readers := ?rs @ []\<rparr>)"
    by (rule protocol_step.Put) (use s assms(3) in simp_all)
  then have "?reach (s\<lparr>p_store := d'\<rparr>)" using 2 protocol_reachable.Step by fastforce
  then show ?thesis using s by (simp add: cache_state_def)
qed

lemma writer_run:
  assumes "state ca d y s" "invalidate_script rc (make_key ca key) (version_key ca key)
      (dec_int (version_ttl_seconds (ca_config ca))) d = (r, d')"
  shows "state ca d' y' (s\<lparr>p_row := y', p_store := d', p_failed := p_failed s \<or> is_error (Some r)\<rparr>)"
proof -
  let ?step = "protocol_step rc look True (make_key ca key) (version_key ca key) kResourceCacheTtlSeconds
       (version_ttl_seconds (ca_config ca))"
  let ?reach = "protocol_reachable rc look True (make_key ca key) (version_key ca key) kResourceCacheTtlSeconds
       (version_ttl_seconds (ca_config ca))"
  have s: "?reach s" "p_store s = d" using assms(1) by (simp_all add: cache_state_def)
  have "?step s (s\<lparr>p_row := y', p_pending := Suc (p_pending s)\<rparr>)" by (rule protocol_step.Commit)
  then have 1: "?reach (s\<lparr>p_row := y', p_pending := Suc (p_pending s)\<rparr>)" using s(1) protocol_reachable.Step by fast
  have "?step (s\<lparr>p_row := y', p_pending := Suc (p_pending s)\<rparr>)
      (s\<lparr>p_row := y', p_pending := Suc (p_pending s)\<rparr>\<lparr>p_store := d', p_pending := p_pending s,
         p_failed := p_failed (s\<lparr>p_row := y', p_pending := Suc (p_pending s)\<rparr>) \<or> is_error (Some r)\<rparr>)"
    by (rule protocol_step.Invalidate) (use s assms(2) in simp_all)
  then have "?reach (s\<lparr>p_row := y', p_store := d', p_failed := p_failed s \<or> is_error (Some r)\<rparr>)"
    using 1 protocol_reachable.Step by fastforce
  then show ?thesis by (simp add: cache_state_def)
qed

text \<open>A get behind a miss: no row and no entry, a row that no version guards, or a row that is put under its version.\<close>

lemma get_miss_run:
  assumes ready: "cache_ready ca key" and st: "state ca (db w) (row w) s"
    and c: "cache_get (se_cache env) key ca w = (None, ca, w1)" "db w1 = db w" "row w1 = row w"
    and g: "service_get env client_id rid ca w = (r, ca', w')"
  shows "ca' = ca \<and> row w' = row w
    \<and> (\<exists>s'. state ca (db w') (row w') s' \<and> p_pending s' = p_pending s \<and> p_failed s' = p_failed s)
    \<and> (case row w of None \<Rightarrow> r = Inl (not_found rid)
       | Some body \<Rightarrow> \<exists>x. r = Inr x \<and> json_dump (se_json env) (resource_to_json x) = Inr body)"
proof -
  obtain w2 where v: "cache_version (se_cache env) key ca w1 = (read_version rc (version_key ca key) (db w1), ca, w2)"
      "db w2 = db w1" "row w2 = row w1"
    using cache_version_reads [OF ready] by blast
  obtain fr w3 where f: "repo_find_by_id (se_pg env) (se_json env) client_id rid w2 = (fr, w3)" by (rule prod.exhaust)
  obtain o' where o': "fr = Inr o'" using available [of w2] f by auto
  note fi = finds [OF f [unfolded o']]
  show ?thesis
  proof (cases o')
    case N: None
    then have "r = Inl (not_found rid)" "ca' = ca" "w' = w3" using g c v f o' by (simp_all add: service_get_def)
    then show ?thesis using fi N c v st by auto
  next
    case (Some x)
    then obtain body where t: "row w2 = Some body" "json_dump (se_json env) (resource_to_json x) = Inr body" using fi by auto
    show ?thesis
    proof (cases "read_version rc (version_key ca key) (db w1)")
      case N: None
      then have "r = Inr x" "ca' = ca" "w' = w3" using g c v f o' Some by (simp_all add: service_get_def)
      then show ?thesis using fi t c v st by auto
    next
      case V: (Some ver)
      obtain b w4 where p: "put_if_version (se_cache env) key ver body kResourceCacheTtlSeconds ca w3 = (b, ca, w4)" "row w4 = row w3"
          "db w4 = snd (put_if_version_script rc (make_key ca key) (version_key ca key) ver body (dec_int kResourceCacheTtlSeconds) (db w3))"
        using put_runs_script [OF ready] by blast
      have e: "r = Inr x" "ca' = ca" "w' = w4" using g c v f o' Some V t p by (simp_all add: service_get_def)
      have y: "row w = Some body" "db w3 = db w" using t c v fi by simp_all
      obtain pr where "put_if_version_script rc (make_key ca key) (version_key ca key) ver body (dec_int kResourceCacheTtlSeconds) (db w)
          = (pr, db w4)" using p(3) y(2) by (metis prod.collapse)
      from reader_run [OF st [unfolded y(1)] _ this] V c(2) have "state ca (db w4) (Some body) (s\<lparr>p_store := db w4\<rparr>)" by simp
      then show ?thesis using e y t p(2) fi c v by auto
    qed
  qed
qed

lemma get_run:
  assumes ready: "cache_ready ca key" and st: "state ca (db w) (row w) s"
    and g: "service_get env client_id rid ca w = (r, ca', w')"
  shows "ca' = ca \<and> row w' = row w
    \<and> (\<exists>s'. state ca (db w') (row w') s' \<and> p_pending s' = p_pending s \<and> p_failed s' = p_failed s)
    \<and> (p_pending s = 0 \<and> \<not> p_failed s \<longrightarrow>
        (case row w of None \<Rightarrow> r = Inl (not_found rid)
         | Some body \<Rightarrow> \<exists>x. r = Inr x \<and> json_dump (se_json env) (resource_to_json x) = Inr body))"
proof -
  obtain w1 where c: "cache_get (se_cache env) key ca w = (look (db w) (make_key ca key), ca, w1)" "db w1 = db w" "row w1 = row w"
    using cache_get_reads [OF ready] by blast
  have cached: "p_pending s = 0 \<Longrightarrow> \<not> p_failed s \<Longrightarrow> look (db w) (make_key ca key) = None \<or> look (db w) (make_key ca key) = row w"
    using cache_state_cached [OF st laws] ready by (simp add: cache_ready_def)
  show ?thesis
  proof (cases "look (db w) (make_key ca key)")
    case (Some body)
    have r: "r = sum_bind (json_parse (se_json env) body) resource_from_json" "ca' = ca" "w' = w1"
      using g c Some by (simp_all add: service_get_def)
    have "\<exists>x. r = Inr x \<and> json_dump (se_json env) (resource_to_json x) = Inr body" if y: "row w = Some body"
    proof -
      obtain fr fw where f: "repo_find_by_id (se_pg env) (se_json env) client_id rid w = (fr, fw)" by (rule prod.exhaust)
      obtain o' where "fr = Inr o'" using available [of w] f by auto
      then obtain x where "fr = Inr (Some x)" using finds [OF f] y by (cases o') auto
      then show ?thesis using finds [OF f] y r(1) by (auto simp: resource_round_trip)
    qed
    then show ?thesis using cached Some r(2,3) c st by (auto split: option.split)
  next
    case None
    show ?thesis using get_miss_run [OF ready st c(1) [unfolded None] c(2,3) g] by (auto split: option.splits)
  qed
qed

lemma invalidation_succeeds:
  assumes ready: "cache_ready ca key" and n: "version_is look (version_key ca key) d n" "int n < 2 ^ 63 - 1"
  shows "\<not> is_error (Some (fst (invalidate_script rc (make_key ca key) (version_key ca key)
    (dec_int (version_ttl_seconds (ca_config ca))) d)))"
proof -
  let ?v = "version_key ca key"
  have "\<exists>m d1. rc [''INCR'', ?v] d = (RInteger m, d1)"
  proof (cases "n = 0")
    case True
    then have "look d ?v = None" using n(1) by (simp add: version_is_def)
    then show ?thesis using law_incr_new [OF laws] by blast
  next
    case False
    then have "look d ?v = Some (dec_int (int n))" using n(1) by (simp add: version_is_def)
    then show ?thesis using law_incr [OF laws] n(2) by fastforce
  qed
  then obtain m d1 where i: "rc [''INCR'', ?v] d = (RInteger m, d1)" by blast
  obtain m2 d2 where e: "rc [''EXPIRE'', ?v, dec_int (version_ttl_seconds (ca_config ca))] d1 = (RInteger m2, d2)"
    using law_expire [OF laws] ready unfolding cache_ready_def by blast
  obtain m3 d3 where "rc [''DEL'', make_key ca key] d2 = (RInteger m3, d3)" using law_del [OF laws] by blast
  with i e show ?thesis by (simp add: invalidate_script_def is_error_def)
qed

text \<open>A write that changed the row invalidates; one that did not leaves everything.\<close>

definition write_run :: "cache_aside \<Rightarrow> 'd protocol \<Rightarrow> cache_aside \<Rightarrow> 'w \<Rightarrow> bool" where
  "write_run ca s ca' w' \<longleftrightarrow> ca' = ca
     \<and> (\<exists>s'. state ca (db w') (row w') s' \<and> p_pending s' = p_pending s \<and> p_failed s' = p_failed s)"

lemma invalidating_run:
  assumes ready: "cache_ready ca key" and st: "state ca (db w) (row w) s" and d: "db w1 = db w"
    and n: "version_is look (version_key ca key) (db w) n" "int n < 2 ^ 63 - 1"
    and i: "invalidate_versioned (se_cache env) key ca w1 = (b, ca', w')"
  shows "write_run ca s ca' w'"
proof -
  let ?s = "invalidate_script rc (make_key ca key) (version_key ca key) (dec_int (version_ttl_seconds (ca_config ca))) (db w)"
  obtain b2 w2 where "invalidate_versioned (se_cache env) key ca w1 = (b2, ca, w2)" "row w2 = row w1" "db w2 = snd ?s"
    using invalidate_runs_script [OF ready, of w1] d by metis
  then have e: "ca' = ca" "row w' = row w1" "?s = (fst ?s, db w')" using i by simp_all
  from writer_run [OF st e(3), of "row w'"] invalidation_succeeds [OF ready n]
  show ?thesis unfolding write_run_def using e(1) by fastforce
qed

lemma update_run:
  assumes "cache_ready ca key" "state ca (db w) (row w) s"
    and "version_is look (version_key ca key) (db w) n" "int n < 2 ^ 63 - 1"
    and u: "service_update env client_id rid req ca w = (r, ca', w')"
  shows "write_run ca s ca' w'"
proof -
  obtain ur w1 where p: "repo_update (se_pg env) (se_json env) client_id rid req w = (ur, w1)" by (rule prod.exhaust)
  note up = updates [OF p]
  show ?thesis
  proof (cases "\<exists>x. ur = Inr (Some x)")
    case True
    then obtain b ca1 w2 where "invalidate_versioned (se_cache env) key ca w1 = (b, ca1, w2)" "ca' = ca1" "w' = w2"
      using u p by (auto simp: service_update_def split: prod.splits)
    then show ?thesis using invalidating_run [OF assms(1,2) conjunct1 [OF up] assms(3,4)] by blast
  next
    case False
    then have "ca' = ca" "w' = w1" using u p by (auto simp: service_update_def split: sum.splits option.splits exn.splits)
    then show ?thesis using up False assms(2) by (auto simp: write_run_def)
  qed
qed

lemma remove_run:
  assumes "cache_ready ca key" "state ca (db w) (row w) s"
    and "version_is look (version_key ca key) (db w) n" "int n < 2 ^ 63 - 1"
    and u: "service_remove env client_id rid ca w = (r, ca', w')"
  shows "write_run ca s ca' w'"
proof -
  obtain rr w1 where p: "repo_remove (se_pg env) client_id rid w = (rr, w1)" by (rule prod.exhaust)
  note up = removes [OF p]
  show ?thesis
  proof (cases "rr = Inr True")
    case True
    then obtain b ca1 w2 where "invalidate_versioned (se_cache env) key ca w1 = (b, ca1, w2)" "ca' = ca1" "w' = w2"
      using u p by (auto simp: service_remove_def split: prod.splits)
    then show ?thesis using invalidating_run [OF assms(1,2) conjunct1 [OF up] assms(3,4)] by blast
  next
    case False
    then have "ca' = ca" "w' = w1" using u p by (auto simp: service_remove_def split: sum.splits bool.splits if_splits)
    then show ?thesis using up False assms(2) by (auto simp: write_run_def)
  qed
qed

text \<open>Reads without a write under way, and reads after one's own write.\<close>

lemma fresh_get:
  assumes "cache_ready ca key" "state ca (db w) (row w) s" "p_pending s = 0" "\<not> p_failed s"
  shows "is_current env rid (row w) (fst (service_get env client_id rid ca w))"
proof -
  obtain r ca' w' where g: "service_get env client_id rid ca w = (r, ca', w')" by (rule prod_cases3)
  have "is_current env rid (row w) r"
    unfolding is_current_def using get_run [OF assms(1,2) g] assms(3,4) by blast
  then show ?thesis unfolding g fst_conv .
qed

lemma fresh_after:
  assumes "cache_ready ca key" "write_run ca s ca1 w1" "p_pending s = 0" "\<not> p_failed s"
  shows "is_current env rid (row w1) (fst (service_get env client_id rid ca1 w1))"
proof -
  obtain t where "ca1 = ca" "state ca (db w1) (row w1) t" "p_pending t = 0" "\<not> p_failed t"
    using assms(2-4) unfolding write_run_def by force
  then show ?thesis using fresh_get [OF assms(1)] by blast
qed

end

section \<open>A platform that keeps the promises\<close>

text \<open>
  Redis of \<open>CacheProtocol\<close> beside a table of at most one row, whose name an update sets to \<open>new\<close>, and what the open
  transaction will make of the row; the stored text is the letter r and the name.
\<close>

type_synonym small_world = "(string \<rightharpoonup> string) \<times> string option \<times> string option option"

definition named_row :: "string \<Rightarrow> resource" where
  "named_row n = cached_row\<lparr>rs_name := n\<rparr>"

definition small_json :: json_lib where
  "small_json = \<lparr>json_parse = (\<lambda>t. case t of c # n \<Rightarrow> if c = CHR ''r'' then Inr (resource_to_json (named_row n)) else Inr (JsObject [])
                  | [] \<Rightarrow> Inr (JsObject [])),
     json_dump = (\<lambda>j. case j of JsObject ms \<Rightarrow> (case map_of ms ''name'' of Some (JsString n) \<Rightarrow> Inr (CHR ''r'' # n) | _ \<Rightarrow> Inr ''{}'')
                  | _ \<Rightarrow> Inr ''{}'')\<rparr>"

definition small_rows :: "string option \<Rightarrow> pg_row list" where
  "small_rows y = (case y of None \<Rightarrow> [] | Some n \<Rightarrow> [demo_row (named_row n)])"

definition small_pg :: "(unit, small_world) pg_client" where
  "small_pg = \<lparr>pg_acquire = (\<lambda>w. (Inr (), w)), pg_begin = (\<lambda>_ (d, y, _). (Inr (), (d, y, None))),
     pg_exec_params = (\<lambda>_ sql _ (d, y, u). if sql = remove_sql
        then (Inr (small_rows y), (d, y, if y = None then u else Some None)) else (Inr (small_rows y), (d, y, u))),
     pg_exec = (\<lambda>_ _ (d, y, u). if y = None then (Inr [], (d, y, u))
        else (Inr (small_rows (Some ''new'')), (d, y, Some (Some ''new'')))),
     pg_quote = (\<lambda>_. id), pg_commit = (\<lambda>_ (d, y, u). (Inr (), (d, case u of None \<Rightarrow> y | Some y' \<Rightarrow> y', None))),
     pg_end = (\<lambda>_ w. w), pg_release = (\<lambda>_ w. w)\<rparr>"

definition small_redis :: "small_world hiredis" where
  "small_redis = \<lparr>hi_connect = (\<lambda>_ _ _ w. (Some open_context, w)), hi_set_timeout = (\<lambda>x _ w. (x, w)),
     hi_command = (\<lambda>x argv (d, y). case argv of
         [e, s, n, key, vkey, v, val, ttl] \<Rightarrow>
           (case put_if_version_script demo_call key vkey v val ttl d of (r, d') \<Rightarrow> (Some r, x, (d', y)))
       | [e, s, n, key, vkey, ttl] \<Rightarrow> (case invalidate_script demo_call key vkey ttl d of (r, d') \<Rightarrow> (Some r, x, (d', y)))
       | [c, k] \<Rightarrow> if c = ''EXISTS'' then (Some (RInteger (if d k = None then 0 else 1)), x, (d, y))
                  else (case demo_call argv d of (r, d') \<Rightarrow> (Some r, x, (d', y)))
       | _ \<Rightarrow> (case demo_call argv d of (r, d') \<Rightarrow> (Some r, x, (d', y)))),
     hi_free = (\<lambda>_ w. w)\<rparr>"

definition small_service :: "(unit, small_world) service_env" where
  "small_service = \<lparr>se_pg = small_pg, se_json = small_json, se_cache = \<lparr>ce_redis = small_redis, ce_now = (\<lambda>_. 0)\<rparr>\<rparr>"

definition small_text :: "small_world \<Rightarrow> string option" where
  "small_text w = map_option (\<lambda>n. CHR ''r'' # n) (fst (snd w))"

definition small_pending :: "small_world \<Rightarrow> bool" where
  "small_pending w \<longleftrightarrow> snd (snd w) \<noteq> None"

lemma small_row_parses: "row_to_resource small_json (demo_row (named_row n)) = Inr (named_row n)"
  by (simp add: row_to_resource_def column_def small_json_def demo_row_def named_row_def cached_row_def)

lemma small_json_round_trip:
  "json_dump small_json (resource_to_json (named_row n)) = Inr (CHR ''r'' # n)"
  "json_parse small_json (CHR ''r'' # n) = Inr (resource_to_json (named_row n))"
  by (simp_all add: small_json_def resource_to_json_def named_row_def)

lemma find_is_not_remove: "find_sql \<noteq> remove_sql"
  by (simp add: find_sql_def remove_sql_def)

interpretation small: row_database small_service demo_call id fst small_text small_pending "''c''" "''1''"
proof
  show "server_laws demo_call id" by (rule demo_laws)
  show "\<exists>rows w'. pg_exec_params (se_pg small_service) c find_sql [''c'', ''1''] w = (Inr rows, w')
      \<and> fst w' = fst w \<and> small_text w' = small_text w \<and> small_pending w' = small_pending w
      \<and> (rows = [] \<and> small_text w = None
        \<or> (\<exists>x body. rows \<noteq> [] \<and> row_to_resource (se_json small_service) (first_row rows) = Inr x \<and> small_text w = Some body
             \<and> json_dump (se_json small_service) (resource_to_json x) = Inr body
             \<and> json_parse (se_json small_service) body = Inr (resource_to_json x)))" for c w
    using find_is_not_remove
    by (cases w; cases "fst (snd w)")
      (auto simp: small_service_def small_pg_def small_text_def small_rows_def first_row_def small_row_parses small_json_round_trip)
qed (auto simp: small_service_def small_redis_def small_pg_def small_text_def small_pending_def small_rows_def demo_call_def
      first_row_def small_row_parses split: prod.splits option.splits if_splits)

definition small_cache :: cache_aside where
  "small_cache = new_cache_aside \<lparr>ctx = Some open_context, rd_config = default_redis_config\<rparr> default_cache_config"

definition small_start :: "string option \<Rightarrow> (string \<rightharpoonup> string) protocol" where
  "small_start y = \<lparr>p_store = Map.empty, p_row = y, p_readers = [], p_pending = 0, p_failed = False\<rparr>"

lemma small_ready: "cache_ready small_cache (cache_key ''c'' ''1'')"
  by (simp add: cache_ready_def small_cache_def new_cache_aside_def is_connected_def open_context_def cache_key_def default_cache_config_def)

lemma small_state:
  "cache_state demo_call id small_cache (cache_key ''c'' ''1'') (fst (Map.empty, y, u)) (small_text (Map.empty, y, u)) (small_start (small_text (Map.empty, y, u)))"
  by (auto simp: cache_state_def small_start_def intro: protocol_reachable.Start)

lemma small_version: "version_is id (version_key small_cache (cache_key ''c'' ''1'')) (fst (Map.empty, y, u)) 0"
  by (simp add: version_is_def)

section \<open>Properties\<close>





end
