(* ===== verification/PoolWaiting.thy ===== *)
theory PoolWaiting
  imports PgPool
begin

text \<open>
  The threads that wait in \<open>acquire\<close> of \<open>src/db/pg_pool.cpp\<close>: who sleeps on the condition variable, who has been woken by
  \<open>notify_one\<close> and has not yet taken the mutex again, and how this goes with the pool. It refines the
  concurrent use of \<open>PgPool\<close>, adds progress of the waiting threads, and shows the two ways in which the code loses a wake-up.
\<close>

section \<open>States and steps\<close>

text \<open>The pool, the connections that are handed out, the world, the threads that sleep and those that are woken.\<close>

type_synonym 'w wait_state = "pg_pool \<times> nat list \<times> 'w \<times> nat \<times> nat"

text \<open>What the iterations of the loop make of a state.\<close>

fun looped :: "acquired \<times> pg_pool \<times> 'w \<Rightarrow> nat list \<Rightarrow> nat \<Rightarrow> nat \<Rightarrow> 'w wait_state" where
  "looped (Acquired c, p, w) out asleep woken = (p, c # out, w, asleep, woken)"
| "looped (Failed e, p, w) out asleep woken = (p, out, w, asleep, woken)"
| "looped (MustWait, p, w) out asleep woken = (p, out, w, Suc asleep, woken)"

text \<open>
  A thread enters \<open>acquire\<close>, or goes on after a wake-up; a connection comes back and wakes one thread; a sleeping thread times out,
  or wakes up for no reason. With \<open>late\<close>, a woken thread may find its deadline passed: \<open>wait_until\<close> reports a
  timeout and the thread throws.
\<close>

inductive wait_step :: "'w pg_driver \<Rightarrow> ('w \<Rightarrow> nat set) \<Rightarrow> bool \<Rightarrow> 'w wait_state \<Rightarrow> 'w wait_state \<Rightarrow> bool"
  for drv used late where
    Enter: "wait_step drv used late (p, out, w, a, k) (looped (acquire_loop drv p w) out a k)"
  | Resume: "wait_step drv used late (p, out, w, a, Suc k) (looped (acquire_loop drv p w) out a k)"
  | Give: "wait_step drv used late (p, xs @ c # ys, w, a, k)
      (return_connection drv (Some c) p w, xs @ ys, w, a - 1, if a = 0 then k else Suc k)"
  | Timeout: "wait_step drv used late (p, out, w, Suc a, k) (p, out, w, a, k)"
  | Spurious: "wait_step drv used late (p, out, w, Suc a, k) (p, out, w, a, Suc k)"
  | Late: "late \<Longrightarrow> wait_step drv used late (p, out, w, a, Suc k) (p, out, w, a, k)"
  | Elsewhere: "used w \<subseteq> used w' \<Longrightarrow> wait_step drv used late (p, out, w, a, k) (p, out, w', a, k)"

inductive wait_reachable :: "'w pg_driver \<Rightarrow> ('w \<Rightarrow> nat set) \<Rightarrow> bool \<Rightarrow> pool_config \<Rightarrow> 'w wait_state \<Rightarrow> bool"
  for drv used late cfg where
    Start: "new_pg_pool drv cfg w0 = (Inr p, w) \<Longrightarrow> wait_reachable drv used late cfg (p, [], w, 0, 0)"
  | Step: "wait_reachable drv used late cfg s \<Longrightarrow> wait_step drv used late s s' \<Longrightarrow> wait_reachable drv used late cfg s'"

lemma Give_only:
  "wait_step drv used late (p, [c], w, a, k) (return_connection drv (Some c) p w, [], w, a - 1, if a = 0 then k else Suc k)"
  using wait_step.Give [of drv used late p "[]" c "[]" w a k] by simp

section \<open>It refines the use of the pool\<close>

text \<open>Forgetting the threads.\<close>

definition pool_of :: "'w wait_state \<Rightarrow> 'w pool_state" where
  "pool_of s = (case s of (p, out, w, a, k) \<Rightarrow> (p, out, w))"

lemma pool_of_simp [simp]: "pool_of (p, out, w, a, k) = (p, out, w)"
  by (simp add: pool_of_def)

lemma looped_step: "pool_step drv used (p, out, w) (pool_of (looped (acquire_loop drv p w) out a k))"
proof -
  obtain r p' w' where l: "acquire_loop drv p w = (r, p', w')" by (rule prod_cases3)
  then show ?thesis
    using pool_step.Take [of drv p w _ p' w' used out] pool_step.Refuse [OF l, of used out] by (cases r) auto
qed

lemma wait_step_refines: "wait_step drv used late s s' \<Longrightarrow> pool_step drv used (pool_of s) (pool_of s')"
  by (induction rule: wait_step.induct) (auto intro: looped_step pool_step.intros)

lemma wait_reachable_refines: "wait_reachable drv used late cfg s \<Longrightarrow> pool_reachable drv used cfg (pool_of s)"
  by (induction rule: wait_reachable.induct)
    (auto intro: pool_reachable.Start pool_reachable.Step wait_step_refines)

section \<open>Free places\<close>

text \<open>How many calls of \<open>acquire\<close> could be served now.\<close>

definition free_places :: "pg_pool \<Rightarrow> nat" where
  "free_places p = length (pp_idle p) + (unat (max_connections (pp_config p)) - unat (pp_total p))"

definition opens_always :: "'w pg_driver \<Rightarrow> bool" where
  "opens_always drv \<longleftrightarrow> (\<forall>s w. isl (fst (pd_open drv s w)) = False)"

lemma opens_always_make:
  assumes "opens_always drv"
  obtains c w' where "make_connection drv p w = (Inr c, w')"
proof -
  obtain r w' where o': "pd_open drv (connection_string (pp_config p)) w = (r, w')" by (rule prod.exhaust)
  moreover have "\<not> isl r" using assms o' unfolding opens_always_def by (metis fst_conv)
  ultimately show ?thesis using that by (cases r) (auto simp: make_connection_def)
qed

lemma loop_serves:
  assumes "opens_always drv" "pool_inv used cfg (p, out, w)"
  shows "(\<exists>c p' w'. acquire_loop drv p w = (Acquired c, p', w') \<and> free_places p = Suc (free_places p'))
    \<or> (acquire_loop drv p w = (MustWait, p, w) \<and> free_places p = 0)"
proof (cases "pp_idle p")
  case (Cons h rest)
  obtain c w' where "make_connection drv (p\<lparr>pp_idle := rest\<rparr>) w = (Inr c, w')" by (rule opens_always_make [OF assms(1)])
  then show ?thesis
    using Cons by (cases "pd_is_open drv h w") (auto simp: acquire_loop.simps [of _ p] Let_def free_places_def)
next
  case Nil
  obtain c w' where m: "make_connection drv p w = (Inr c, w')" by (rule opens_always_make [OF assms(1)])
  show ?thesis
  proof (cases "pp_total p < max_connections (pp_config p)")
    case True
    then have "unat (pp_total p + 1) = Suc (unat (pp_total p))" "unat (pp_total p) < unat (max_connections (pp_config p))"
      using word_suc by (auto simp: word_less_nat_alt)
    then show ?thesis using Nil m True by (auto simp: acquire_loop.simps [of _ p] free_places_def)
  next
    case False
    then show ?thesis using Nil by (auto simp: acquire_loop.simps [of _ p] free_places_def word_less_nat_alt)
  qed
qed

lemma return_frees:
  assumes "pool_inv used cfg (p, xs @ c # ys, w)"
  shows "free_places (return_connection drv (Some c) p w) = Suc (free_places p)"
proof -
  have pos: "0 < unat (pp_total p)" and le: "unat (pp_total p) \<le> unat (max_connections (pp_config p))"
    using assms by (auto simp: word_le_nat_alt)
  from word_pred [OF pos] have "unat (pp_total p - 1) = unat (pp_total p) - 1" by simp
  then show ?thesis using pos le by (auto simp: return_connection_def free_places_def)
qed

section \<open>No wake-up is lost\<close>

text \<open>While a thread sleeps, every free place has a woken thread to take it.\<close>

fun places_claimed :: "'w wait_state \<Rightarrow> bool" where
  "places_claimed (p, out, w, a, k) \<longleftrightarrow> a = 0 \<or> free_places p \<le> k"

lemma claimed_step:
  assumes "wait_step drv used False s s'" "opens_always drv" "pool_inv used cfg (pool_of s)" "places_claimed s"
  shows "places_claimed s'"
  using assms
proof (induction rule: wait_step.induct)
  case (Enter p out w a k)
  then show ?case using loop_serves [OF Enter(1), of used cfg p out w] by auto
next
  case (Resume p out w a k)
  then show ?case using loop_serves [OF Resume(1), of used cfg p out w] by auto
next
  case (Give p xs c ys w a k)
  then show ?case using return_frees [of used cfg p xs c ys w drv] by auto
qed auto

lemma reachable_claimed:
  assumes "wait_reachable drv used False cfg s" "opens_always drv" "fresh_handles drv used"
  shows "places_claimed s"
  using assms(1)
proof (induction rule: wait_reachable.induct)
  case (Step s s')
  from reachable_pool_inv [OF wait_reachable_refines [OF Step(1)] assms(3)]
  show ?case using claimed_step [OF Step(2) assms(2)] Step(3) by blast
qed simp

text \<open>One more thread than places: all sleep while the only connection is out.\<close>

definition tiny_pool :: pool_config where
  "tiny_pool = \<lparr>connection_string = ''host=db'', min_connections = 1, max_connections = 1, acquire_timeout_ms = 5000\<rparr>"

definition tiny :: "nat list \<Rightarrow> pg_pool" where
  "tiny idle = \<lparr>pp_config = tiny_pool, pp_idle = idle, pp_total = 1\<rparr>"

lemma tiny_loop:
  "acquire_loop counting_driver (tiny []) n = (MustWait, tiny [], n)"
  "acquire_loop counting_driver (tiny [0]) n = (Acquired 0, tiny [], n)"
  by (simp_all add: acquire_loop.simps tiny_def tiny_pool_def counting_driver_def)

lemma tiny_waits: "wait_reachable counting_driver (\<lambda>w. {..<w}) late tiny_pool (tiny [], [0], 1, 2, 0)"
proof -
  let ?reach = "wait_reachable counting_driver (\<lambda>w. {..<w}) late tiny_pool"
  have "new_pg_pool counting_driver tiny_pool 0 = (Inr (tiny [0]), 1)"
    by (simp add: new_pg_pool_def tiny_pool_def tiny_def make_connection_def counting_driver_def)
  then have "?reach (tiny [0], [], 1, 0, 0)" by (rule wait_reachable.Start)
  from wait_reachable.Step [OF this wait_step.Enter] have "?reach (tiny [], [0], 1, 0, 0)" by (simp add: tiny_loop)
  from wait_reachable.Step [OF this wait_step.Enter] have "?reach (tiny [], [0], 1, 1, 0)" by (simp add: tiny_loop)
  from wait_reachable.Step [OF this wait_step.Enter] show ?thesis by (simp add: tiny_loop numeral_2_eq_2)
qed

lemma counting_opens: "opens_always counting_driver"
  by (simp add: opens_always_def counting_driver_def)

text \<open>Connections break, and the database goes down.\<close>

definition failing_driver :: "(nat \<times> bool) pg_driver" where
  "failing_driver = \<lparr>pd_open = (\<lambda>_ (n, up). if up then (Inr n, (Suc n, up)) else (Inl (StdError ''down''), (n, up))),
     pd_is_open = (\<lambda>_ (n, up). up)\<rparr>"

section \<open>Properties\<close>



text \<open>
  C39. Wake-ups that are lost. A thread that \<open>notify_one\<close> has woken after its deadline throws without looking at the queue, and so another
  thread may sleep beside an idle connection with nobody woken; and a woken thread whose attempt to open a connection fails
  leaves a free place with a thread asleep and nobody woken.
\<close>

theorem lost_wakeups:
  "wait_reachable counting_driver (\<lambda>w. {..<w}) True tiny_pool (tiny [0], [], 1, 1, 0)
   \<and> wait_reachable failing_driver (\<lambda>(n, up). {..<n}) False tiny_pool
       (\<lparr>pp_config = tiny_pool, pp_idle = [], pp_total = 0\<rparr>, [], (1, False), 1, 0)"
proof
  let ?reach = "wait_reachable counting_driver (\<lambda>w. {..<w}) True tiny_pool"
  from wait_reachable.Step [OF tiny_waits Give_only]
  have "?reach (tiny [0], [], 1, 1, Suc 0)"
    by (simp add: return_connection_def counting_driver_def tiny_def)
  from wait_reachable.Step [OF this wait_step.Late] show "?reach (tiny [0], [], 1, 1, 0)" by simp
next
  let ?reach = "wait_reachable failing_driver (\<lambda>(n, up). {..<n}) False tiny_pool"
  have loop: "acquire_loop failing_driver (tiny []) (n, True) = (MustWait, tiny [], (n, True))"
    "acquire_loop failing_driver (tiny [0]) (n, True) = (Acquired 0, tiny [], (n, True))" for n
    by (simp_all add: acquire_loop.simps tiny_def tiny_pool_def failing_driver_def)
  have "new_pg_pool failing_driver tiny_pool (0, True) = (Inr (tiny [0]), (1, True))"
    by (simp add: new_pg_pool_def tiny_pool_def tiny_def make_connection_def failing_driver_def)
  then have "?reach (tiny [0], [], (1, True), 0, 0)" by (rule wait_reachable.Start)
  from wait_reachable.Step [OF this wait_step.Enter] have "?reach (tiny [], [0], (1, True), 0, 0)" by (simp add: loop)
  from wait_reachable.Step [OF this wait_step.Enter] have "?reach (tiny [], [0], (1, True), 1, 0)" by (simp add: loop)
  from wait_reachable.Step [OF this wait_step.Enter] have "?reach (tiny [], [0], (1, True), 2, 0)" by (simp add: loop numeral_2_eq_2)
  then have "?reach (tiny [], [0], (1, False), 2, 0)" by (rule wait_reachable.Step) (rule wait_step.Elsewhere; simp)
  from wait_reachable.Step [OF this Give_only]
  have "?reach (\<lparr>pp_config = tiny_pool, pp_idle = [], pp_total = 0\<rparr>, [], (1, False), 1, Suc 0)"
    by (simp add: return_connection_def failing_driver_def tiny_def)
  from wait_reachable.Step [OF this wait_step.Resume]
  show "?reach (\<lparr>pp_config = tiny_pool, pp_idle = [], pp_total = 0\<rparr>, [], (1, False), 1, 0)"
    by (simp add: acquire_loop.simps failing_driver_def make_connection_def tiny_pool_def)
qed

end
