(* ===== verification/KeyProtocol.thy ===== *)
theory KeyProtocol
  imports ApiKey CacheAside
begin

text \<open>
  How long a revoked API key is still accepted: the gateways that check one key (\<open>validate\<close>, \<open>from_cache\<close> and
  \<open>store_in_cache\<close> of \<open>src/auth/api_key_validator.cpp\<close>), interleaved at every command, over the row in PostgreSQL and the
  cached hash in Redis with its lifetime. Redis is the parameter \<open>rc\<close> with what its documentation promises of the
  three commands, \<open>key_laws\<close>, over the hashes that \<open>entry\<close> shows; \<open>clock\<close> is its clock in milliseconds.
\<close>

section \<open>What is assumed of the server\<close>

type_synonym hash_entry = "(string \<times> string) list \<times> int option"

definition key_laws :: "'d redis_call \<Rightarrow> ('d \<Rightarrow> string \<Rightarrow> hash_entry option) \<Rightarrow> ('d \<Rightarrow> int) \<Rightarrow> bool" where
  "key_laws rc entry clock \<longleftrightarrow>
     (\<forall>d k. rc [''HGETALL'', k] d = (RArray (concat (map (\<lambda>(f, v). [RString f, RString v])
        (case entry d k of None \<Rightarrow> [] | Some (kvs, _) \<Rightarrow> kvs))), d))
   \<and> (\<forall>d k kvs. kvs \<noteq> [] \<and> distinct (map fst kvs) \<longrightarrow>
        (\<exists>m. rc (''HMSET'' # k # concat (map (\<lambda>(f, v). [f, v]) kvs)) d = (RError m, d))
        \<or> (\<exists>d' now_held. rc (''HMSET'' # k # concat (map (\<lambda>(f, v). [f, v]) kvs)) d = (RStatus ''OK'', d')
             \<and> clock d' = clock d
             \<and> entry d' = (entry d)(k \<mapsto> (now_held, case entry d k of None \<Rightarrow> None | Some (_, deadline) \<Rightarrow> deadline))
             \<and> map_of now_held = (case entry d k of None \<Rightarrow> Map.empty | Some (held, _) \<Rightarrow> map_of held) ++ map_of kvs))
   \<and> (\<forall>d k t. 0 < t \<and> t < 2 ^ 31 \<longrightarrow> (\<exists>r d'. rc [''EXPIRE'', k, dec_int t] d = (RInteger r, d') \<and> clock d' = clock d
        \<and> entry d' = (entry d)(k := map_option (\<lambda>(kvs, _). (kvs, Some (clock d + 1000 * t))) (entry d k))))"

section \<open>States and steps\<close>

text \<open>The fields that \<open>store_in_cache\<close> writes.\<close>

definition record_fields :: "api_key_record \<Rightarrow> (string \<times> string) list" where
  "record_fields r = [(''client_id'', kr_client_id r), (''scopes'', kr_scopes r), (kSourceField, kSourcePostgres)]"

definition hmset_argv :: "string \<Rightarrow> api_key_record \<Rightarrow> string list" where
  "hmset_argv key r = ''HMSET'' # key # concat (map (\<lambda>(f, v). [f, v]) (record_fields r))"

text \<open>A request that has looked the key up, and one that has also written the fields.\<close>

datatype writer = Looked api_key_record | Written api_key_record

text \<open>
  Redis, the record that PostgreSQL would return for the key (\<open>None\<close> when it is revoked, past its expiry or
  unknown), the requests between lookup and \<open>EXPIRE\<close>, whether one of them stopped between its two commands, and when the last
  one set the lifetime.
\<close>

record 'd key_protocol =
  kp_store :: 'd
  kp_row :: "api_key_record option"
  kp_writers :: "writer list"
  kp_failed :: bool
  kp_last :: int

inductive key_step ::
  "'d redis_call \<Rightarrow> ('d \<Rightarrow> string \<Rightarrow> hash_entry option) \<Rightarrow> ('d \<Rightarrow> int) \<Rightarrow> string \<Rightarrow> 'd key_protocol \<Rightarrow> 'd key_protocol \<Rightarrow> bool"
  for rc entry clock key where
    Change: "key_step rc entry clock key s (s\<lparr>kp_row := y\<rparr>)"
  | Look_up: "kp_row s = Some r \<Longrightarrow> key_step rc entry clock key s (s\<lparr>kp_writers := kp_writers s @ [Looked r]\<rparr>)"
  | Write: "kp_writers s = xs @ Looked r # ys \<Longrightarrow> rc (hmset_argv key r) (kp_store s) = (x, d') \<Longrightarrow> \<not> is_error (Some x) \<Longrightarrow>
      key_step rc entry clock key s (s\<lparr>kp_store := d', kp_writers := xs @ Written r # ys\<rparr>)"
  | Bound: "kp_writers s = xs @ Written r # ys \<Longrightarrow>
      rc [''EXPIRE'', key, dec_int (cache_ttl_for r now)] (kp_store s) = (x, d') \<Longrightarrow>
      key_step rc entry clock key s (s\<lparr>kp_store := d', kp_writers := xs @ ys, kp_last := clock d'\<rparr>)"
  | Give_up: "kp_writers s = xs @ Looked r # ys \<Longrightarrow> key_step rc entry clock key s (s\<lparr>kp_writers := xs @ ys\<rparr>)"
  | Break_off: "kp_writers s = xs @ Written r # ys \<Longrightarrow>
      key_step rc entry clock key s (s\<lparr>kp_writers := xs @ ys, kp_failed := True\<rparr>)"
  | Lose_reply: "kp_writers s = xs @ Looked r # ys \<Longrightarrow> rc (hmset_argv key r) (kp_store s) = (x, d') \<Longrightarrow>
      key_step rc entry clock key s (s\<lparr>kp_store := d', kp_writers := xs @ ys, kp_failed := True\<rparr>)"
  | Pass_time: "clock (kp_store s) \<le> clock d' \<Longrightarrow>
      entry d' key = (case entry (kp_store s) key of
          Some (kvs, Some e) \<Rightarrow> if e \<le> clock d' then None else Some (kvs, Some e)
        | x \<Rightarrow> x) \<Longrightarrow>
      key_step rc entry clock key s (s\<lparr>kp_store := d'\<rparr>)"
  | Evict: "clock d' = clock (kp_store s) \<Longrightarrow> entry d' key = None \<Longrightarrow> key_step rc entry clock key s (s\<lparr>kp_store := d'\<rparr>)"

inductive key_reachable ::
  "'d redis_call \<Rightarrow> ('d \<Rightarrow> string \<Rightarrow> hash_entry option) \<Rightarrow> ('d \<Rightarrow> int) \<Rightarrow> string \<Rightarrow> 'd key_protocol \<Rightarrow> bool"
  for rc entry clock key where
    Start: "entry d key = None \<Longrightarrow> key_reachable rc entry clock key
      \<lparr>kp_store = d, kp_row = y, kp_writers = [], kp_failed = False, kp_last = clock d\<rparr>"
  | Step: "key_reachable rc entry clock key s \<Longrightarrow> key_step rc entry clock key s s' \<Longrightarrow> key_reachable rc entry clock key s'"

text \<open>A step after the revocation: the row does not come back.\<close>

definition revoked_step ::
  "'d redis_call \<Rightarrow> ('d \<Rightarrow> string \<Rightarrow> hash_entry option) \<Rightarrow> ('d \<Rightarrow> int) \<Rightarrow> string \<Rightarrow> 'd key_protocol \<Rightarrow> 'd key_protocol \<Rightarrow> bool" where
  "revoked_step rc entry clock key s s' \<longleftrightarrow> key_step rc entry clock key s s' \<and> kp_row s' = None"

text \<open>Whether \<open>from_cache\<close> finds a record that it believes, with the lookup in PostgreSQL in place.\<close>

definition cache_accepts :: "'d redis_call \<Rightarrow> string \<Rightarrow> 'd \<Rightarrow> bool" where
  "cache_accepts rc key d =
     (case hash_fields (Some (fst (rc [''HGETALL'', key] d))) of
        Inr kvs \<Rightarrow> info_of_fields True kvs \<noteq> None
      | Inl _ \<Rightarrow> False)"

section \<open>The commands under the laws\<close>

lemma key_laws_hgetall:
  "key_laws rc entry clock \<Longrightarrow> rc [''HGETALL'', k] d = (RArray (concat (map (\<lambda>(f, v). [RString f, RString v])
        (case entry d k of None \<Rightarrow> [] | Some (kvs, _) \<Rightarrow> kvs))), d)"
  by (simp add: key_laws_def)

lemma key_laws_hmset:
  assumes "key_laws rc entry clock" "rc (hmset_argv key r) d = (x, d')"
  shows "is_error (Some x) \<and> d' = d
    \<or> \<not> is_error (Some x) \<and> clock d' = clock d
      \<and> (\<exists>kvs. entry d' key = Some (kvs, case entry d key of None \<Rightarrow> None | Some (_, deadline) \<Rightarrow> deadline))"
proof -
  have "record_fields r \<noteq> [] \<and> distinct (map fst (record_fields r))"
    by (simp add: record_fields_def kSourceField_def)
  moreover have "\<forall>d k kvs. kvs \<noteq> [] \<and> distinct (map fst kvs) \<longrightarrow>
        (\<exists>m. rc (''HMSET'' # k # concat (map (\<lambda>(f, v). [f, v]) kvs)) d = (RError m, d))
        \<or> (\<exists>d' now_held. rc (''HMSET'' # k # concat (map (\<lambda>(f, v). [f, v]) kvs)) d = (RStatus ''OK'', d')
             \<and> clock d' = clock d
             \<and> entry d' = (entry d)(k \<mapsto> (now_held, case entry d k of None \<Rightarrow> None | Some (_, deadline) \<Rightarrow> deadline))
             \<and> map_of now_held = (case entry d k of None \<Rightarrow> Map.empty | Some (held, _) \<Rightarrow> map_of held) ++ map_of kvs)"
    using assms(1) unfolding key_laws_def by (elim conjE) assumption
  ultimately consider (error) m where "rc (hmset_argv key r) d = (RError m, d)"
    | (ok) d1 kvs where "rc (hmset_argv key r) d = (RStatus ''OK'', d1)" "clock d1 = clock d"
        "entry d1 = (entry d)(key \<mapsto> (kvs, case entry d key of None \<Rightarrow> None | Some (_, deadline) \<Rightarrow> deadline))"
    unfolding hmset_argv_def by blast
  then show ?thesis by cases (use assms(2) in \<open>auto simp: is_error_def\<close>)
qed

lemma key_laws_expire:
  assumes "key_laws rc entry clock" "0 < t" "t < 2 ^ 31" "rc [''EXPIRE'', key, dec_int t] d = (x, d')"
  shows "clock d' = clock d
    \<and> entry d' key = map_option (\<lambda>(kvs, _). (kvs, Some (clock d + 1000 * t))) (entry d key)"
proof -
  have "\<forall>d k t. 0 < t \<and> t < 2 ^ 31 \<longrightarrow> (\<exists>r d'. rc [''EXPIRE'', k, dec_int t] d = (RInteger r, d') \<and> clock d' = clock d
        \<and> entry d' = (entry d)(k := map_option (\<lambda>(kvs, _). (kvs, Some (clock d + 1000 * t))) (entry d k)))"
    using assms(1) unfolding key_laws_def by (elim conjE) assumption
  from this [rule_format, OF conjI [OF assms(2,3)], of key d] assms(4) show ?thesis by auto
qed

lemma cache_accepts_entry: "key_laws rc entry clock \<Longrightarrow> entry d key = None \<Longrightarrow> \<not> cache_accepts rc key d"
  by (simp add: cache_accepts_def key_laws_hgetall hash_fields_def info_of_fields_def)

section \<open>The invariant\<close>

text \<open>
  No hash outlives its lifetime, and, as long as no request stopped between its two commands, a hash without a request that
  is about to bound it has a lifetime that ends a minute after the last \<open>EXPIRE\<close>.
\<close>

definition bounded :: "('d \<Rightarrow> string \<Rightarrow> hash_entry option) \<Rightarrow> ('d \<Rightarrow> int) \<Rightarrow> string \<Rightarrow> 'd key_protocol \<Rightarrow> bool" where
  "bounded entry clock key s \<longleftrightarrow> kp_last s \<le> clock (kp_store s)
     \<and> (\<forall>kvs e. entry (kp_store s) key = Some (kvs, Some e) \<longrightarrow> clock (kp_store s) < e)
     \<and> (\<not> kp_failed s \<longrightarrow> entry (kp_store s) key = None \<or> (\<exists>r. Written r \<in> set (kp_writers s))
          \<or> (\<exists>kvs e. entry (kp_store s) key = Some (kvs, Some e) \<and> e \<le> kp_last s + 1000 * kCacheTtl))"

lemma ttl_range: "1 \<le> cache_ttl_for r now \<and> cache_ttl_for r now \<le> kCacheTtl"
  by (auto simp: cache_ttl_for_def kCacheTtl_def Let_def split: option.split)

lemma bounded_hmset:
  assumes laws: "key_laws rc entry clock" and inv: "bounded entry clock key s"
    and run: "rc (hmset_argv key r) (kp_store s) = (x, d')"
  shows "bounded entry clock key (s\<lparr>kp_store := d', kp_writers := xs @ Written r # ys\<rparr>)"
    and "bounded entry clock key (s\<lparr>kp_store := d', kp_writers := ws, kp_failed := True\<rparr>)"
  using inv key_laws_hmset [OF laws run] by (auto simp: bounded_def split: option.splits)

lemma bounded_expire:
  assumes laws: "key_laws rc entry clock" and inv: "bounded entry clock key s"
    and run: "rc [''EXPIRE'', key, dec_int (cache_ttl_for r now)] (kp_store s) = (x, d')"
  shows "bounded entry clock key (s\<lparr>kp_store := d', kp_writers := ws, kp_last := clock d'\<rparr>)"
proof -
  note t = ttl_range [of r now]
  then have "0 < cache_ttl_for r now" "cache_ttl_for r now < 2 ^ 31" by (simp_all add: kCacheTtl_def)
  note e = key_laws_expire [OF laws this run]
  show ?thesis using e t by (auto simp: bounded_def)
qed

lemma bounded_step:
  assumes "key_step rc entry clock key s s'" and laws: "key_laws rc entry clock" and inv: "bounded entry clock key s"
  shows "bounded entry clock key s'"
  using assms(1)
proof (cases rule: key_step.cases)
  case (Write xs r ys x d')
  then show ?thesis using bounded_hmset(1) [OF laws inv] by simp
next
  case (Bound xs r ys now x d')
  then show ?thesis using bounded_expire [OF laws inv] by simp
next
  case (Lose_reply xs r ys x d')
  then show ?thesis using bounded_hmset(2) [OF laws inv] by simp
next
  case (Pass_time d')
  then show ?thesis using inv by (auto simp: bounded_def split: option.splits if_splits)
qed (use inv in \<open>auto simp: bounded_def\<close>)

lemma reachable_bounded:
  "key_reachable rc entry clock key s \<Longrightarrow> key_laws rc entry clock \<Longrightarrow> bounded entry clock key s"
proof (induction rule: key_reachable.induct)
  case (Start d y)
  then show ?case by (simp add: bounded_def)
next
  case (Step s s')
  then show ?case using bounded_step by blast
qed

text \<open>What stays true after the revocation, once no check of before is under way.\<close>

lemma revoked_quiet:
  assumes "rtranclp (revoked_step rc entry clock key) s0 s" "key_reachable rc entry clock key s0"
    and "kp_row s0 = None" "kp_writers s0 = []" "\<not> kp_failed s0"
  shows "key_reachable rc entry clock key s \<and> kp_row s = None \<and> kp_writers s = [] \<and> \<not> kp_failed s \<and> kp_last s = kp_last s0"
  using assms(1)
proof (induction rule: rtranclp_induct)
  case base
  then show ?case using assms by simp
next
  case (step s s')
  then have s: "key_step rc entry clock key s s'" "kp_row s' = None" by (simp_all add: revoked_step_def)
  moreover have "key_reachable rc entry clock key s'" using key_reachable.Step step.IH s(1) by blast
  ultimately show ?case using step.IH by (cases rule: key_step.cases) auto
qed

section \<open>The code runs these commands\<close>

text \<open>hiredis sends the commands to that server, over connections that stay healthy; closing one does not touch the data.\<close>

definition runs_commands :: "'w hiredis \<Rightarrow> 'd redis_call \<Rightarrow> ('w \<Rightarrow> 'd) \<Rightarrow> bool" where
  "runs_commands api rc db \<longleftrightarrow>
     (\<forall>x argv w. \<exists>x' w'. hi_command api x argv w = (Some (fst (rc argv (db w))), x', w')
        \<and> rc_err x' = rc_err x \<and> db w' = snd (rc argv (db w)))
   \<and> (\<forall>x w. db (hi_free api x w) = db w)"

lemma run_command_runs:
  assumes "runs_commands api rc db" "is_connected c"
  obtains c' w' where "run_command api argv k c w = (k (Some (fst (rc argv (db w)))), c', w')" "is_connected c'"
    "db w' = snd (rc argv (db w))"
proof -
  obtain x where x: "ctx c = Some x" "rc_err x = 0" using assms(2) by (auto simp: is_connected_def split: option.splits)
  obtain x' w' where h: "hi_command api x argv w = (Some (fst (rc argv (db w))), x', w')" "rc_err x' = rc_err x"
      "db w' = snd (rc argv (db w))"
    using assms(1) unfolding runs_commands_def by blast
  show ?thesis
    by (rule that [of "c\<lparr>ctx := Some x'\<rparr>" w'])
      (use x h assms(2) in \<open>simp_all add: run_command_def check_connection_def redis_command_def is_connected_def\<close>)
qed

lemma destroy_runs: "runs_commands api rc db \<Longrightarrow> db (destroy_redis_connection api c w) = db w"
  by (auto simp: runs_commands_def destroy_redis_connection_def free_ctx_def split: option.split)

lemma release_runs: "runs_commands (ke_redis env) rc db \<Longrightarrow> db (snd (release env v c w)) = db w"
  by (auto simp: release_def destroy_runs)

lemma acquire_idle:
  "kv_idle v = cs @ [c] \<Longrightarrow> is_connected c \<Longrightarrow> acquire env v w = (Inr c, v\<lparr>kv_idle := cs\<rparr>, w)"
  by (simp add: acquire_def)

lemma hex_nat_no_nul: "CHR 0x00 \<notin> set (hex_nat n)"
  using hex_nat_lower [of "CHR 0x00" n] by (auto simp: is_lower_hex_def)

lemma redis_key_whole: "c_str (redis_key (hash_key env raw_key)) = redis_key (hash_key env raw_key)"
  using hex_nat_no_nul by (intro c_str_id) (auto simp: redis_key_def hash_key_def hex_padded_def)

text \<open>A store over a healthy connection is \<open>HMSET\<close>, and, unless the reply is an error, \<open>EXPIRE\<close>.\<close>

lemma store_runs [consumes 4, case_names error stored]:
  assumes run: "runs_commands (ke_redis env) rc db" and idle: "kv_idle v = cs @ [c]" "is_connected c"
    and key: "c_str key = key"
  obtains (error) "is_error (Some (fst (rc (hmset_argv key r) (db w))))"
      "db (snd (store_in_cache env key r v w)) = snd (rc (hmset_argv key r) (db w))"
    | (stored) now where "\<not> is_error (Some (fst (rc (hmset_argv key r) (db w))))"
      "db (snd (store_in_cache env key r v w))
         = snd (rc [''EXPIRE'', key, dec_int (cache_ttl_for r now)] (snd (rc (hmset_argv key r) (db w))))"
proof -
  let ?api = "ke_redis env"
  obtain c1 w1 where hmset: "redis_hmset ?api key
        [(''client_id'', kr_client_id r), (''scopes'', kr_scopes r), (kSourceField, kSourcePostgres)] c w
      = (unless_error ''HMSET'' (\<lambda>_. Inr ()) (Some (fst (rc (hmset_argv key r) (db w)))), c1, w1)"
    and c1: "is_connected c1" and w1: "db w1 = snd (rc (hmset_argv key r) (db w))"
    using run_command_runs [OF run idle(2), of "hmset_argv key r" "unless_error ''HMSET'' (\<lambda>_. Inr ())" w]
    by (auto simp: redis_hmset_def hmset_argv_def record_fields_def)
  obtain c2 w2 where expire: "redis_expire ?api key (cache_ttl_for r (ke_now env w1)) c1 w1
      = (unless_error ''EXPIRE'' (\<lambda>_. Inr ()) (Some (fst (rc [''EXPIRE'', key, dec_int (cache_ttl_for r (ke_now env w1))] (db w1)))), c2, w2)"
    and w2: "db w2 = snd (rc [''EXPIRE'', key, dec_int (cache_ttl_for r (ke_now env w1))] (db w1))"
    using run_command_runs [OF run c1] by (metis redis_expire_def key)
  note all = store_in_cache_def acquire_idle [OF idle] hmset expire unless_error_def
    destroy_runs [OF run] release_runs [OF run]
  show ?thesis
  proof (cases "is_error (Some (fst (rc (hmset_argv key r) (db w))))")
    case True
    then show ?thesis using w1 by (intro error) (simp_all add: all)
  next
    case False
    then show ?thesis using w1 w2 by (intro stored [of "ke_now env w1"]) (simp_all add: all)
  qed
qed

lemma from_cache_runs:
  assumes run: "runs_commands (ke_redis env) rc db" and idle: "kv_idle v = cs @ [c]" "is_connected c"
    and key: "c_str key = key" and reply: "hash_fields (Some (fst (rc [''HGETALL'', key] (db w)))) = Inr kvs"
  shows "\<exists>v' w'. from_cache env key v w = (Inr (info_of_fields (kv_lookup v \<noteq> None) kvs), v', w') \<and> kv_lookup v' = kv_lookup v"
proof -
  obtain c1 w1 where "redis_hgetall (ke_redis env) key c w = (Inr kvs, c1, w1)"
    using run_command_runs [OF run idle(2)] reply unfolding redis_hgetall_def key by metis
  moreover obtain v2 w2 where "release env (v\<lparr>kv_idle := cs\<rparr>) c1 w1 = (v2, w2)" by (cases "release env (v\<lparr>kv_idle := cs\<rparr>) c1 w1")
  moreover from release_parts [OF this] have "kv_lookup v2 = kv_lookup v" by simp
  ultimately show ?thesis by (simp add: from_cache_def read_hash_def acquire_idle [OF idle])
qed

text \<open>So a store of the code is \<open>Write\<close> and \<open>Bound\<close>, or, when the server refuses the fields, \<open>Give_up\<close>.\<close>

lemma store_refines:
  assumes laws: "key_laws rc entry clock" and run: "runs_commands (ke_redis env) rc db"
    and idle: "kv_idle v = cs @ [c]" "is_connected c" and key: "c_str key = key"
    and s: "kp_store s = db w" "kp_writers s = xs @ Looked r # ys"
  obtains s' where "rtranclp (key_step rc entry clock key) s s'" "kp_store s' = db (snd (store_in_cache env key r v w))"
    "kp_writers s' = xs @ ys" "kp_row s' = kp_row s" "kp_failed s' = kp_failed s"
  using run idle key
proof (cases rule: store_runs [where r = r and w = w])
  case error
  then have "db (snd (store_in_cache env key r v w)) = db w"
    using key_laws_hmset [OF laws, of key r "db w"] by (metis prod.collapse)
  moreover have "key_step rc entry clock key s (s\<lparr>kp_writers := xs @ ys\<rparr>)" by (rule key_step.Give_up [OF s(2)])
  ultimately show ?thesis
    using that [of "s\<lparr>kp_writers := xs @ ys\<rparr>"] s(1) by (simp add: r_into_rtranclp)
next
  case (stored now)
  let ?d1 = "snd (rc (hmset_argv key r) (db w))"
  let ?s1 = "s\<lparr>kp_store := ?d1, kp_writers := xs @ Written r # ys\<rparr>"
  let ?e = "rc [''EXPIRE'', key, dec_int (cache_ttl_for r now)] ?d1"
  have "key_step rc entry clock key s ?s1"
    by (rule key_step.Write [OF s(2) _ stored(1)]) (simp add: s(1))
  moreover have "key_step rc entry clock key ?s1 (?s1\<lparr>kp_store := snd ?e, kp_writers := xs @ ys, kp_last := clock (snd ?e)\<rparr>)"
    by (rule key_step.Bound [where r = r and now = now and x = "fst ?e"]) simp_all
  ultimately show ?thesis
    by (intro that [of "?s1\<lparr>kp_store := snd ?e, kp_writers := xs @ ys, kp_last := clock (snd ?e)\<rparr>"])
      (auto intro: rtranclp.intros stored(2) [symmetric])
qed

section \<open>How long a revoked key is accepted\<close>


section \<open>A server\<close>

text \<open>A server that satisfies the laws: the clock and the hashes with their deadlines.\<close>

type_synonym hash_server = "int \<times> (string \<Rightarrow> hash_entry option)"

fun arg_pairs :: "string list \<Rightarrow> (string \<times> string) list" where
  "arg_pairs (f # v # rest) = (f, v) # arg_pairs rest"
| "arg_pairs _ = []"

definition hash_call :: "hash_server redis_call" where
  "hash_call argv d = (case argv of
      name # k # args \<Rightarrow>
        if name = ''HGETALL'' then (RArray (concat (map (\<lambda>(f, v). [RString f, RString v])
          (case snd d k of None \<Rightarrow> [] | Some (kvs, _) \<Rightarrow> kvs))), d)
        else if name = ''EXPIRE'' then (case stoll (concat args) of
            Inl _ \<Rightarrow> (RError ''ERR value is not an integer or out of range'', d)
          | Inr (t, _) \<Rightarrow> (RInteger (if snd d k = None then 0 else 1),
              (fst d, (snd d)(k := map_option (\<lambda>(kvs, _). (kvs, Some (fst d + 1000 * t))) (snd d k)))))
        else (RStatus ''OK'', (fst d, (snd d)(k \<mapsto> (case snd d k of
            None \<Rightarrow> (arg_pairs args, None)
          | Some (held, deadline) \<Rightarrow>
              (arg_pairs args @ filter (\<lambda>(f, _). map_of (arg_pairs args) f = None) held, deadline)))))
    | _ \<Rightarrow> (RError ''ERR unknown command'', d))"

lemma arg_pairs_concat: "arg_pairs (concat (map (\<lambda>(f, v). [f, v]) kvs)) = kvs"
  by (induction kvs) auto

lemma map_of_filter_keys: "map_of (filter (\<lambda>(f, _). P f) kvs) x = (if P x then map_of kvs x else None)"
  by (induction kvs) auto

lemma hash_laws: "key_laws hash_call snd fst"
proof -
  have "map_of (kvs @ filter (\<lambda>(f, _). map_of kvs f = None) held) = map_of held ++ map_of kvs" for kvs held :: "(string \<times> string) list"
    by (rule ext) (simp add: map_add_def map_of_filter_keys split: option.split)
  moreover have "stoll (dec_int t) = Inr (t, length (dec_int t))" if "0 < t" "t < 2 ^ 31" for t
    using that by (intro stoll_dec_int) simp_all
  ultimately show ?thesis
    unfolding key_laws_def by (auto simp: hash_call_def arg_pairs_concat split: option.split)
qed

text \<open>A connection to it, and a validator over a lookup that finds no row.\<close>

definition hash_hiredis :: "hash_server hiredis" where
  "hash_hiredis = \<lparr>hi_connect = (\<lambda>_ _ _ d. (None, d)), hi_set_timeout = (\<lambda>x _ d. (x, d)),
     hi_command = (\<lambda>x argv d. (case hash_call argv d of (r, d') \<Rightarrow> (Some r, x, d'))), hi_free = (\<lambda>_ d. d)\<rparr>"

definition hash_env :: "hash_server key_env" where
  "hash_env = \<lparr>ke_redis = hash_hiredis, ke_sha256 = (\<lambda>_. []), ke_now = fst, ke_sleep = (\<lambda>_ d. d)\<rparr>"

lemma hash_runs: "runs_commands (ke_redis hash_env) hash_call id"
  by (simp add: runs_commands_def hash_env_def hash_hiredis_def split: prod.split)

definition some_record :: api_key_record where
  "some_record = \<lparr>kr_client_id = ''c'', kr_scopes = ''read'', kr_expires_at = None\<rparr>"

lemma hash_hmset:
  "hash_call (hmset_argv k r) (t, Map.empty) = (RStatus ''OK'', (t, Map.empty(k \<mapsto> (record_fields r, None))))"
  by (simp add: hash_call_def hmset_argv_def record_fields_def)

lemma hash_expire:
  "hash_call [''EXPIRE'', k, dec_int (cache_ttl_for some_record now)] (t, Map.empty(k \<mapsto> (kvs, None)))
     = (RInteger 1, (t, Map.empty(k \<mapsto> (kvs, Some (t + 60000)))))"
  by (simp add: hash_call_def cache_ttl_for_def some_record_def kCacheTtl_def stoll_dec_int)

lemma hash_accepts: "cache_accepts hash_call k (t, Map.empty(k \<mapsto> (record_fields some_record, deadline)))"
  by (simp add: cache_accepts_def hash_call_def hash_fields_def record_fields_def info_of_fields_def kSourceField_def
      kSourcePostgres_def some_record_def c_str_id)

text \<open>The states of a key whose record \<open>some_record\<close> is cached: before, during and after.\<close>

abbreviation key_state :: "int \<Rightarrow> (string \<Rightarrow> hash_entry option) \<Rightarrow> api_key_record option \<Rightarrow> writer list \<Rightarrow> bool \<Rightarrow> int \<Rightarrow> hash_server key_protocol" where
  "key_state t held y ws failed last_bound \<equiv>
     \<lparr>kp_store = (t, held), kp_row = y, kp_writers = ws, kp_failed = failed, kp_last = last_bound\<rparr>"

lemma state_change: "key_step hash_call snd fst k (key_state t held y ws fl lb) (key_state t held y' ws fl lb)"
  using key_step.Change [where s = "key_state t held y ws fl lb" and y = y'] by simp

lemma state_looked: "key_reachable hash_call snd fst k (key_state 0 Map.empty (Some some_record) [Looked some_record] False 0)"
proof -
  let ?s = "key_state 0 Map.empty (Some some_record) [] False 0"
  have "key_reachable hash_call snd fst k ?s"
    using key_reachable.Start [where d = "(0, Map.empty)" and entry = snd and clock = fst and key = k] by simp
  moreover have "key_step hash_call snd fst k ?s (?s\<lparr>kp_writers := kp_writers ?s @ [Looked some_record]\<rparr>)"
    by (rule key_step.Look_up) simp
  ultimately show ?thesis using key_reachable.Step by fastforce
qed

lemma state_write:
  "key_step hash_call snd fst k (key_state t Map.empty y [Looked some_record] fl lb)
     (key_state t (Map.empty(k \<mapsto> (record_fields some_record, None))) y [Written some_record] fl lb)"
proof -
  let ?s = "key_state t Map.empty y [Looked some_record] fl lb"
  have "key_step hash_call snd fst k ?s
      (?s\<lparr>kp_store := (t, Map.empty(k \<mapsto> (record_fields some_record, None))), kp_writers := [] @ Written some_record # []\<rparr>)"
    by (rule key_step.Write [where r = some_record and x = "RStatus ''OK''"]) (simp_all add: hash_hmset is_error_def)
  then show ?thesis by simp
qed

lemma state_bound:
  "key_step hash_call snd fst k (key_state t (Map.empty(k \<mapsto> (kvs, None))) y [Written some_record] fl lb)
     (key_state t (Map.empty(k \<mapsto> (kvs, Some (t + 60000)))) y [] fl t)"
proof -
  let ?s = "key_state t (Map.empty(k \<mapsto> (kvs, None))) y [Written some_record] fl lb"
  let ?d = "(t, Map.empty(k \<mapsto> (kvs, Some (t + 60000))))"
  have "key_step hash_call snd fst k ?s (?s\<lparr>kp_store := ?d, kp_writers := [] @ [], kp_last := fst ?d\<rparr>)"
    by (rule key_step.Bound [where r = some_record and x = "RInteger 1" and now = 0]) (simp_all add: hash_expire)
  then show ?thesis by simp
qed

lemma state_time:
  assumes "t \<le> t'" "\<And>kvs e. held k = Some (kvs, Some e) \<Longrightarrow> t' < e"
  shows "key_step hash_call snd fst k (key_state t held y ws fl lb) (key_state t' held y ws fl lb)"
proof -
  let ?s = "key_state t held y ws fl lb"
  have "key_step hash_call snd fst k ?s (?s\<lparr>kp_store := (t', held)\<rparr>)"
    by (rule key_step.Pass_time) (use assms in \<open>auto split: option.split\<close>)
  then show ?thesis by simp
qed

lemma state_broken:
  "key_step hash_call snd fst k (key_state t held y [Written some_record] fl lb) (key_state t held y [] True lb)"
proof -
  let ?s = "key_state t held y [Written some_record] fl lb"
  have "key_step hash_call snd fst k ?s (?s\<lparr>kp_writers := [] @ [], kp_failed := True\<rparr>)"
    by (rule key_step.Break_off [where r = some_record]) simp
  then show ?thesis by simp
qed

text \<open>The key of \<open>revocation_takes_effect\<close>'s premises: cached, then revoked.\<close>

lemma state_revoked:
  "key_reachable hash_call snd fst k (key_state 0 (Map.empty(k \<mapsto> (record_fields some_record, Some 60000))) None [] False 0)"
  using key_reachable.Step [OF key_reachable.Step [OF key_reachable.Step [OF state_looked state_write] state_bound] state_change, of k None]
  by simp

lemma state_expired:
  "key_step hash_call snd fst k (key_state 0 (Map.empty(k \<mapsto> (kvs, Some 60000))) y ws fl lb) (key_state 60000 Map.empty y ws fl lb)"
proof -
  let ?s = "key_state 0 (Map.empty(k \<mapsto> (kvs, Some 60000))) y ws fl lb"
  have "key_step hash_call snd fst k ?s (?s\<lparr>kp_store := (60000, Map.empty)\<rparr>)"
    by (rule key_step.Pass_time) simp_all
  then show ?thesis by simp
qed

definition some_validator :: "hash_server api_key_validator" where
  "some_validator = \<lparr>kv_config = default_redis_config, kv_lookup = Some (\<lambda>_ d. (Inr None, d)),
     kv_idle = [\<lparr>ctx = Some \<lparr>rc_handle = 1, rc_err = 0, rc_errstr = []\<rparr>, rd_config = default_redis_config\<rparr>]\<rparr>"


text \<open>
  C26. The two ways in which a revoked key outlives that bound, for every key and every time \<open>t\<close>: \<open>store_in_cache\<close>
  swallows what \<open>EXPIRE\<close> throws, so a request whose connection breaks between the two commands leaves a hash without a
  lifetime, and the key is accepted at \<open>t\<close> though it was revoked at 0 with no request under way; and, with no failure at
  all, a request that looked the key up before it was revoked and stores it late makes it accepted then.
\<close>

theorem revocation_lost:
  "(\<exists>s0 s. key_reachable hash_call snd fst k s0 \<and> kp_row s0 = None \<and> kp_writers s0 = [] \<and> fst (kp_store s0) = 0
      \<and> rtranclp (revoked_step hash_call snd fst k) s0 s \<and> t \<le> fst (kp_store s) \<and> cache_accepts hash_call k (kp_store s))
   \<and> (\<exists>s0 s. key_reachable hash_call snd fst k s0 \<and> kp_row s0 = None \<and> kp_writers s0 = [Looked some_record]
      \<and> fst (kp_store s0) = 0 \<and> rtranclp (revoked_step hash_call snd fst k) s0 s \<and> \<not> kp_failed s \<and> kp_writers s = []
      \<and> t \<le> fst (kp_store s) \<and> cache_accepts hash_call k (kp_store s))"
proof
  let ?T = "max 0 t" and ?h = "\<lambda>e. Map.empty(k \<mapsto> (record_fields some_record, e))"
  let ?start = "key_state 0 (?h None) None [] True 0"
  have "key_reachable hash_call snd fst k ?start"
    using key_reachable.Step [OF key_reachable.Step [OF key_reachable.Step [OF state_looked state_write] state_broken] state_change]
    by simp
  moreover have "revoked_step hash_call snd fst k ?start (key_state ?T (?h None) None [] True 0)"
    unfolding revoked_step_def by (intro conjI state_time) (auto split: if_splits)
  ultimately show "\<exists>s0 s. key_reachable hash_call snd fst k s0 \<and> kp_row s0 = None \<and> kp_writers s0 = [] \<and> fst (kp_store s0) = 0
      \<and> rtranclp (revoked_step hash_call snd fst k) s0 s \<and> t \<le> fst (kp_store s) \<and> cache_accepts hash_call k (kp_store s)"
    by (intro exI [of _ ?start] exI [of _ "key_state ?T (?h None) None [] True 0"]) (simp add: hash_accepts r_into_rtranclp)
next
  let ?T = "max 0 t" and ?h = "\<lambda>e. Map.empty(k \<mapsto> (record_fields some_record, e))"
  let ?start = "key_state 0 Map.empty None [Looked some_record] False 0"
  let ?s = "key_state ?T (?h (Some (?T + 60000))) None [] False ?T"
  have "key_reachable hash_call snd fst k ?start"
    by (rule key_reachable.Step [OF state_looked state_change])
  moreover have "revoked_step hash_call snd fst k ?start (key_state ?T Map.empty None [Looked some_record] False 0)"
    "revoked_step hash_call snd fst k (key_state ?T Map.empty None [Looked some_record] False 0)
       (key_state ?T (?h None) None [Written some_record] False 0)"
    "revoked_step hash_call snd fst k (key_state ?T (?h None) None [Written some_record] False 0) ?s"
    unfolding revoked_step_def by (intro conjI state_time state_write state_bound; simp)+
  then have "rtranclp (revoked_step hash_call snd fst k) ?start ?s"
    by (meson r_into_rtranclp rtranclp.rtrancl_into_rtrancl)
  ultimately show "\<exists>s0 s. key_reachable hash_call snd fst k s0 \<and> kp_row s0 = None \<and> kp_writers s0 = [Looked some_record]
      \<and> fst (kp_store s0) = 0 \<and> rtranclp (revoked_step hash_call snd fst k) s0 s \<and> \<not> kp_failed s \<and> kp_writers s = []
      \<and> t \<le> fst (kp_store s) \<and> cache_accepts hash_call k (kp_store s)"
    by (intro exI [of _ ?start] exI [of _ ?s]) (simp add: hash_accepts)
qed

end
