(* ===== verification/Spec2Isabelle.thy ===== *)
theory Spec2Isabelle
  imports Ownership Threads Coherence PoolWaiting KeyProtocol
begin

text \<open>
  Corvus is an HTTP gateway in C++ for resources that clients keep in PostgreSQL, with Redis as a cache. This development models
  the program under \<open>src/\<close> and \<open>include/corvus/\<close>; file names below are relative to those directories.

  The parts and how they interact. \<open>main.cpp\<close> reads the environment, builds the JWT validator, the API key validator with its Redis
  connection, the PostgreSQL pool, runs the migrations, connects the cache, and registers advices and routes. A request passes the
  advice that gives it an identifier, the check of the announced size and the rate limiter; the framework chooses a route; then
  authentication and the check of the real size run; then a handler, of the gateway or of resources. The handlers of resources
  call the service, the service calls the repository and the cache, the repository takes a connection of the pool.

  Theories, bottom up, with what they model and what their lemmas show.

  \<^item> \<open>Prelude\<close>: exceptions (\<open>exn\<close>) and the standard library on strings and numbers. Lemmas: printing and reading
    numbers, searching, substrings.
  \<^item> \<open>Cursor\<close> (\<open>resources/resource_repository.cpp\<close>): base64 on 32-bit integers, the cursor's text. Lemmas: decoding inverts
    encoding although the accumulator overflows; what \<open>decode_cursor\<close> accepts.
  \<^item> \<open>Float64\<close>, \<open>RateLimiter\<close> (\<open>gateway/rate_limiter.cpp\<close>): rounding to 53 bits, and the token buckets. Lemmas: a client's
    calls are bounded by burst and rate, clients do not influence one another, the answer to "when again" is honest.
  \<^item> \<open>Api\<close> (\<open>api/*.cpp\<close>): envelopes, responses, identifiers. Lemmas: the members of an envelope and the form of a UUID.
  \<^item> \<open>Redis\<close> (\<open>db/redis_connection.cpp\<close>): one connection. Lemmas: every command throws without a connection, and keeps the
    configuration; the contract is the locale \<open>connection_op\<close>, which every command interprets.
  \<^item> \<open>Jwt\<close>, \<open>ApiKey\<close>, \<open>Authenticator\<close> (\<open>auth/*.cpp\<close>): the two credentials and their combination. Lemmas: exactly which requests
    become which principal, which refusal the others get, where a record that is accepted came from.
  \<^item> \<open>CacheAside\<close> (\<open>db/cache_aside.cpp\<close>): the cache with its back-off and its two Lua scripts. Lemmas: at most one attempt to
    reconnect a second, nothing throws, what a rejected \<open>SELECT\<close> leaves.
  \<^item> \<open>CacheProtocol\<close>, \<open>Coherence\<close> (\<open>resources/resource_service.cpp\<close> over \<open>db/cache_aside.cpp\<close>): readers and writers of one row as a
    step relation, and its abstraction of the service. Lemmas: the invariant \<open>coherent\<close> by rule induction, that whole
    calls of the service are runs of the relation, and that answers are therefore current.
  \<^item> \<open>KeyProtocol\<close> (\<open>auth/api_key_validator.cpp\<close>): the requests that check one key, as a step relation over the row and the cached
    hash with its lifetime. Lemmas: the invariant \<open>bounded\<close>, that calls of the validator run these steps, that a
    revoked key is rejected a minute later, and the two ways in which it is not.
  \<^item> \<open>Resource\<close>, \<open>Repository\<close>, \<open>Service\<close>, \<open>Handlers\<close> (\<open>resources/*.cpp\<close>): request bodies and their checks, the SQL text and the
    conversion of rows, the five operations, the HTTP handlers with their catch clauses. Lemmas: validation is exact,
    every statement is restricted to the client, pages cover the table, the service without Redis is the repository,
    the status of every outcome.
  \<^item> \<open>PgPool\<close> (\<open>db/pg_pool.cpp\<close>): the pool, and threads as interleaved steps. Lemmas: the count of connections is exact
    and within its bounds, what a call that must wait gets.
  \<^item> \<open>PoolWaiting\<close> (the condition variable of \<open>db/pg_pool.cpp\<close>): the threads that sleep and that are woken, as a
    refinement of \<open>PgPool\<close>. Lemmas: a thread that waits gets its turn, and the two ways in which a wake-up is lost.
  \<^item> \<open>Threads\<close> (the pool of \<open>db/pg_pool.cpp\<close> under the threads and the configuration of \<open>main.cpp\<close>): which thread holds which
    connection, as a refinement of \<open>PgPool\<close>. Lemmas: no thread ever waits, and the pool stays as small as the number of threads.
  \<^item> \<open>KeyStore\<close> (\<open>auth/pg_api_key_lookup.cpp\<close>), \<open>Migration\<close> (\<open>db/migration_runner.cpp\<close>): the two other clients of the pool. Lemmas: a
    store that is down never looks like an unknown key; scripts run in order, once, each recorded.
  \<^item> \<open>Gateway\<close>, \<open>Endpoints\<close> (\<open>gateway/*.cpp\<close>): the middlewares and the gateway's own handlers and routes. Lemmas: the key of a
    client, sizes that are refused, the answers of the limiter, readiness.
  \<^item> \<open>HealthProbe\<close> (\<open>gateway/health_probe.cpp\<close>): the probe over a non-blocking socket. Lemmas: it returns, and its verdict
    depends on the first line of the answer only.
  \<^item> \<open>Server\<close> (\<open>main.cpp\<close>): the start, one request through all parts, the health-check mode. Lemmas: what a started
    server is, that handlers of resources see authenticated requests only, that connections return to the pool.

  \<^item> \<open>Isolation\<close>, \<open>Tenancy\<close>: what one client's requests may read and change. Every operation from the connection up to the
    handlers is \<open>confined\<close> to the client's part of the world, first over any client of the pool and then, through
    the pool's own code, over the server. Lemmas: one rule per way of composing operations, and confidentiality and integrity.
  \<^item> \<open>Ownership\<close>: whole requests from the network. What the gateway does with the stores on its own behalf (keys, readiness)
    spares every client's data. Lemmas: only a request with accepted credentials of a client touches that client's data.

  State and operations. A class is a record of its members and a member function takes and returns it; the rest of the
  system is an opaque world \<open>'w\<close> which the operations thread. An exception is a value \<open>Inl e\<close>; a catch clause is a case over it.
  A mutex makes an operation one atomic step; where a lock is given up (\<open>acquire\<close> of the pool, the reader of a cache entry or of an API
  key between its commands) the steps are separate and the lemmas quantify over all interleavings.

  Parameters. Code outside the repository is an argument: hiredis (\<open>hiredis\<close>), libpqxx (\<open>pg_client\<close>, \<open>pg_driver\<close>, \<open>pqxx\<close>),
  jwt-cpp (\<open>jwt_lib\<close>), SHA-256 and the clocks (\<open>key_env\<close>, \<open>cache_env\<close>), nlohmann::json and jsoncpp (\<open>json_lib\<close>,
  \<open>he_jsoncpp\<close>), system calls (\<open>socket_api\<close>), the file system (\<open>migration_env\<close>), the framework's routing
  (\<open>pf_route\<close>, \<open>pf_unhandled\<close>). Most theorems hold for all of them. Where one relies on them the reliance is a named hypothesis: the
  commands of Redis in \<open>server_laws\<close> and \<open>key_laws\<close>, Redis and the table of resources in \<open>script_server\<close> and \<open>row_database\<close>, what
  a statement that names a client touches in \<open>tenant_server\<close> and one that names none in \<open>gateway_server\<close>, a clock that advances in
  \<open>running_clock\<close>, a peer that answers in \<open>answering_peer\<close>; each comes with an instance that satisfies it.

  Loops. Recursion is on the data or has a measure. Four loops end only if the outside lets them, and are partial functions to an
  option: \<open>scan_loop\<close>, whose cursor is the server's, and the probe's \<open>wait_for\<close>, \<open>send_loop\<close> and \<open>recv_loop\<close>, for which
  \<open>probe_terminates\<close> shows the value \<open>Some\<close>. No fuel is used: \<open>open_connections\<close> counts the connections still to open, and
  \<open>pool_acquire\<close> follows the list of what other threads do between two waits.

  Numbers. Machine integers that may overflow are words (base64, the pool's counters, the sizes of bodies, seconds of an expiry);
  doubles are rationals rounded to 53 bits, without overflow, subnormal numbers and NaN, which the quantities of the limiter do not
  reach.

  Not modelled. Logging, since nothing depends on it; the framework's event loop and its own limits on bodies,
  which are not in the repository: requests are served one after another here, beside the concurrent runs of limiter, pool
  and cache above; build files, tests, the SQL of the migrations and the container files, which are no code of the gateway.
\<close>

section \<open>The whole server under load\<close>

text \<open>Requests in the order in which they arrive, each with its moment; the ones of peer \<open>p\<close> that reach a handler.\<close>

fun handled_requests ::
  "('alg, 'tok, 'w) platform \<Rightarrow> string \<Rightarrow> 'w server \<Rightarrow> 'w \<Rightarrow> (moment \<times> http_request) list \<Rightarrow> nat" where
  "handled_requests pf p sv w [] = 0"
| "handled_requests pf p sv w ((mo, req) # rest) =
     (case serve pf sv mo req w of (way, resp, sv', w') \<Rightarrow>
        (if way \<noteq> Refused \<and> rq_peer req = p \<and> rq_path req \<notin> {''/health'', ''/ready''} then 1 else 0)
          + handled_requests pf p sv' w' rest)"

text \<open>What the limiter sees of a request.\<close>

definition limiter_input :: "moment \<times> http_request \<Rightarrow> (uuid_draws \<times> int \<times> (int \<times> int) \<times> http_request) list" where
  "limiter_input x = (case x of (mo, req) \<Rightarrow>
     (case request_id_advice (mo_draws mo) req of
        Respond _ \<Rightarrow> []
      | Next req \<Rightarrow> (case content_length_advice default_size_limit (mo_draws mo) (mo_now mo) req of
          Respond _ \<Rightarrow> []
        | Next req \<Rightarrow> [(mo_draws mo, mo_now mo, mo_clock mo, req)])))"

lemma limiter_input_cases:
  obtains (refused) resp where "limiter_input (mo, req) = []" "before_routing sv mo req = (Respond resp, sv)"
  | (limited) req1 where "limiter_input (mo, req) = [(mo_draws mo, mo_now mo, mo_clock mo, req1)]"
      "rq_peer req1 = rq_peer req" "rq_path req1 = rq_path req"
      "before_routing sv mo req =
         (case rate_limit_advice (sv_proxies sv) (mo_draws mo) (mo_now mo) (mo_clock mo) req1 (sv_limiter sv) of
            (adv, l) \<Rightarrow> (adv, sv\<lparr>sv_limiter := l\<rparr>))"
proof -
  obtain r where i: "request_id_advice (mo_draws mo) req = Next r" "rq_peer r = rq_peer req" "rq_path r = rq_path req"
    by (simp add: request_id_advice_def Let_def)
  show ?thesis
  proof (cases "content_length_advice default_size_limit (mo_draws mo) (mo_now mo) r")
    case (Respond resp)
    then show ?thesis using i by (intro refused [of resp]) (simp_all add: limiter_input_def before_routing_def)
  next
    case (Next r')
    then have "r' = r" by (auto simp: content_length_advice_def Let_def split: if_splits sum.splits)
    then show ?thesis using i Next by (intro limited [of r]) (simp_all add: limiter_input_def before_routing_def)
  qed
qed

lemma before_handling_limiter:
  "before_handling pf sv mo req w = (r, sv', w') \<Longrightarrow> sv_limiter sv' = sv_limiter sv \<and> sv_proxies sv' = sv_proxies sv"
  by (auto simp: before_handling_def split: advice.splits prod.splits)

lemma handle_limiter:
  "handle pf sv mo t req w = (r, sv', w') \<Longrightarrow> sv_limiter sv' = sv_limiter sv \<and> sv_proxies sv' = sv_proxies sv"
  using handle_server [of pf sv mo t req w r sv' w'] by auto

lemma serve_limiter:
  assumes "serve pf sv mo req w = (way, resp, sv', w')"
  shows "sv_limiter sv' = sv_limiter (snd (before_routing sv mo req)) \<and> sv_proxies sv' = sv_proxies sv
    \<and> (way \<noteq> Refused \<longrightarrow> (\<exists>req1. fst (before_routing sv mo req) = Next req1))"
proof -
  obtain a sv1 where r: "before_routing sv mo req = (a, sv1)" by (rule prod.exhaust)
  have "sv_proxies sv1 = sv_proxies sv" using before_routing_server [OF r] by auto
  then show ?thesis
    using assms r
    by (auto simp: serve_def dest!: before_handling_limiter handle_limiter split: advice.splits sum.splits prod.splits)
qed

lemma handled_passed:
  "handled_requests pf p sv w reqs \<le> passed_peer (sv_proxies sv) p (sv_limiter sv) (concat (map limiter_input reqs))"
proof (induction pf p sv w reqs rule: handled_requests.induct)
  case (2 pf p sv w mo req rest)
  obtain way resp sv' w' where s: "serve pf sv mo req w = (way, resp, sv', w')" by (rule prod_cases4)
  note lim = serve_limiter [OF s] and IH = "2.IH" [OF s [symmetric] refl refl]
  show ?case
  proof (cases rule: limiter_input_cases [of mo req sv])
    case (refused resp')
    then show ?thesis using lim IH s by simp
  next
    case (limited req1)
    obtain a l where a: "rate_limit_advice (sv_proxies sv) (mo_draws mo) (mo_now mo) (mo_clock mo) req1 (sv_limiter sv) = (a, l)"
      by (rule prod.exhaust)
    then have "before_routing sv mo req = (a, sv\<lparr>sv_limiter := l\<rparr>)" using limited(4) by simp
    then show ?thesis using lim IH s limited a by (cases a) auto
  qed
qed simp

lemma limiter_input_times: "\<forall>x\<in>set (limiter_input y). (\<lambda>(rnd, now, clock, req). fst clock) x = fst (mo_clock (fst y))"
  by (cases y; cases "mo_clock (fst y)") (auto simp: limiter_input_def split: advice.splits)

lemma limiter_input_length: "length (limiter_input y) \<le> 1"
  by (cases y) (auto simp: limiter_input_def split: advice.splits)

lemma concat_times:
  "\<forall>x\<in>set (concat (map limiter_input reqs)). \<exists>y\<in>set reqs. (\<lambda>(rnd, now, clock, req). fst clock) x = fst (mo_clock (fst y))"
proof
  fix x assume "x \<in> set (concat (map limiter_input reqs))"
  then obtain y where "y \<in> set reqs" "x \<in> set (limiter_input y)" by auto
  then show "\<exists>y\<in>set reqs. (\<lambda>(rnd, now, clock, req). fst clock) x = fst (mo_clock (fst y))"
    using bspec [OF limiter_input_times] by blast
qed

lemma concat_sorted:
  "sorted (map (\<lambda>y. fst (mo_clock (fst y))) reqs) \<Longrightarrow>
     sorted (map (\<lambda>(rnd, now, clock, req). fst clock) (concat (map limiter_input reqs)))"
proof (induction reqs)
  case (Cons y reqs)
  have "\<forall>x\<in>set (concat (map limiter_input reqs)). fst (mo_clock (fst y)) \<le> (\<lambda>(rnd, now, clock, req). fst clock) x"
    using concat_times [of reqs] Cons.prems by fastforce
  moreover have "sorted (map (\<lambda>(rnd, now, clock, req). fst clock) (limiter_input y))"
    using limiter_input_length [of y] by (cases "limiter_input y"; cases "tl (limiter_input y)") auto
  ultimately show ?case
    using Cons limiter_input_times [of y] by (auto simp: sorted_append)
qed simp

lemma concat_length: "length (concat (map limiter_input reqs)) \<le> length reqs"
  using limiter_input_length by (induction reqs) (auto simp: add.commute intro: order_trans [OF add_mono])

text \<open>
  C8. The load that one peer can cause. A server that was started hands at most 100 requests of a peer that is no trusted proxy to its
  handlers at once, and 10 more for each second, up to the rounding of the doubles, whatever the peer sends and whatever
  arrives in between; \<open>/health\<close> and \<open>/ready\<close> are not counted.
\<close>

theorem handled_rate_bound:
  assumes "startup pf w0 = (Inr sv, w)" and "p \<notin> set (trusted_proxies (pf_getenv pf ''CORVUS_TRUSTED_PROXIES''))"
    and "sorted (pf_steady pf w # map (\<lambda>y. fst (mo_clock (fst y))) reqs)"
    and "\<forall>y\<in>set reqs. fst (mo_clock (fst y)) \<le> T" "pf_steady pf w \<le> T"
  shows "of_nat (handled_requests pf p sv w reqs)
    \<le> 100 + 10 * (of_int (T - pf_steady pf w) / 10 ^ 9) * (1 + 1 / 2 ^ 53) ^ 4 + of_nat (length reqs) * 100 / (2 :: rat) ^ 53"
proof -
  let ?in = "concat (map limiter_input reqs)" and ?t = "pf_steady pf w" and ?px = "trusted_proxies (pf_getenv pf ''CORVUS_TRUSTED_PROXIES'')"
  let ?time = "\<lambda>(rnd, now, clock, req). fst clock"
  have sv: "sv_limiter sv = new_rate_limiter default_rate_limit_config ?t" "sv_proxies sv = ?px"
    using assms(1) by (auto elim!: startup_Inr)
  have cfg: "config_ok default_rate_limit_config"
      "of_nat (max_tokens default_rate_limit_config) \<le> refill_rate default_rate_limit_config * of_int (entry_ttl default_rate_limit_config)"
    by (simp_all add: config_ok_def default_rate_limit_config_def)
  have "\<forall>x\<in>set ?in. ?t \<le> ?time x" using concat_times [of reqs] assms(3) by fastforce
  then have s: "sorted (?t # map ?time ?in)" using concat_sorted [of reqs] assms(3) by auto
  have u: "\<forall>(rnd, now, clock, req)\<in>set ?in. fst clock \<le> T" using concat_times [of reqs] assms(4) by fastforce
  have "of_nat (handled_requests pf p sv w reqs)
      \<le> (of_nat (passed_peer ?px p (new_rate_limiter default_rate_limit_config ?t) ?in) :: rat)"
    using handled_passed [of pf p sv w reqs] sv by simp
  also have "\<dots> \<le> 100 + 10 * (of_int (T - ?t) / 10 ^ 9) * (1 + 1 / 2 ^ 53) ^ 4 + of_nat (length ?in) * 100 / 2 ^ 53"
    using passed_peer_bound [OF cfg assms(2) s u assms(5)] by (simp add: default_rate_limit_config_def)
  also have "\<dots> \<le> 100 + 10 * (of_int (T - ?t) / 10 ^ 9) * (1 + 1 / 2 ^ 53) ^ 4 + of_nat (length reqs) * 100 / 2 ^ 53"
    using concat_length [of reqs] by (intro add_left_mono divide_right_mono mult_right_mono) simp_all
  finally show ?thesis .
qed

definition sample_moment :: moment where
  "sample_moment = \<lparr>mo_draws = sample_draws, mo_now = 0, mo_clock = (5, 6)\<rparr>"

theorem handled_rate_bound_witness:
  "\<exists>sv w. startup demo_platform demo_start = (Inr sv, w)
     \<and> of_nat (handled_requests demo_platform ''9.9.9.9'' sv w [(sample_moment, sample_request), (sample_moment, sample_request)])
       \<le> 100 + 10 * (of_int (9 - 0) / 10 ^ 9) * (1 + 1 / 2 ^ 53) ^ 4 + of_nat 2 * 100 / (2 :: rat) ^ 53"
proof -
  obtain sv w where st: "startup demo_platform demo_start = (Inr sv, w)" using demo_starts by blast
  have t: "pf_steady demo_platform w = 0" by (simp add: demo_platform_def)
  have "''9.9.9.9'' \<notin> set (trusted_proxies (pf_getenv demo_platform ''CORVUS_TRUSTED_PROXIES''))"
    by (simp add: demo_platform_def trusted_proxies_def)
  from handled_rate_bound [OF st this, where T = 9 and reqs = "[(sample_moment, sample_request), (sample_moment, sample_request)]"]
  show ?thesis using st by (simp add: t sample_moment_def)
qed

end
